(* ===== verification/Prelude.thy ===== *)
theory Prelude
  imports Main "HOL-Library.Word" "HOL-Library.Monad_Syntax"
begin

text \<open>
  Shared ground of the development: the machine integer types of the C sources (LP64: \<open>int\<close>
  and \<open>unsigned\<close> are 32 bits, \<open>long\<close>, \<open>size_t\<close> and pointers 64 bits), the collection of
  definitions the component theories fill, and generic facts on words, linked chains of
  pointers and disjoint address ranges.
\<close>

unbundle bit_operations_syntax

section \<open>Machine integers\<close>

type_synonym u8 = "8 word"
type_synonym u16 = "16 word"
type_synonym u32 = "32 word"
type_synonym u64 = "64 word"

text \<open>
  A C \<open>int\<close> or \<open>long\<close> is the same word read through \<^term>\<open>sint\<close>; signed comparisons are
  \<open><s\<close> and \<open>\<le>s\<close>. \<open>int_to_long\<close> is the sign extension of an \<open>int\<close> converted to
  \<open>long\<close> (or to \<open>unsigned long\<close>), \<open>uint_to_long\<close> the zero extension of an \<open>unsigned\<close>.
\<close>

abbreviation int_to_long :: "u32 \<Rightarrow> u64" where
  "int_to_long x \<equiv> scast x"

abbreviation uint_to_long :: "u32 \<Rightarrow> u64" where
  "uint_to_long x \<equiv> ucast x"

text \<open>
  The functions of the sources that only pass their arguments on: a proof about what they call
  unfolds them together.
\<close>

named_theorems wrappers

section \<open>Words as numbers\<close>

lemma unat_add_nowrap:
  fixes a b :: u64
  assumes "unat a + unat b < 2 ^ 64"
  shows "unat (a + b) = unat a + unat b"
  using assms by (simp add: unat_word_ariths)

lemma unat_offset:
  fixes a :: u64
  assumes "unat a + i < 2 ^ 64"
  shows "unat (a + of_nat i) = unat a + i"
proof -
  have "unat (of_nat i :: u64) = i"
    using assms by (simp add: unat_of_nat take_bit_nat_eq_self)
  with assms show ?thesis by (simp add: unat_add_nowrap)
qed

lemma unat_of_nat64: "n < 2 ^ 64 \<Longrightarrow> unat (of_nat n :: u64) = n"
  by (simp add: unat_of_nat take_bit_nat_eq_self)

lemma unat_of_nat32: "n < 2 ^ 32 \<Longrightarrow> unat (of_nat n :: u32) = n"
  by (simp add: unat_of_nat take_bit_nat_eq_self)

lemma of_nat_u64_0:
  assumes "n < 2 ^ 64"
  shows "(of_nat n :: u64) = 0 \<longleftrightarrow> n = 0"
  using assms by (auto simp: word_of_nat_eq_0_iff dest: dvd_imp_le)

lemma unat_sub_nowrap:
  fixes a b :: u64
  assumes "unat b \<le> unat a"
  shows "unat (a - b) = unat a - unat b"
  using assms by (simp add: unat_sub word_le_nat_alt)

lemma unat_sub_wrap:
  fixes a b :: u64
  assumes "unat a < unat b"
  shows "unat (a - b) = 2 ^ 64 + unat a - unat b"
  using assms by (simp add: unat_sub_if')

lemma unat_eqI: "unat a = unat b \<Longrightarrow> a = (b :: 'a::len word)"
  by (rule word_unat_eq_iff [THEN iffD2])

lemma unat_lt64: "unat (a :: u64) < 18446744073709551616"
  using unsigned_less [of a] by simp

lemma unat_lt32: "unat (a :: u32) < 4294967296"
  using unsigned_less [of a] by simp

lemma unat_uint_to_long [simp]: "unat (uint_to_long x) = unat x"
proof -
  have "unat x < 2 ^ 64" by (rule less_trans [OF unat_lt32]) simp
  then show ?thesis by (simp add: unsigned_ucast_eq take_bit_nat_eq_self)
qed

text \<open>The signed reading of a word whose sign bit is clear.\<close>

lemma sint_small32:
  fixes x :: u32
  assumes "unat x < 2 ^ 31"
  shows "sint x = int (unat x)"
proof -
  from assms have "int (unat x) < int (2 ^ 31)" by (simp only: of_nat_less_iff)
  then have "uint x < 2 ^ 31" by simp
  moreover have "- (2 ^ 31) \<le> uint x" by (rule order_trans [of _ 0]) simp_all
  ultimately have "signed_take_bit 31 (uint x) = uint x"
    by (intro signed_take_bit_int_eq_self)
  then show ?thesis by (simp add: sint_uint)
qed

lemma sint_small64:
  fixes x :: u64
  assumes "unat x < 2 ^ 63"
  shows "sint x = int (unat x)"
proof -
  from assms have "int (unat x) < int (2 ^ 63)" by (simp only: of_nat_less_iff)
  then have "uint x < 2 ^ 63" by simp
  moreover have "- (2 ^ 63) \<le> uint x" by (rule order_trans [of _ 0]) simp_all
  ultimately have "signed_take_bit 63 (uint x) = uint x"
    by (intro signed_take_bit_int_eq_self)
  then show ?thesis by (simp add: sint_uint)
qed

lemma sint_neg64:
  fixes x :: u64
  assumes "2 ^ 63 \<le> unat x"
  shows "sint x < 0"
proof -
  have "unat x div 2 ^ 63 = 1"
    using assms unat_lt64 [of x] by (intro div_nat_eqI) simp_all
  then have "bit (unat x) 63" by (simp add: bit_iff_odd)
  then have "bit x 63" by (simp add: bit_unsigned_iff)
  then show ?thesis using bit_last_iff [of x] by simp
qed

lemma unat_int_to_long:
  fixes x :: u32
  assumes "unat x < 2 ^ 31"
  shows "unat (int_to_long x) = unat x"
proof -
  have "int_to_long x = word_of_int (sint x)" by (rule scast_eq)
  also have "\<dots> = of_nat (unat x)" using sint_small32 [OF assms] by simp
  finally show ?thesis using assms by (simp add: unat_of_nat take_bit_nat_eq_self)
qed

lemma sless_unat32:
  fixes a b :: u32
  assumes "unat a < 2 ^ 31" and "unat b < 2 ^ 31"
  shows "a <s b \<longleftrightarrow> unat a < unat b"
  using assms by (simp only: word_sless_alt sint_small32 of_nat_less_iff)

lemma sless_unat64:
  fixes a b :: u64
  assumes "unat a < 2 ^ 63" and "unat b < 2 ^ 63"
  shows "a <s b \<longleftrightarrow> unat a < unat b"
  using assms by (simp only: word_sless_alt sint_small64 of_nat_less_iff)

lemma sle_unat64:
  fixes a b :: u64
  assumes "unat a < 2 ^ 63" and "unat b < 2 ^ 63"
  shows "a \<le>s b \<longleftrightarrow> unat a \<le> unat b"
  using assms by (simp only: word_sle_eq sint_small64 of_nat_le_iff)

lemma unat_minus1_u64: "unat (- 1 :: u64) = 2 ^ 64 - 1"
  by (simp add: unsigned_minus_1_eq_mask mask_eq_exp_minus_1)

lemma unat_neg_of_nat:
  assumes "0 < d" and "d < 2 ^ 64"
  shows "unat (- of_nat d :: u64) = 2 ^ 64 - d"
proof -
  have "unat (of_nat d :: u64) = d"
    using assms by (simp add: unat_of_nat take_bit_nat_eq_self)
  then have "unat (0 - of_nat d :: u64) = 2 ^ 64 - d"
    using assms(1) by (subst unat_sub_wrap) simp_all
  then show ?thesis by (simp only: diff_0)
qed

text \<open>Shifts by one and masks of the low bits.\<close>

lemma unat_double_u32: "unat (x * 2 :: u32) = (2 * unat x) mod 2 ^ 32"
  by (simp add: unat_word_ariths mult.commute)

lemma unat_mask_u64:
  fixes x :: u64
  assumes "k < 64"
  shows "unat (x AND (2 ^ k - 1)) = unat x mod 2 ^ k"
proof -
  have "x AND (2 ^ k - 1) = take_bit k x"
    by (simp add: take_bit_eq_mask mask_eq_exp_minus_1)
  then have "unat (x AND (2 ^ k - 1)) = take_bit k (unat x)"
    by (simp only: unsigned_take_bit_eq)
  then show ?thesis by (simp only: take_bit_eq_mod)
qed

section \<open>Sums of lists\<close>

lemma sum_list_swap:
  fixes f :: "'a \<Rightarrow> 'b::comm_monoid_add"
  shows "i < length xs \<Longrightarrow> sum_list (map f (xs[i := y])) + f (xs ! i) = sum_list (map f xs) + f y"
proof (induction xs arbitrary: i)
  case Nil
  then show ?case by simp
next
  case (Cons x xs)
  show ?case
  proof (cases i)
    case 0
    then show ?thesis by (simp add: ac_simps)
  next
    case (Suc j)
    then have "sum_list (map f (xs[j := y])) + f (xs ! j) = sum_list (map f xs) + f y"
      using Cons by simp
    then show ?thesis using Suc by (simp add: add.assoc)
  qed
qed

end
