(* ===== verification/C_Heap.thy ===== *)
theory C_Heap
  imports Prelude
begin

text \<open>
  The memory the C components work on and the parts of the C library they use on it: byte
  memory with little-endian 64-bit cells, the process heap between its first address and the
  program break, \<open>sbrk\<close>, \<open>memset\<close> and \<open>bcopy\<close>. An access outside the heap is undefined
  behaviour and has the value \<^term>\<open>None\<close>. The locale \<open>word_cells\<close> states what a client of
  64-bit cells relies on and carries the facts on linked lists kept in such cells.
\<close>

section \<open>Byte memory\<close>

type_synonym bytes = "u64 \<Rightarrow> u8"

definition byte_of :: "u64 \<Rightarrow> nat \<Rightarrow> u8" where
  "byte_of v k = ucast (drop_bit (8 * k) v)"

primrec ld_bytes :: "bytes \<Rightarrow> u64 \<Rightarrow> nat \<Rightarrow> u64" where
  "ld_bytes m a 0 = 0"
| "ld_bytes m a (Suc k) = ucast (m a) OR push_bit 8 (ld_bytes m (a + 1) k)"

definition ld64 :: "bytes \<Rightarrow> u64 \<Rightarrow> u64" where
  "ld64 m a = ld_bytes m a 8"

definition st64 :: "bytes \<Rightarrow> u64 \<Rightarrow> u64 \<Rightarrow> bytes" where
  "st64 m a v = (\<lambda>x. if unat (x - a) < 8 then byte_of v (unat (x - a)) else m x)"

lemma bit_ld_bytes:
  "bit (ld_bytes m a k) n \<longleftrightarrow> n < 64 \<and> n < 8 * k \<and> bit (m (a + of_nat (n div 8))) (n mod 8)"
proof (induction k arbitrary: a n)
  case 0
  then show ?case by simp
next
  case (Suc k)
  show ?case
  proof (cases "n < 8")
    case True
    then show ?thesis
      by (auto simp: bit_or_iff bit_push_bit_iff bit_ucast_iff)
  next
    case False
    have at: "a + 1 + of_nat ((n - 8) div 8) = a + of_nat (n div 8)"
      using False by (simp add: le_div_geq)
    have pos: "(n - 8) mod 8 = n mod 8"
      using False by (simp add: le_mod_geq)
    have "\<not> bit (m a) n"
      using False by (auto dest: bit_imp_le_length)
    with False show ?thesis
      by (auto simp: bit_or_iff bit_push_bit_iff bit_ucast_iff Suc.IH at pos)
  qed
qed

lemma bit_byte_of: "bit (byte_of v k) n \<longleftrightarrow> n < 8 \<and> bit v (8 * k + n)"
  by (auto simp: byte_of_def bit_ucast_iff bit_drop_bit_eq dest: bit_imp_le_length)

lemma ld64_st64_same: "ld64 (st64 m a v) a = v"
proof (rule bit_word_eqI)
  fix n
  assume "n < LENGTH(64)"
  then have n: "n < 64" by simp
  then have "n div 8 < 8" by linarith
  then have "unat (of_nat (n div 8) :: u64) = n div 8"
    by (simp add: unat_of_nat take_bit_nat_eq_self)
  then show "bit (ld64 (st64 m a v) a) n = bit v n"
    using n \<open>n div 8 < 8\<close> by (simp add: ld64_def bit_ld_bytes st64_def bit_byte_of)
qed

lemma ld_bytes_cong:
  "(\<And>i. i < k \<Longrightarrow> m (a + of_nat i) = m' (a + of_nat i)) \<Longrightarrow> ld_bytes m a k = ld_bytes m' a k"
proof (induction k arbitrary: a)
  case 0
  then show ?case by simp
next
  case (Suc k)
  have "m a = m' a" using Suc.prems [of 0] by simp
  moreover have "ld_bytes m (a + 1) k = ld_bytes m' (a + 1) k"
  proof (rule Suc.IH)
    fix i assume "i < k"
    then show "m (a + 1 + of_nat i) = m' (a + 1 + of_nat i)"
      using Suc.prems [of "Suc i"] by (simp add: algebra_simps)
  qed
  ultimately show ?case by simp
qed

lemma ld_bytes_zero: "(\<And>i. i < k \<Longrightarrow> m (a + of_nat i) = 0) \<Longrightarrow> ld_bytes m a k = 0"
proof (induction k arbitrary: a)
  case 0
  then show ?case by simp
next
  case (Suc k)
  have "m a = 0" using Suc.prems [of 0] by simp
  moreover have "ld_bytes m (a + 1) k = 0"
  proof (rule Suc.IH)
    fix i assume "i < k"
    then show "m (a + 1 + of_nat i) = 0"
      using Suc.prems [of "Suc i"] by (simp add: algebra_simps)
  qed
  ultimately show ?case by simp
qed

lemma ld64_cong:
  "(\<And>i. i < 8 \<Longrightarrow> m (a + of_nat i) = m' (a + of_nat i)) \<Longrightarrow> ld64 m a = ld64 m' a"
  unfolding ld64_def by (rule ld_bytes_cong)

text \<open>Two cells are apart when no byte of one is a byte of the other.\<close>

definition apart :: "u64 \<Rightarrow> u64 \<Rightarrow> bool" where
  "apart a b \<longleftrightarrow> 8 \<le> unat (a - b) \<and> 8 \<le> unat (b - a)"

lemma apart_sym: "apart a b \<longleftrightarrow> apart b a"
  by (auto simp: apart_def)

lemma apartI:
  assumes "unat a + 8 \<le> unat b \<or> unat b + 8 \<le> unat a"
    and "unat a + 8 \<le> 2 ^ 64" and "unat b + 8 \<le> 2 ^ 64"
  shows "apart a b"
  using assms by (auto simp: apart_def unat_sub_if')

lemma apart_bytes:
  assumes "apart a b" and "i < 8"
  shows "8 \<le> unat (b + of_nat i - a)"
proof -
  have i: "unat (of_nat i :: u64) = i"
    using assms by (simp add: unat_of_nat take_bit_nat_eq_self)
  have eq: "b + of_nat i - a = (b - a) + of_nat i" by (simp add: algebra_simps)
  have "8 \<le> unat ((b - a) + of_nat i)"
  proof (cases "unat (b - a) + i < 2 ^ 64")
    case True
    then show ?thesis using assms i by (simp add: apart_def unat_add_nowrap)
  next
    case False
    have "a \<noteq> b" using assms by (auto simp: apart_def)
    then have "unat (b - a) + unat (a - b) = 2 ^ 64"
      using unat_lt64 [of a] unat_lt64 [of b] by (auto simp: unat_sub_if' word_unat_eq_iff)
    with False assms show ?thesis
      by (simp add: apart_def)
  qed
  then show ?thesis by (simp only: eq)
qed

lemma ld64_st64_apart: "apart a b \<Longrightarrow> ld64 (st64 m a v) b = ld64 m b"
  by (rule ld64_cong) (auto simp: st64_def dest: apart_bytes)


lemma st64_outside: "8 \<le> unat (x - a) \<Longrightarrow> st64 m a v x = m x"
  by (simp add: st64_def)

lemma st64_below: "unat x < unat a \<Longrightarrow> unat a + 8 \<le> 2 ^ 64 \<Longrightarrow> st64 m a v x = m x"
  by (rule st64_outside) (simp add: unat_sub_wrap)

lemma st64_above: "unat a + 8 \<le> unat x \<Longrightarrow> st64 m a v x = m x"
  by (rule st64_outside) (simp add: unat_sub_nowrap)

section \<open>Linked lists in cells\<close>

text \<open>
  \<open>chain nx p xs\<close>: starting at \<open>p\<close> and following \<open>nx\<close>, the null-terminated list of cells
  is \<open>xs\<close>.
\<close>

fun chain :: "(u64 \<Rightarrow> u64) \<Rightarrow> u64 \<Rightarrow> u64 list \<Rightarrow> bool" where
  "chain nx p [] \<longleftrightarrow> p = 0"
| "chain nx p (x # xs) \<longleftrightarrow> p = x \<and> x \<noteq> 0 \<and> chain nx (nx x) xs"

lemma chain_null [simp]: "chain nx 0 xs \<longleftrightarrow> xs = []"
  by (cases xs) auto

lemma chain_nonnull: "chain nx p xs \<Longrightarrow> p \<noteq> 0 \<Longrightarrow> \<exists>ys. xs = p # ys \<and> chain nx (nx p) ys"
  by (cases xs) auto

lemma chain_not_null_in: "chain nx p xs \<Longrightarrow> 0 \<notin> set xs"
  by (induction xs arbitrary: p) auto

lemma chain_unique: "chain nx p xs \<Longrightarrow> chain nx p ys \<Longrightarrow> xs = ys"
proof (induction xs arbitrary: p ys)
  case Nil
  then show ?case by simp
next
  case (Cons x xs)
  then show ?case by (cases ys) auto
qed

lemma chain_cong: "(\<And>x. x \<in> set xs \<Longrightarrow> nx x = nx' x) \<Longrightarrow> chain nx p xs = chain nx' p xs"
  by (induction xs arbitrary: p) auto

lemma chain_suffix: "chain nx p (xs @ ys) \<Longrightarrow> \<exists>q. chain nx q ys"
  by (induction xs arbitrary: p) auto

lemma chain_distinct: "chain nx p xs \<Longrightarrow> distinct xs"
proof (induction xs arbitrary: p)
  case Nil
  then show ?case by simp
next
  case (Cons x xs)
  have "x \<notin> set xs"
  proof
    assume "x \<in> set xs"
    then obtain as bs where xs: "xs = as @ x # bs" by (auto simp: in_set_conv_decomp)
    with Cons.prems obtain q where "chain nx q (x # bs)"
      using chain_suffix [of nx p "x # as" "x # bs"] by auto
    then have "chain nx (nx x) bs" by simp
    moreover have "chain nx (nx x) xs" using Cons.prems by simp
    ultimately have "xs = bs" by (rule chain_unique [rotated])
    with xs show False by simp
  qed
  with Cons show ?case by auto
qed

text \<open>What a client of 64-bit cells relies on, and the list operations it does on them.\<close>

locale word_cells =
  fixes ld :: "'m \<Rightarrow> u64 \<Rightarrow> u64"
    and st :: "'m \<Rightarrow> u64 \<Rightarrow> u64 \<Rightarrow> 'm"
  assumes ld_st_same: "ld (st m a v) a = v"
    and ld_st_apart: "apart a b \<Longrightarrow> ld (st m a v) b = ld m b"
begin

lemma chain_st:
  assumes "\<And>x. x \<in> set xs \<Longrightarrow> apart a x"
  shows "chain (ld (st m a v)) p xs = chain (ld m) p xs"
  using assms by (intro chain_cong) (simp add: ld_st_apart)

lemma chain_push:
  assumes "chain (ld m) h xs" and "a \<noteq> 0" and "\<And>x. x \<in> set xs \<Longrightarrow> apart a x"
  shows "chain (ld (st m a h)) a (a # xs)"
  using assms by (simp add: ld_st_same chain_st)

end

interpretation byte_cells: word_cells ld64 st64
  by unfold_locales (simp_all add: ld64_st64_same ld64_st64_apart)


section \<open>The process heap\<close>

text \<open>
  \<open>heap_lo\<close> is the first address of the heap segment and \<open>brk\<close> the program break: an address
  is mapped when it lies between them. \<open>calls\<close> counts the requests made to the kernel.
\<close>

record heap =
  bytes :: bytes
  heap_lo :: u64
  brk :: u64
  calls :: nat

text \<open>
  The operating system: \<open>getpagesize()\<close>, and which requests to move the break it grants. The
  decision may depend on how many requests came before, on the break and on the increment.
\<close>

record os =
  page_size :: u32
  grants :: "nat \<Rightarrow> u64 \<Rightarrow> u64 \<Rightarrow> bool"

definition mapped :: "heap \<Rightarrow> u64 \<Rightarrow> u64 \<Rightarrow> bool" where
  "mapped h a n \<longleftrightarrow> unat (heap_lo h) \<le> unat a \<and> unat a + unat n \<le> unat (brk h)"

definition rd8 :: "heap \<Rightarrow> u64 \<Rightarrow> u8 option" where
  "rd8 h a = (if mapped h a 1 then Some (bytes h a) else None)"

definition rd64 :: "heap \<Rightarrow> u64 \<Rightarrow> u64 option" where
  "rd64 h a = (if mapped h a 8 then Some (ld64 (bytes h) a) else None)"

definition wr8 :: "heap \<Rightarrow> u64 \<Rightarrow> u8 \<Rightarrow> heap option" where
  "wr8 h a v = (if mapped h a 1 then Some (h\<lparr>bytes := (bytes h)(a := v)\<rparr>) else None)"

definition wr64 :: "heap \<Rightarrow> u64 \<Rightarrow> u64 \<Rightarrow> heap option" where
  "wr64 h a v = (if mapped h a 8 then Some (h\<lparr>bytes := st64 (bytes h) a v\<rparr>) else None)"

text \<open>
  \<open>sbrk(n)\<close> returns the old break and moves it by \<open>n\<close>, or returns \<open>(void *) -1\<close> and moves
  nothing; memory gained is zero. \<open>sbrk(0)\<close> only reads the break.
\<close>

definition fill :: "bytes \<Rightarrow> u64 \<Rightarrow> u8 \<Rightarrow> u64 \<Rightarrow> bytes" where
  "fill m a v n = (\<lambda>x. if unat (x - a) < unat n then v else m x)"

definition sbrk :: "os \<Rightarrow> u64 \<Rightarrow> heap \<Rightarrow> u64 \<times> heap" where
  "sbrk os n h =
     (if n = 0 then (brk h, h)
      else if grants os (calls h) (brk h) n then
        (brk h, h\<lparr>brk := brk h + n, calls := Suc (calls h),
                  bytes := (if 0 <s n then fill (bytes h) (brk h) 0 n else bytes h)\<rparr>)
      else (- 1, h\<lparr>calls := Suc (calls h)\<rparr>))"

definition memset :: "u64 \<Rightarrow> u8 \<Rightarrow> u64 \<Rightarrow> heap \<Rightarrow> heap option" where
  "memset p v n h =
     (if n = 0 then Some h
      else if mapped h p n then Some (h\<lparr>bytes := fill (bytes h) p v n\<rparr>)
      else None)"

text \<open>\<open>bcopy(src, dst, n)\<close> copies as if through a buffer, so overlap is allowed.\<close>

definition bcopy :: "u64 \<Rightarrow> u64 \<Rightarrow> u64 \<Rightarrow> heap \<Rightarrow> heap option" where
  "bcopy src dst n h =
     (if n = 0 then Some h
      else if mapped h src n \<and> mapped h dst n then
        Some (h\<lparr>bytes := (\<lambda>x. if unat (x - dst) < unat n
                              then bytes h (src + (x - dst)) else bytes h x)\<rparr>)
      else None)"

text \<open>
  What is documented of the system the allocator runs on: the page size is a power of two
  (no smaller than two headers, no larger than \<open>2 ^ 30\<close>) and the break never leaves the lower
  half of the address space.
\<close>

definition os_ok :: "os \<Rightarrow> bool" where
  "os_ok os \<longleftrightarrow>
     (\<exists>k. 4 \<le> k \<and> k \<le> 30 \<and> unat (page_size os) = 2 ^ k) \<and>
     (\<forall>i b n. grants os i b n \<longrightarrow> unat b + unat n \<le> 2 ^ 47)"

text \<open>A machine with 4096-byte pages that grants everything below \<open>2 ^ 47\<close>.\<close>

definition linux :: os where
  "linux = \<lparr>page_size = 4096, grants = (\<lambda>i b n. unat b + unat n \<le> 2 ^ 47)\<rparr>"

lemma os_ok_linux: "os_ok linux"
proof -
  have "unat (4096 :: u32) = 2 ^ 12" by simp
  then show ?thesis unfolding os_ok_def linux_def by (auto intro!: exI [of _ 12])
qed

end
