(* ===== verification/Kmalloc.thy ===== *)
theory Kmalloc
  imports C_Heap
begin

text \<open>
  The allocator of \<open>kmalloc/original/kmalloc.c\<close>, statement by statement, in its default
  configuration (none of \<open>RCHECK\<close>, \<open>DEBUG\<close>, \<open>MSTATS\<close> is defined, so \<open>RSLOP\<close> is 0 and \<open>ASSERT\<close>
  expands to nothing) on an LP64 target. An operation has the value \<^term>\<open>None\<close> when the C
  execution has undefined behaviour or does not return; \<open>NULL\<close> is the address 0.
\<close>

section \<open>Data\<close>

text \<open>
  \<open>union overhead\<close> is the eight bytes in front of a block: a pointer \<open>ov_next\<close> while the block
  is free, and while it is in use a magic byte (overlaying the low byte of \<open>ov_next\<close>) followed by
  the bucket number.
\<close>

definition sizeof_overhead :: u64 where
  "sizeof_overhead = 8"

definition MAGIC :: u8 where
  "MAGIC = 0xef"

definition RSLOP :: u64 where
  "RSLOP = 0"

definition NBUCKETS :: nat where
  "NBUCKETS = 30"

text \<open>The static variables of the file, and the heap.\<close>

record kstate =
  nextf :: "u64 list"
  pagesz :: u32
  pagebucket :: u32
  realloc_srchlen :: u32
  hp :: heap

text \<open>The state at program start: zero-initialised statics on the heap the loader left.\<close>

definition kinit :: "heap \<Rightarrow> kstate" where
  "kinit h = \<lparr>nextf = replicate NBUCKETS 0, pagesz = 0, pagebucket = 0,
     realloc_srchlen = 4, hp = h\<rparr>"

definition ov_next :: "kstate \<Rightarrow> u64 \<Rightarrow> u64 option" where
  "ov_next s op = rd64 (hp s) op"

definition ov_magic :: "kstate \<Rightarrow> u64 \<Rightarrow> u8 option" where
  "ov_magic s op = rd8 (hp s) op"

definition ov_index :: "kstate \<Rightarrow> u64 \<Rightarrow> u8 option" where
  "ov_index s op = rd8 (hp s) (op + 1)"

definition set_ov_next :: "u64 \<Rightarrow> u64 \<Rightarrow> kstate \<Rightarrow> kstate option" where
  "set_ov_next op v s = do { h \<leftarrow> wr64 (hp s) op v; Some (s\<lparr>hp := h\<rparr>) }"

definition set_ov_magic :: "u64 \<Rightarrow> u8 \<Rightarrow> kstate \<Rightarrow> kstate option" where
  "set_ov_magic op v s = do { h \<leftarrow> wr8 (hp s) op v; Some (s\<lparr>hp := h\<rparr>) }"

definition set_ov_index :: "u64 \<Rightarrow> u8 \<Rightarrow> kstate \<Rightarrow> kstate option" where
  "set_ov_index op v s = do { h \<leftarrow> wr8 (hp s) (op + 1) v; Some (s\<lparr>hp := h\<rparr>) }"

text \<open>Reading and writing \<open>nextf[i]\<close>; an index outside the array is undefined behaviour.\<close>

definition nextf_at :: "kstate \<Rightarrow> nat \<Rightarrow> u64 option" where
  "nextf_at s i = (if i < length (nextf s) then Some (nextf s ! i) else None)"

definition set_nextf :: "nat \<Rightarrow> u64 \<Rightarrow> kstate \<Rightarrow> kstate option" where
  "set_nextf i v s =
     (if i < length (nextf s) then Some (s\<lparr>nextf := (nextf s)[i := v]\<rparr>) else None)"

text \<open>
  \<open>1 << k\<close> on \<open>int\<close>: undefined when \<open>k\<close> is negative or at least 32; a set sign bit is taken as the
  compilers produce it (\<open>INT_MIN\<close>), which the test \<open>sz <= 0\<close> in \<open>morecore\<close> counts on.
\<close>

definition int_shl1 :: "nat \<Rightarrow> u32 option" where
  "int_shl1 k = (if k < 32 then Some (push_bit k 1) else None)"

section \<open>kmalloc\<close>

text \<open>\<open>while (pagesz > amt) { amt <<= 1; bucket++; }\<close>\<close>

partial_function (option) page_loop :: "u32 \<Rightarrow> u32 \<Rightarrow> u32 \<Rightarrow> u32 option" where
  "page_loop psz amt bucket =
     (if psz > amt then page_loop psz (push_bit 1 amt) (bucket + 1) else Some bucket)"

text \<open>
  The first call: page size, alignment of the break, page bucket. The flag is \<^term>\<open>False\<close> when
  \<open>kmalloc\<close> returns \<open>NULL\<close> here.
\<close>

definition kmalloc_setup :: "os \<Rightarrow> kstate \<Rightarrow> (bool \<times> kstate) option" where
  "kmalloc_setup os s =
     (if pagesz s = 0 then
        let n = int_to_long (page_size os);
            s = s\<lparr>pagesz := page_size os\<rparr>;
            op = fst (sbrk os 0 (hp s));
            n = n - sizeof_overhead - (op AND (n - 1));
            n = (if n <s 0 then n + int_to_long (pagesz s) else n);
            (r, h) = (if n \<noteq> 0 then sbrk os n (hp s) else (0, hp s));
            s = s\<lparr>hp := h\<rparr>
        in if r = - 1 then Some (False, s)
           else do { b \<leftarrow> page_loop (pagesz s) 8 0; Some (True, s\<lparr>pagebucket := b\<rparr>) }
      else Some (True, s))"

text \<open>
  \<open>while (nbytes > amt + n) { amt <<= 1; if (amt == 0) return NULL; bucket++; }\<close>, with
  \<^term>\<open>None\<close> for the return of \<open>NULL\<close>. \<open>amt\<close> is \<open>unsigned\<close>, \<open>n\<close> a \<open>long\<close>, and the comparison is
  made on \<open>unsigned long\<close>. Each turn shifts one more bit out of \<open>amt\<close>, so the loop ends.
\<close>

definition shifts_left :: "u32 \<Rightarrow> nat" where
  "shifts_left amt = (LEAST k. push_bit k amt = 0)"

lemma shifts_left_decreases:
  assumes "push_bit 1 amt \<noteq> 0"
  shows "shifts_left (push_bit 1 amt) < shifts_left amt"
proof -
  have "push_bit 32 amt = 0"
    by (rule bit_word_eqI) (auto simp: bit_push_bit_iff)
  then have zero: "push_bit (shifts_left amt) amt = 0"
    unfolding shifts_left_def by (rule LeastI)
  have "amt \<noteq> 0" using assms by auto
  with zero have "shifts_left amt \<noteq> 0" by (auto intro: ccontr)
  then obtain k where k: "shifts_left amt = Suc k" by (cases "shifts_left amt") auto
  with zero have "push_bit k (push_bit 1 amt) = 0" by (simp add: push_bit_push_bit)
  then have "shifts_left (push_bit 1 amt) \<le> k"
    unfolding shifts_left_def by (rule Least_le)
  with k show ?thesis by simp
qed

function size_loop :: "u64 \<Rightarrow> u64 \<Rightarrow> u32 \<Rightarrow> u32 \<Rightarrow> u32 option" where
  "size_loop nbytes n amt bucket =
     (if nbytes > uint_to_long amt + n then
        let amt = push_bit 1 amt in
        if amt = 0 then None else size_loop nbytes n amt (bucket + 1)
      else Some bucket)"
  by pat_completeness auto
termination
  by (relation "measure (\<lambda>(nbytes, n, amt, bucket). shifts_left amt)")
    (simp_all add: shifts_left_decreases [simplified])

declare size_loop.simps [simp del]

text \<open>The bucket that serves a request, or \<^term>\<open>None\<close> when there is none.\<close>

definition kmalloc_bucket :: "kstate \<Rightarrow> u64 \<Rightarrow> u32 option" where
  "kmalloc_bucket s nbytes =
     (let n = int_to_long (pagesz s) - sizeof_overhead - RSLOP
      in if nbytes \<le> n then size_loop nbytes (- (sizeof_overhead + RSLOP)) 8 0
         else size_loop nbytes n (pagesz s) (pagebucket s))"


text \<open>
  The loop of \<open>morecore\<close>: \<open>while (--nblks > 0)\<close> links the block at \<open>op\<close> to the one \<open>sz\<close> bytes on.
  The last block's link is not written: it is the zero of fresh memory.
\<close>

function carve :: "u64 \<Rightarrow> u64 \<Rightarrow> u32 \<Rightarrow> kstate \<Rightarrow> kstate option" where
  "carve op sz nblks s =
     (let nblks = nblks - 1 in
      if 0 <s nblks then do {
        s \<leftarrow> set_ov_next op (op + sz) s;
        carve (op + sz) sz nblks s
      } else Some s)"
  by pat_completeness auto
termination
proof (relation "measure (\<lambda>(op, sz, nblks, s). unat nblks)", goal_cases)
  case 1
  then show ?case by simp
next
  case (2 op sz nblks s n s')
  then have "nblks \<noteq> 0" by auto
  then have "0 < unat nblks" by (simp add: unat_gt_0)
  with 2(1) \<open>nblks \<noteq> 0\<close> show ?case by (simp add: unat_minus_one)
qed

declare carve.simps [simp del]

definition morecore :: "os \<Rightarrow> u32 \<Rightarrow> kstate \<Rightarrow> kstate option" where
  "morecore os bucket s = do {
     one \<leftarrow> int_shl1 (unat (bucket + 3));
     let sz = int_to_long one;
     if sz \<le>s 0 then Some s
     else do {
       let (amt, nblks) =
         (if sz <s int_to_long (pagesz s)
          then (int_to_long (pagesz s), ucast (int_to_long (pagesz s) div sz))
          else (sz + int_to_long (pagesz s), 1));
       let (op, h) = sbrk os amt (hp s);
       let s = s\<lparr>hp := h\<rparr>;
       if op = - 1 then Some s
       else do {
         s \<leftarrow> set_nextf (unat bucket) op s;
         carve op sz nblks s
       }
     }
   }"

text \<open>From the test of \<open>nextf[bucket]\<close> to the end of \<open>kmalloc\<close>.\<close>

definition kmalloc_take :: "os \<Rightarrow> u32 \<Rightarrow> kstate \<Rightarrow> (u64 \<times> kstate) option" where
  "kmalloc_take os bucket s = do {
     op \<leftarrow> nextf_at s (unat bucket);
     s \<leftarrow> (if op = 0 then morecore os bucket s else Some s);
     op \<leftarrow> nextf_at s (unat bucket);
     if op = 0 then Some (0, s)
     else do {
       nx \<leftarrow> ov_next s op;
       s \<leftarrow> set_nextf (unat bucket) nx s;
       s \<leftarrow> set_ov_magic op MAGIC s;
       s \<leftarrow> set_ov_index op (ucast bucket) s;
       Some (op + sizeof_overhead, s)
     }
   }"

definition kmalloc :: "os \<Rightarrow> u64 \<Rightarrow> kstate \<Rightarrow> (u64 \<times> kstate) option" where
  "kmalloc os nbytes s = do {
     (ok, s) \<leftarrow> kmalloc_setup os s;
     if \<not> ok then Some (0, s)
     else (case kmalloc_bucket s nbytes of
             None \<Rightarrow> Some (0, s)
           | Some bucket \<Rightarrow> kmalloc_take os bucket s)
   }"

definition kcalloc :: "os \<Rightarrow> u64 \<Rightarrow> u64 \<Rightarrow> kstate \<Rightarrow> (u64 \<times> kstate) option" where
  "kcalloc os nelem elsize s = do {
     (ptr, s) \<leftarrow> kmalloc os (nelem * elsize) s;
     h \<leftarrow> memset ptr 0 (nelem * elsize) (hp s);
     Some (ptr, s\<lparr>hp := h\<rparr>)
   }"

section \<open>kfree and the size lookup\<close>

definition kfree :: "u64 \<Rightarrow> kstate \<Rightarrow> kstate option" where
  "kfree cp s =
     (if cp = 0 then Some s
      else do {
        let op = cp - sizeof_overhead;
        magic \<leftarrow> ov_magic s op;
        if magic \<noteq> MAGIC then Some s
        else do {
          size \<leftarrow> ov_index s op;
          h \<leftarrow> nextf_at s (unat size);
          s \<leftarrow> set_ov_next op h s;
          set_nextf (unat size) op s
        }
      })"

definition kmalloc_usable_size :: "u64 \<Rightarrow> kstate \<Rightarrow> u64 option" where
  "kmalloc_usable_size cp s =
     (if cp = 0 then Some 0
      else do {
        let op = cp - sizeof_overhead;
        magic \<leftarrow> ov_magic s op;
        if magic \<noteq> MAGIC then Some 0
        else do { ix \<leftarrow> ov_index s op; Some (ucast ix) }
      })"

section \<open>krealloc\<close>

text \<open>One list of \<open>findbucket\<close>: \<open>for (p = nextf[i]; p && j != srchlen; p = p->ov_next)\<close>.\<close>

partial_function (option) findbucket_walk ::
    "kstate \<Rightarrow> u64 \<Rightarrow> u32 \<Rightarrow> u64 \<Rightarrow> u32 \<Rightarrow> bool option" where
  "findbucket_walk s freep srchlen p j =
     (if p \<noteq> 0 \<and> j \<noteq> srchlen then
        (if p = freep then Some True
         else Option.bind (ov_next s p) (\<lambda>nx. findbucket_walk s freep srchlen nx (j + 1)))
      else Some False)"

fun findbucket_in :: "kstate \<Rightarrow> u64 \<Rightarrow> u32 \<Rightarrow> nat list \<Rightarrow> u32 option" where
  "findbucket_in s freep srchlen [] = Some (- 1)"
| "findbucket_in s freep srchlen (i # is) = do {
     p \<leftarrow> nextf_at s i;
     found \<leftarrow> findbucket_walk s freep srchlen p 0;
     if found then Some (of_nat i) else findbucket_in s freep srchlen is
   }"

definition findbucket :: "kstate \<Rightarrow> u64 \<Rightarrow> u32 \<Rightarrow> u32 option" where
  "findbucket s freep srchlen = findbucket_in s freep srchlen [0..<NBUCKETS]"

text \<open>
  The bucket \<open>i\<close> of the block, and whether the block is in use. A block that is no longer in use
  is searched on the free lists; where that fails \<open>i\<close> is \<open>NBUCKETS\<close>.
\<close>

definition krealloc_lookup :: "u64 \<Rightarrow> kstate \<Rightarrow> (bool \<times> u64) option" where
  "krealloc_lookup op s = do {
     magic \<leftarrow> ov_magic s op;
     if magic = MAGIC then do { ix \<leftarrow> ov_index s op; Some (True, ucast ix) }
     else do {
       i \<leftarrow> findbucket s op 1;
       if i <s 0 then do {
         i \<leftarrow> findbucket s op (realloc_srchlen s);
         if i <s 0 then Some (False, of_nat NBUCKETS) else Some (False, int_to_long i)
       } else Some (False, int_to_long i)
     }
   }"

text \<open>The capacity \<open>onb\<close> of a block of bucket \<open>i\<close>, and the bound \<open>i\<close> becomes for the test below.\<close>

definition krealloc_onb :: "u64 \<Rightarrow> kstate \<Rightarrow> u64 option" where
  "krealloc_onb i s = do {
     one \<leftarrow> int_shl1 (unat (i + 3));
     let onb = int_to_long one;
     Some (if onb < int_to_long (pagesz s) then onb - (sizeof_overhead + RSLOP)
           else onb + (int_to_long (pagesz s) - sizeof_overhead - RSLOP))
   }"

definition krealloc_low :: "u64 \<Rightarrow> kstate \<Rightarrow> u64 option" where
  "krealloc_low i s =
     (if i \<noteq> 0 then do {
        one \<leftarrow> int_shl1 (unat (i + 2));
        let i = int_to_long one;
        Some (if i <s int_to_long (pagesz s) then i - (sizeof_overhead + RSLOP)
              else i + (int_to_long (pagesz s) - sizeof_overhead - RSLOP))
      } else Some i)"

definition krealloc :: "os \<Rightarrow> u64 \<Rightarrow> u64 \<Rightarrow> kstate \<Rightarrow> (u64 \<times> kstate) option" where
  "krealloc os cp nbytes s =
     (if cp = 0 then kmalloc os nbytes s
      else if nbytes = 0 then do { s \<leftarrow> kfree cp s; Some (0, s) }
      else do {
        (was_alloced, i) \<leftarrow> krealloc_lookup (cp - sizeof_overhead) s;
        onb \<leftarrow> krealloc_onb i s;
        keep \<leftarrow> (if was_alloced
                 then do { low \<leftarrow> krealloc_low i s; Some (nbytes \<le> onb \<and> nbytes > low) }
                 else Some False);
        if keep then Some (cp, s)
        else do {
          s \<leftarrow> (if was_alloced then kfree cp s else Some s);
          (res, s) \<leftarrow> kmalloc os nbytes s;
          if res = 0 then Some (0, s)
          else if cp \<noteq> res then do {
            h \<leftarrow> bcopy cp res (if nbytes < onb then nbytes else onb) (hp s);
            Some (res, s\<lparr>hp := h\<rparr>)
          } else Some (res, s)
        }
      })"

end
