(* ===== verification/Kmalloc_Size.thy ===== *)
theory Kmalloc_Size
  imports Kmalloc
begin

text \<open>
  How \<open>kmalloc\<close> chooses the bucket of a request: what a block of bucket \<open>b\<close> takes from the heap
  and offers to the caller, the page bucket computed on the first call, and that the shift loop
  finds the smallest bucket whose blocks are large enough.
\<close>

section \<open>Block sizes\<close>

definition extent :: "nat \<Rightarrow> nat \<Rightarrow> nat" where
  "extent pg b = (if 2 ^ (b + 3) < pg then 2 ^ (b + 3) else 2 ^ (b + 3) + pg)"

definition capacity :: "nat \<Rightarrow> nat \<Rightarrow> nat" where
  "capacity pg b = extent pg b - 8"

lemma pow_ge_8: "(8::nat) \<le> 2 ^ (b + 3)"
  by (simp add: power_add)

lemma extent_ge_8: "8 \<le> extent pg b"
  using pow_ge_8 [of b] by (simp add: extent_def)

lemma extent_capacity: "extent pg b = capacity pg b + 8"
  using extent_ge_8 [of pg b] by (simp add: capacity_def)

lemma extent_strict_mono:
  assumes "a < b"
  shows "extent pg a < extent pg b"
proof -
  have step: "(if x < pg then x else x + pg) < (if y < pg then y else y + pg)"
    if "x < y" for x y :: nat
    using that by auto
  have "(2::nat) ^ (a + 3) < 2 ^ (b + 3)" using assms by simp
  then show ?thesis unfolding extent_def by (rule step)
qed

lemma extent_mono: "a \<le> b \<Longrightarrow> extent pg a \<le> extent pg b"
  using extent_strict_mono [of a b pg] by (cases "a = b") auto

lemma capacity_mono: "a \<le> b \<Longrightarrow> capacity pg a \<le> capacity pg b"
  using extent_mono [of a b pg] by (simp add: capacity_def)

lemma extent_bound: "b < 28 \<Longrightarrow> pg \<le> 2 ^ 30 \<Longrightarrow> extent pg b \<le> 2 ^ 31"
  using power_increasing [of "b + 3" 30 "2::nat"] by (auto simp: extent_def)

section \<open>The page bucket\<close>

lemma unat_shift1_pow:
  fixes amt :: u32
  assumes "unat amt = 2 ^ j" and "j < 31"
  shows "unat (push_bit 1 amt) = 2 ^ Suc j"
proof -
  have "(2::nat) ^ Suc j \<le> 2 ^ 31" using assms(2) by (intro power_increasing) auto
  then have "2 ^ Suc j < (2 ^ 32 :: nat)" by simp
  moreover have "unat (push_bit 1 amt) = (2 ^ Suc j) mod 2 ^ 32"
    using assms(1) by (simp add: unat_double_u32)
  ultimately show ?thesis by (simp only: mod_less)
qed

lemma page_loop_returns:
  assumes "unat psz = 2 ^ k" and "k \<le> 31" and "unat amt = 2 ^ j" and "j \<le> k"
  shows "page_loop psz amt bucket = Some (bucket + of_nat (k - j))"
  using assms
proof (induction "k - j" arbitrary: j amt bucket)
  case 0
  then show ?case by (subst page_loop.simps) (simp add: word_less_nat_alt)
next
  case (Suc d)
  then have j: "j < k" "j < 31" by auto
  then have "(2::nat) ^ j < 2 ^ k" by simp
  then have "psz > amt" using Suc.prems by (simp add: word_less_nat_alt)
  moreover have "page_loop psz (push_bit 1 amt) (bucket + 1) = Some (bucket + 1 + of_nat (k - Suc j))"
    using Suc.hyps(2) j Suc.prems unat_shift1_pow [OF Suc.prems(3) j(2)]
    by (intro Suc.hyps(1)) auto
  moreover have "bucket + 1 + of_nat (k - Suc j) = bucket + of_nat (k - j)"
    using j by (simp flip: Suc_diff_Suc)
  ultimately show ?case by (subst page_loop.simps) simp
qed

section \<open>The shift loop\<close>

text \<open>
  With \<open>amt = 2 ^ (b + 3)\<close> in bucket \<open>b\<close> and \<open>lim b\<close> the value of \<open>amt + n\<close>, the loop stops at
  the first bucket from \<open>b\<close> on whose limit is not below the request.
\<close>

definition first_bucket :: "(nat \<Rightarrow> nat) \<Rightarrow> nat \<Rightarrow> nat \<Rightarrow> nat \<Rightarrow> bool" where
  "first_bucket lim nbytes b j \<longleftrightarrow>
     b \<le> j \<and> j \<le> 28 \<and> nbytes \<le> lim j \<and> (\<forall>i. b \<le> i \<and> i < j \<longrightarrow> lim i < nbytes)"

lemma size_loop_spec:
  assumes "unat amt = 2 ^ (b + 3)" and "b \<le> 28" and "bucket = of_nat b"
    and lim: "\<And>i (a :: u32). i \<le> 28 \<Longrightarrow> unat a = 2 ^ (i + 3) \<Longrightarrow> unat (uint_to_long a + n) = lim i"
  shows "case size_loop nbytes n amt bucket of
           None \<Rightarrow> \<forall>i. b \<le> i \<and> i \<le> 28 \<longrightarrow> lim i < unat nbytes
         | Some r \<Rightarrow> \<exists>j. r = of_nat j \<and> first_bucket lim (unat nbytes) b j"
  using assms(1-3)
proof (induction "28 - b" arbitrary: b amt bucket)
  case 0
  then have b: "b = 28" by simp
  with 0 have "unat amt = 2 ^ 31" by simp
  then have "push_bit 1 amt = 0"
    by (intro unat_eqI) (simp add: unat_double_u32)
  then show ?case
    using 0 b lim [of 28 amt]
    by (subst size_loop.simps)
      (auto simp: word_less_nat_alt first_bucket_def Let_def not_less
        intro!: exI [of _ 28])
next
  case (Suc d)
  then have b: "b < 28" by simp
  let ?amt = "push_bit 1 amt"
  have amt: "unat ?amt = 2 ^ (Suc b + 3)"
    using unat_shift1_pow [OF Suc.prems(1)] b by simp
  then have "?amt \<noteq> 0" by auto
  have here: "unat (uint_to_long amt + n) = lim b"
    using lim [of b amt] b Suc.prems(1) by simp
  show ?case
  proof (cases "lim b < unat nbytes")
    case False
    then show ?thesis
      using here b Suc.prems(3)
      by (subst size_loop.simps)
        (auto simp: word_less_nat_alt first_bucket_def intro!: exI [of _ b])
  next
    case True
    have "size_loop nbytes n amt bucket = size_loop nbytes n ?amt (bucket + 1)"
      using True here \<open>?amt \<noteq> 0\<close>
      by (subst size_loop.simps) (simp add: word_less_nat_alt Let_def)
    moreover have "case size_loop nbytes n ?amt (bucket + 1) of
           None \<Rightarrow> \<forall>i. Suc b \<le> i \<and> i \<le> 28 \<longrightarrow> lim i < unat nbytes
         | Some r \<Rightarrow> \<exists>j. r = of_nat j \<and> first_bucket lim (unat nbytes) (Suc b) j"
      using Suc.hyps(2) b amt Suc.prems(3) by (intro Suc.hyps(1)) auto
    ultimately show ?thesis
      using True by (auto simp: first_bucket_def le_less_Suc_eq Suc_le_eq
          split: option.splits dest!: le_neq_implies_less)
  qed
qed


section \<open>The bucket of a request\<close>

text \<open>
  After the first call the page size is that of the system; when that call was successful
  \<open>pagebucket\<close> is the bucket of a page.
\<close>

definition paged :: "os \<Rightarrow> kstate \<Rightarrow> bool" where
  "paged os s \<longleftrightarrow> pagesz s = page_size os \<and> (\<exists>k. 4 \<le> k \<and> k \<le> 30 \<and> unat (pagesz s) = 2 ^ k)"

definition booted :: "os \<Rightarrow> kstate \<Rightarrow> bool" where
  "booted os s \<longleftrightarrow> paged os s \<and>
     (\<exists>k. unat (pagesz s) = 2 ^ k \<and> pagebucket s = of_nat (k - 3))"

text \<open>
  The reference: the smallest bucket whose capacity covers the request, by linear search over
  the 29 buckets a 32-bit \<open>amt\<close> can reach.
\<close>

definition bucket_for :: "nat \<Rightarrow> nat \<Rightarrow> nat option" where
  "bucket_for pg n = find (\<lambda>j. n \<le> capacity pg j) [0..<29]"

lemma bucket_for_Some:
  "bucket_for pg n = Some j \<longleftrightarrow> j < 29 \<and> n \<le> capacity pg j \<and> (\<forall>i<j. capacity pg i < n)"
  by (auto simp: bucket_for_def find_Some_iff not_le)

lemma bucket_for_None: "bucket_for pg n = None \<longleftrightarrow> (\<forall>j<29. capacity pg j < n)"
  by (auto simp: bucket_for_def find_None_iff not_le)

lemma unat_neg8: "unat (- 8 :: u64) = 2 ^ 64 - 8"
  by simp

lemma small_limit:
  fixes a :: u32
  assumes "unat a = 2 ^ (i + 3)"
  shows "unat (uint_to_long a + - (sizeof_overhead + RSLOP)) = 2 ^ (i + 3) - 8"
proof -
  have "unat (uint_to_long a + - (8 :: u64)) = unat (uint_to_long a - 8)" by simp
  also have "\<dots> = 2 ^ (i + 3) - 8"
    using pow_ge_8 [of i] assms by (subst unat_sub_nowrap) simp_all
  finally show ?thesis by (simp add: sizeof_overhead_def RSLOP_def)
qed

lemma page_less_header:
  fixes p :: u32
  assumes "unat p = 2 ^ k" and "4 \<le> k" and "k \<le> 30"
  shows "unat (int_to_long p - sizeof_overhead - RSLOP) = 2 ^ k - 8"
    and "unat (int_to_long p) = 2 ^ k"
proof -
  have k: "(2::nat) ^ k \<le> 2 ^ 30" "(2::nat) ^ 4 \<le> 2 ^ k"
    using assms by (intro power_increasing; simp)+
  then show p: "unat (int_to_long p) = 2 ^ k"
    using assms by (simp add: unat_int_to_long)
  show "unat (int_to_long p - sizeof_overhead - RSLOP) = 2 ^ k - 8"
    using k p by (simp add: sizeof_overhead_def RSLOP_def unat_sub_nowrap)
qed

lemma large_limit:
  fixes a p :: u32
  assumes "unat a = 2 ^ (i + 3)" and "i \<le> 28" and "unat p = 2 ^ k" and "4 \<le> k" and "k \<le> 30"
  shows "unat (uint_to_long a + (int_to_long p - sizeof_overhead - RSLOP)) = 2 ^ (i + 3) + 2 ^ k - 8"
proof -
  have "(2::nat) ^ k \<le> 2 ^ 30" "(2::nat) ^ 4 \<le> 2 ^ k" "(2::nat) ^ (i + 3) \<le> 2 ^ 31"
    using assms by (intro power_increasing; simp)+
  then show ?thesis
    using page_less_header(1) [OF assms(3-5)] assms(1) by (subst unat_add_nowrap) simp_all
qed

lemma size_loop_small:
  assumes "nbytes \<le> 2 ^ k - 8" and "4 \<le> k" and "k \<le> 30"
    and "first_bucket (\<lambda>i. 2 ^ (i + 3) - 8) nbytes 0 j"
  shows "bucket_for (2 ^ k) nbytes = Some j"
proof -
  have "j \<le> k - 3"
  proof (rule ccontr)
    assume "\<not> j \<le> k - 3"
    then have "(2::nat) ^ (k - 3 + 3) - 8 < nbytes"
      using assms(4) unfolding first_bucket_def by auto
    with assms(1,2) show False by simp
  qed
  have "capacity (2 ^ k) i = 2 ^ (i + 3) - 8" if "i < j" for i
  proof -
    have "i + 3 < k" using that \<open>j \<le> k - 3\<close> by simp
    then have "(2::nat) ^ (i + 3) < 2 ^ k" by (simp only: power_strict_increasing_iff)
    then show ?thesis by (simp only: capacity_def extent_def if_True)
  qed
  moreover have "2 ^ (j + 3) - 8 \<le> capacity (2 ^ k) j"
    by (auto simp: capacity_def extent_def intro: diff_le_mono)
  ultimately show ?thesis
    using assms(4) by (auto simp: bucket_for_Some first_bucket_def)
qed

lemma size_loop_large:
  assumes "2 ^ k - 8 < nbytes" and "4 \<le> k" and "k \<le> 30"
  shows "first_bucket (\<lambda>i. 2 ^ (i + 3) + 2 ^ k - 8) nbytes (k - 3) j \<Longrightarrow>
           bucket_for (2 ^ k) nbytes = Some j"
    and "(\<forall>i. k - 3 \<le> i \<and> i \<le> 28 \<longrightarrow> 2 ^ (i + 3) + 2 ^ k - 8 < nbytes) \<Longrightarrow>
           bucket_for (2 ^ k) nbytes = None"
proof -
  have below: "capacity (2 ^ k) i < nbytes" if "i < k - 3" for i
  proof -
    have "i + 3 < k" using that by simp
    then have "(2::nat) ^ (i + 3) < 2 ^ k" by (simp only: power_strict_increasing_iff)
    then have "capacity (2 ^ k) i < 2 ^ k - 8"
      using pow_ge_8 [of i] by (simp only: capacity_def extent_def if_True diff_less_mono)
    with assms(1) show ?thesis by linarith
  qed
  have above: "capacity (2 ^ k) i = 2 ^ (i + 3) + 2 ^ k - 8" if "k - 3 \<le> i" for i
  proof -
    have "k \<le> i + 3" using that by simp
    then have "\<not> (2::nat) ^ (i + 3) < 2 ^ k" by (simp only: power_strict_increasing_iff)
    then show ?thesis by (simp only: capacity_def extent_def if_False)
  qed
  show "bucket_for (2 ^ k) nbytes = Some j"
    if fb: "first_bucket (\<lambda>i. 2 ^ (i + 3) + 2 ^ k - 8) nbytes (k - 3) j"
  proof -
    have "capacity (2 ^ k) i < nbytes" if "i < j" for i
      using fb that below [of i] above [of i]
      by (cases "i < k - 3") (simp_all add: first_bucket_def)
    then show ?thesis
      using fb above [of j] by (simp add: bucket_for_Some first_bucket_def)
  qed
  show "bucket_for (2 ^ k) nbytes = None"
    if no: "\<forall>i. k - 3 \<le> i \<and> i \<le> 28 \<longrightarrow> 2 ^ (i + 3) + 2 ^ k - 8 < nbytes"
  proof -
    have "capacity (2 ^ k) i < nbytes" if "i < 29" for i
      using no that below [of i] above [of i] by (cases "i < k - 3") simp_all
    then show ?thesis by (simp add: bucket_for_None)
  qed
qed

lemma kmalloc_bucket_eq:
  assumes "booted os s"
  shows "kmalloc_bucket s nbytes =
    map_option of_nat (bucket_for (unat (pagesz s)) (unat nbytes))"
proof -
  obtain k where k: "4 \<le> k" "k \<le> 30" "unat (pagesz s) = 2 ^ k" "pagebucket s = of_nat (k - 3)"
    using assms by (auto simp: booted_def paged_def)
  let ?n = "int_to_long (pagesz s) - sizeof_overhead - RSLOP"
  have n: "unat ?n = 2 ^ k - 8" using k by (intro page_less_header)
  show ?thesis
  proof (cases "unat nbytes \<le> 2 ^ k - 8")
    case True
    let ?r = "size_loop nbytes (- (sizeof_overhead + RSLOP)) 8 0"
    have eq: "kmalloc_bucket s nbytes = ?r"
      using True n by (simp add: kmalloc_bucket_def word_le_nat_alt)
    have "case ?r of
        None \<Rightarrow> \<forall>i. 0 \<le> i \<and> i \<le> 28 \<longrightarrow> 2 ^ (i + 3) - 8 < unat nbytes
      | Some r \<Rightarrow> \<exists>j. r = of_nat j \<and> first_bucket (\<lambda>i. 2 ^ (i + 3) - 8) (unat nbytes) 0 j"
      by (rule size_loop_spec) (simp_all only: small_limit, simp_all)
    moreover have "\<exists>i\<le>28. \<not> (2 ^ (i + 3) - 8 < unat nbytes)"
      using True k by (intro exI [of _ "k - 3"]) auto
    ultimately obtain j where "?r = Some (of_nat j)"
        "first_bucket (\<lambda>i. 2 ^ (i + 3) - 8) (unat nbytes) 0 j"
      by (auto split: option.splits)
    then show ?thesis
      using eq size_loop_small [OF True k(1,2)] k(3) by simp
  next
    case False
    let ?r = "size_loop nbytes ?n (pagesz s) (pagebucket s)"
    have eq: "kmalloc_bucket s nbytes = ?r"
      using False n by (simp add: kmalloc_bucket_def word_le_nat_alt)
    have "case ?r of
        None \<Rightarrow> \<forall>i. k - 3 \<le> i \<and> i \<le> 28 \<longrightarrow> 2 ^ (i + 3) + 2 ^ k - 8 < unat nbytes
      | Some r \<Rightarrow> \<exists>j. r = of_nat j \<and>
          first_bucket (\<lambda>i. 2 ^ (i + 3) + 2 ^ k - 8) (unat nbytes) (k - 3) j"
      using k by (intro size_loop_spec large_limit) simp_all
    then show ?thesis
      using eq size_loop_large [OF _ k(1,2), of "unat nbytes"] False k(3)
      by (auto split: option.splits simp: not_le)
  qed
qed

end
