(* ===== verification/Kmalloc_Inv.thy ===== *)
theory Kmalloc_Inv
  imports Kmalloc_Size
begin

text \<open>
  The invariant of the allocator. Ghost state records every block ever carved and which blocks
  are in use; the invariant ties it to the free lists and headers in memory and says that blocks
  lie in the heap, are aligned and do not overlap.
\<close>

section \<open>Ghost state\<close>

text \<open>\<open>blk\<close> maps the header address of every block to its bucket; \<open>used\<close> are the blocks in use.\<close>

record ghost =
  blk :: "u64 \<Rightarrow> nat option"
  used :: "u64 set"

definition ghost0 :: ghost where
  "ghost0 = \<lparr>blk = (\<lambda>_. None), used = {}\<rparr>"

definition free_of :: "ghost \<Rightarrow> nat \<Rightarrow> u64 set" where
  "free_of g b = {op. blk g op = Some b \<and> op \<notin> used g}"

section \<open>The invariant\<close>

text \<open>Where the blocks lie: \<open>pg\<close> is the page size, \<open>lo\<close> and \<open>hi\<close> the ends of the heap.\<close>

definition placed :: "nat \<Rightarrow> nat \<Rightarrow> nat \<Rightarrow> (u64 \<Rightarrow> nat option) \<Rightarrow> bool" where
  "placed pg lo hi B \<longleftrightarrow>
     (\<forall>op b. B op = Some b \<longrightarrow>
        b < 28 \<and> lo \<le> unat op \<and> unat op + extent pg b \<le> hi \<and>
        (unat op + 8) mod min (2 ^ (b + 3)) pg = 0)"

definition separate :: "nat \<Rightarrow> (u64 \<Rightarrow> nat option) \<Rightarrow> bool" where
  "separate pg B \<longleftrightarrow>
     (\<forall>op b op' b'. B op = Some b \<and> B op' = Some b' \<and> op \<noteq> op' \<longrightarrow>
        unat op + extent pg b \<le> unat op' \<or> unat op' + extent pg b' \<le> unat op)"

definition lists_ok :: "ghost \<Rightarrow> u64 list \<Rightarrow> bytes \<Rightarrow> bool" where
  "lists_ok g nf m \<longleftrightarrow> length nf = NBUCKETS \<and>
     (\<forall>b < NBUCKETS. \<exists>xs. chain (ld64 m) (nf ! b) xs \<and> set xs = free_of g b)"

definition headers_ok :: "ghost \<Rightarrow> bytes \<Rightarrow> bool" where
  "headers_ok g m \<longleftrightarrow>
     (\<forall>op \<in> used g. \<exists>b. blk g op = Some b \<and> m op = MAGIC \<and> m (op + 1) = of_nat b)"

definition heap_ok :: "nat \<Rightarrow> heap \<Rightarrow> bool" where
  "heap_ok pg h \<longleftrightarrow> 0 < unat (heap_lo h) \<and> unat (heap_lo h) \<le> unat (brk h) \<and>
     unat (brk h) \<le> 2 ^ 47 \<and> (unat (brk h) + 8) mod pg = 0"

definition kwf :: "os \<Rightarrow> ghost \<Rightarrow> kstate \<Rightarrow> bool" where
  "kwf os g s \<longleftrightarrow>
     paged os s \<and> heap_ok (unat (pagesz s)) (hp s) \<and>
     placed (unat (pagesz s)) (unat (heap_lo (hp s))) (unat (brk (hp s))) (blk g) \<and>
     separate (unat (pagesz s)) (blk g) \<and>
     lists_ok g (nextf s) (bytes (hp s)) \<and> headers_ok g (bytes (hp s))"

section \<open>Consequences\<close>

lemma wf_block:
  assumes "kwf os g s" and "blk g op = Some b"
  shows "b < 28" and "unat (heap_lo (hp s)) \<le> unat op" and "0 < unat op"
    and "unat op + extent (unat (pagesz s)) b \<le> unat (brk (hp s))"
    and "unat op + extent (unat (pagesz s)) b \<le> 2 ^ 47"
  using assms by (fastforce simp: kwf_def placed_def heap_ok_def)+

lemma wf_block_nonnull: "kwf os g s \<Longrightarrow> blk g op = Some b \<Longrightarrow> op \<noteq> 0"
  using wf_block(3) by fastforce

lemma wf_brk: "kwf os g s \<Longrightarrow> unat (brk (hp s)) \<le> 2 ^ 47"
  by (simp add: kwf_def heap_ok_def)

lemma wf_header_mapped:
  assumes "kwf os g s" and "blk g op = Some b"
  shows "mapped (hp s) op 8" and "mapped (hp s) op 1" and "mapped (hp s) (op + 1) 1"
proof -
  have "unat op + 8 \<le> unat (brk (hp s))" "unat (heap_lo (hp s)) \<le> unat op" "unat op + 8 \<le> 2 ^ 47"
    using wf_block [OF assms] extent_ge_8 [of "unat (pagesz s)" b] by linarith+
  moreover from this have "unat (op + 1) = unat op + 1"
    using unat_offset [of op 1] by simp
  ultimately show "mapped (hp s) op 8" "mapped (hp s) op 1" "mapped (hp s) (op + 1) 1"
    by (simp_all add: mapped_def)
qed

text \<open>No address belongs to two blocks.\<close>

lemma block_bytes_differ:
  assumes wf: "kwf os g s" and op: "blk g op = Some b" "blk g op' = Some b'" "op \<noteq> op'"
    and i: "i < extent (unat (pagesz s)) b" "j < extent (unat (pagesz s)) b'"
  shows "op + of_nat i \<noteq> op' + of_nat j"
proof
  assume eq: "op + of_nat i = op' + of_nat j"
  have "unat (op + of_nat i) = unat op + i"
    using wf_block(5) [OF wf op(1)] i(1) by (intro unat_offset) simp
  moreover have "unat (op' + of_nat j) = unat op' + j"
    using wf_block(5) [OF wf op(2)] i(2) by (intro unat_offset) simp
  moreover have "unat op + extent (unat (pagesz s)) b \<le> unat op' \<or>
      unat op' + extent (unat (pagesz s)) b' \<le> unat op"
    using wf op unfolding kwf_def separate_def by blast
  ultimately show False using eq i by auto
qed

lemma blocks_apart:
  assumes "kwf os g s" and "blk g op = Some b" and "blk g op' = Some b'" and "op \<noteq> op'"
  shows "apart op op'"
proof (rule apartI)
  show "unat op + 8 \<le> unat op' \<or> unat op' + 8 \<le> unat op"
    using assms extent_ge_8 [of "unat (pagesz s)"] unfolding kwf_def separate_def
    by (meson add_left_mono order_trans)
  show "unat op + 8 \<le> 2 ^ 64" "unat op' + 8 \<le> 2 ^ 64"
    using wf_block(5) [OF assms(1,2)] wf_block(5) [OF assms(1,3)]
      extent_ge_8 [of "unat (pagesz s)" b] extent_ge_8 [of "unat (pagesz s)" b'] by simp_all
qed

lemma wf_list:
  assumes "kwf os g s" and "b < NBUCKETS"
  obtains xs where "chain (ld64 (bytes (hp s))) (nextf s ! b) xs" and "set xs = free_of g b"
    and "distinct xs"
  using assms chain_distinct unfolding kwf_def lists_ok_def by metis

lemma wf_nextf_length: "kwf os g s \<Longrightarrow> length (nextf s) = NBUCKETS"
  by (simp add: kwf_def lists_ok_def)

lemma wf_nextf_at: "kwf os g s \<Longrightarrow> b < NBUCKETS \<Longrightarrow> nextf_at s b = Some (nextf s ! b)"
  by (simp add: nextf_at_def wf_nextf_length)

lemma wf_used_header:
  assumes "kwf os g s" and "op \<in> used g"
  obtains b where "blk g op = Some b" and "bytes (hp s) op = MAGIC"
    and "bytes (hp s) (op + 1) = of_nat b"
  using assms unfolding kwf_def headers_ok_def by blast

text \<open>
  Memory may change anywhere but in the headers of the blocks: a client writing to its blocks,
  \<open>memset\<close> and \<open>bcopy\<close> into them keep the invariant.
\<close>

lemma header_frame:
  assumes "kwf os g s"
    and same: "\<And>op b i. blk g op = Some b \<Longrightarrow> i < 8 \<Longrightarrow> m (op + of_nat i) = bytes (hp s) (op + of_nat i)"
  shows "lists_ok g (nextf s) m" and "headers_ok g m"
proof -
  have ld: "ld64 m op = ld64 (bytes (hp s)) op" if "blk g op = Some b" for op b
    using same [OF that] by (rule ld64_cong)
  show "lists_ok g (nextf s) m"
    unfolding lists_ok_def
  proof (intro conjI allI impI)
    show "length (nextf s) = NBUCKETS" using assms(1) by (rule wf_nextf_length)
    fix b assume "b < NBUCKETS"
    then obtain xs where "chain (ld64 (bytes (hp s))) (nextf s ! b) xs" "set xs = free_of g b"
      using wf_list [OF assms(1)] by metis
    moreover have "chain (ld64 m) (nextf s ! b) xs = chain (ld64 (bytes (hp s))) (nextf s ! b) xs"
      using \<open>set xs = free_of g b\<close> by (intro chain_cong ld) (auto simp: free_of_def)
    ultimately show "\<exists>xs. chain (ld64 m) (nextf s ! b) xs \<and> set xs = free_of g b" by auto
  qed
  have "m op = bytes (hp s) op" "m (op + 1) = bytes (hp s) (op + 1)" if "blk g op = Some b" for op b
    using same [OF that, of 0] same [OF that, of 1] by simp_all
  then show "headers_ok g m"
    using assms(1) unfolding kwf_def headers_ok_def by metis
qed

lemma wf_frame:
  assumes "kwf os g s" and "bytes h = m" and "heap_lo h = heap_lo (hp s)" and "brk h = brk (hp s)"
    and "\<And>op b i. blk g op = Some b \<Longrightarrow> i < 8 \<Longrightarrow> m (op + of_nat i) = bytes (hp s) (op + of_nat i)"
  shows "kwf os g (s\<lparr>hp := h\<rparr>)"
proof -
  have "lists_ok g (nextf s) m" and "headers_ok g m"
    using header_frame [OF assms(1), of m] assms(5) by blast+
  moreover have "paged os (s\<lparr>hp := h\<rparr>) = paged os s" by (simp add: paged_def)
  ultimately show ?thesis using assms(1-4) by (simp add: kwf_def heap_ok_def)
qed

end
