(* ===== verification/Kmalloc_Alloc.thy ===== *)
theory Kmalloc_Alloc
  imports Kmalloc_Inv
begin

text \<open>
  Allocation keeps the invariant: carving fresh memory into a free list, \<open>morecore\<close>, taking the
  head of a list, and \<open>kmalloc\<close> as a whole, with the abstract specification it refines.
\<close>

section \<open>Carving\<close>

text \<open>The headers of \<open>n\<close> consecutive blocks of \<open>sz\<close> bytes from \<open>op\<close> on.\<close>

primrec run :: "u64 \<Rightarrow> nat \<Rightarrow> nat \<Rightarrow> u64 list" where
  "run op sz 0 = []"
| "run op sz (Suc n) = op # run (op + of_nat sz) sz n"

lemma set_run: "set (run op sz n) = (\<lambda>i. op + of_nat (i * sz)) ` {..<n}"
proof (induction n arbitrary: op)
  case 0
  then show ?case by simp
next
  case (Suc n)
  have "{..<Suc n} = insert 0 (Suc ` {..<n})" by (auto simp: lessThan_Suc_eq_insert_0)
  then show ?case by (simp add: Suc.IH image_image algebra_simps)
qed

lemma run_offset:
  fixes op :: u64
  assumes "unat op + n * sz \<le> 2 ^ 47" and "i < n"
  shows "unat (op + of_nat (i * sz)) = unat op + i * sz"
proof (rule unat_offset)
  have "i * sz \<le> n * sz" using assms(2) by (intro mult_le_mono1) simp
  then have "unat op + i * sz \<le> 2 ^ 47" using assms(1) by linarith
  also have "\<dots> < (2 ^ 64 :: nat)" by simp
  finally show "unat op + i * sz < 2 ^ 64" .
qed

lemma hp_update_simps:
  "set_ov_next op v s = (if mapped (hp s) op 8
     then Some (s\<lparr>hp := (hp s)\<lparr>bytes := st64 (bytes (hp s)) op v\<rparr>\<rparr>) else None)"
  "set_ov_magic op x s = (if mapped (hp s) op 1
     then Some (s\<lparr>hp := (hp s)\<lparr>bytes := (bytes (hp s))(op := x)\<rparr>\<rparr>) else None)"
  "set_ov_index op x s = (if mapped (hp s) (op + 1) 1
     then Some (s\<lparr>hp := (hp s)\<lparr>bytes := (bytes (hp s))(op + 1 := x)\<rparr>\<rparr>) else None)"
  by (simp_all add: set_ov_next_def set_ov_magic_def set_ov_index_def wr64_def wr8_def)

lemma mapped_bytes [simp]: "mapped (h\<lparr>bytes := m\<rparr>) a n = mapped h a n"
  by (simp add: mapped_def)

lemma ld64_zero:
  assumes "\<And>x. unat a \<le> unat x \<Longrightarrow> unat x < unat a + 8 \<Longrightarrow> m x = 0" and "unat a + 8 \<le> 2 ^ 64"
  shows "ld64 m a = 0"
  unfolding ld64_def using assms by (intro ld_bytes_zero) (simp add: unat_offset)

text \<open>
  On fresh (zero) memory \<open>carve\<close> returns, writes only to the run and leaves it as a list from
  \<open>op\<close>.
\<close>

lemma carve_spec:
  assumes "unat nblks = Suc n" and "Suc n < 2 ^ 31" and "8 \<le> sz"
    and "unat (heap_lo (hp s)) \<le> unat op" and "0 < unat op"
    and "unat op + Suc n * sz \<le> unat (brk (hp s))" and "unat (brk (hp s)) \<le> 2 ^ 47"
    and "\<And>x. unat op \<le> unat x \<Longrightarrow> unat x < unat op + Suc n * sz \<Longrightarrow> bytes (hp s) x = 0"
  shows "\<exists>m. carve op (of_nat sz) nblks s = Some (s\<lparr>hp := (hp s)\<lparr>bytes := m\<rparr>\<rparr>) \<and>
    chain (ld64 m) op (run op sz (Suc n)) \<and>
    (\<forall>x. unat x < unat op \<longrightarrow> m x = bytes (hp s) x)"
  using assms
proof (induction n arbitrary: op nblks s)
  case 0
  have "nblks = 1" using 0(1) by (intro unat_eqI) simp
  then have "carve op (of_nat sz) nblks s = Some (s\<lparr>hp := (hp s)\<lparr>bytes := bytes (hp s)\<rparr>\<rparr>)"
    by (subst carve.simps) simp
  moreover have "ld64 (bytes (hp s)) op = 0"
    using 0 by (intro ld64_zero) auto
  moreover have "op \<noteq> 0" using 0(5) by auto
  ultimately show ?case by (intro exI [of _ "bytes (hp s)"]) simp
next
  case (Suc n)
  let ?op = "op + of_nat sz"
  let ?m = "st64 (bytes (hp s)) op ?op"
  let ?s = "s\<lparr>hp := (hp s)\<lparr>bytes := ?m\<rparr>\<rparr>"
  have size: "unat op + sz + Suc n * sz \<le> unat (brk (hp s))" using Suc.prems(6) by simp
  then have unat_op: "unat ?op = unat op + sz"
    using Suc.prems(7) by (intro unat_offset) simp
  have nz: "nblks \<noteq> 0" using Suc.prems(1) by auto
  then have n1: "unat (nblks - 1) = Suc n" using Suc.prems(1) by (simp add: unat_minus_one)
  then have pos: "0 <s nblks - 1" using Suc.prems(2) by (subst sless_unat32) simp_all
  have map: "mapped (hp s) op 8"
    using size Suc.prems(3,4) by (simp add: mapped_def)
  have step: "carve op (of_nat sz) nblks s = carve ?op (of_nat sz) (nblks - 1) ?s"
    using pos map by (subst carve.simps) (simp add: hp_update_simps)
  have "\<exists>m. carve ?op (of_nat sz) (nblks - 1) ?s = Some (?s\<lparr>hp := (hp ?s)\<lparr>bytes := m\<rparr>\<rparr>) \<and>
    chain (ld64 m) ?op (run ?op sz (Suc n)) \<and>
    (\<forall>x. unat x < unat ?op \<longrightarrow> m x = bytes (hp ?s) x)"
  proof (rule Suc.IH)
    fix x :: u64 assume "unat ?op \<le> unat x" "unat x < unat ?op + Suc n * sz"
    then show "bytes (hp ?s) x = 0"
      using Suc.prems(3) Suc.prems(8) [of x] unat_op by (simp add: st64_above)
  qed (use Suc.prems(2,3,4,5,7) n1 size unat_op in simp_all)
  then obtain m where m: "carve ?op (of_nat sz) (nblks - 1) ?s = Some (?s\<lparr>hp := (hp ?s)\<lparr>bytes := m\<rparr>\<rparr>)"
    "chain (ld64 m) ?op (run ?op sz (Suc n))" "\<forall>x. unat x < unat ?op \<longrightarrow> m x = ?m x"
    by auto
  have "ld64 m op = ld64 ?m op"
    using m(3) unat_op Suc.prems(3,7) size by (intro ld64_cong) (simp add: unat_offset)
  then have "ld64 m op = ?op" by (simp add: ld64_st64_same)
  moreover have "op \<noteq> 0" using Suc.prems(5) by auto
  moreover have "\<forall>x. unat x < unat op \<longrightarrow> m x = bytes (hp s) x"
    using m(3) unat_op size Suc.prems(7) by (simp add: st64_below)
  ultimately show ?case using step m by (intro exI [of _ m]) simp
qed


section \<open>morecore\<close>

text \<open>How many blocks one call of \<open>morecore\<close> makes, and the ghost state with them.\<close>

definition nblks_of :: "nat \<Rightarrow> nat \<Rightarrow> nat" where
  "nblks_of pg b = (if 2 ^ (b + 3) < pg then pg div 2 ^ (b + 3) else 1)"

definition grow :: "nat \<Rightarrow> nat \<Rightarrow> u64 \<Rightarrow> ghost \<Rightarrow> ghost" where
  "grow pg b op g = g\<lparr>blk := (\<lambda>x. if x \<in> set (run op (2 ^ (b + 3)) (nblks_of pg b)) then Some b
                                 else blk g x)\<rparr>"

lemma nblks_pos: "pg = 2 ^ k \<Longrightarrow> \<exists>n. nblks_of pg b = Suc n"
proof -
  assume pg: "pg = 2 ^ k"
  have "nblks_of pg b \<noteq> 0"
    using pg by (simp add: nblks_of_def div_greater_zero_iff)
  then show ?thesis by (cases "nblks_of pg b") auto
qed

text \<open>The blocks of one call fill what \<open>sbrk\<close> is asked for.\<close>

lemma nblks_fill:
  assumes "pg = 2 ^ k"
  shows "nblks_of pg b * 2 ^ (b + 3) \<le> (if 2 ^ (b + 3) < pg then pg else 2 ^ (b + 3) + pg)"
    and "i < nblks_of pg b \<Longrightarrow>
      i * 2 ^ (b + 3) + extent pg b \<le> (if 2 ^ (b + 3) < pg then pg else 2 ^ (b + 3) + pg)"
proof -
  show fill: "nblks_of pg b * 2 ^ (b + 3) \<le> (if 2 ^ (b + 3) < pg then pg else 2 ^ (b + 3) + pg)"
    by (simp add: nblks_of_def)
  show "i * 2 ^ (b + 3) + extent pg b \<le> (if 2 ^ (b + 3) < pg then pg else 2 ^ (b + 3) + pg)"
    if i: "i < nblks_of pg b"
  proof (cases "2 ^ (b + 3) < pg")
    case True
    have "Suc i * 2 ^ (b + 3) \<le> nblks_of pg b * 2 ^ (b + 3)"
      using i by (intro mult_le_mono1) simp
    then show ?thesis using True fill by (simp add: extent_def)
  next
    case False
    then show ?thesis using i by (simp add: nblks_of_def extent_def)
  qed
qed


text \<open>The request \<open>morecore\<close> makes, in numbers.\<close>

definition amount :: "nat \<Rightarrow> nat \<Rightarrow> nat" where
  "amount pg b = (if 2 ^ (b + 3) < pg then pg else 2 ^ (b + 3) + pg)"

lemma int_to_long_of_nat:
  assumes "unat x < 2 ^ 31"
  shows "int_to_long x = of_nat (unat x)"
  using assms by (intro unat_eqI) (simp add: unat_int_to_long unat_of_nat take_bit_nat_eq_self)

lemma int_shl1_value:
  assumes "n < 31"
  shows "int_shl1 n = Some (of_nat (2 ^ n))" and "unat (of_nat (2 ^ n) :: u32) = 2 ^ n"
    and "int_to_long (of_nat (2 ^ n)) = of_nat (2 ^ n)"
proof -
  have lt: "(2::nat) ^ n < 2 ^ 31" using assms by (intro power_strict_increasing) simp_all
  show "int_shl1 n = Some (of_nat (2 ^ n))" using assms by (simp add: int_shl1_def push_bit_eq_mult)
  show u: "unat (of_nat (2 ^ n) :: u32) = 2 ^ n"
    using lt by (simp add: unat_of_nat take_bit_nat_eq_self del: of_nat_power)
  show "int_to_long (of_nat (2 ^ n)) = of_nat (2 ^ n)"
    using lt by (subst int_to_long_of_nat) (simp_all only: u)
qed

lemma paged_page:
  assumes "paged os s"
  obtains k where "4 \<le> k" and "k \<le> 30" and "unat (pagesz s) = 2 ^ k"
    and "int_to_long (pagesz s) = of_nat (unat (pagesz s))" and "unat (pagesz s) \<le> 2 ^ 30"
    and "16 \<le> unat (pagesz s)"
proof -
  obtain k where k: "4 \<le> k" "k \<le> 30" "unat (pagesz s) = 2 ^ k"
    using assms by (auto simp: paged_def)
  then have "unat (pagesz s) \<le> 2 ^ 30" "2 ^ 4 \<le> unat (pagesz s)"
    by (simp_all only: power_increasing_iff one_less_numeral_iff semiring_norm)
  with k show ?thesis by (intro that int_to_long_of_nat) simp_all
qed

lemma ucast_div_of_nat:
  assumes "m < 2 ^ 31" and "0 < n" and "n < 2 ^ 31"
  shows "(ucast (of_nat m div of_nat n :: u64) :: u32) = of_nat (m div n)"
proof (rule unat_eqI)
  have "m div n < 2 ^ 31" using assms(1) by (rule le_less_trans [OF div_le_dividend])
  moreover have "unat (of_nat m div of_nat n :: u64) = m div n"
    using assms by (simp add: unat_div unat_of_nat64)
  ultimately show "unat (ucast (of_nat m div of_nat n :: u64) :: u32) = unat (of_nat (m div n) :: u32)"
    by (simp add: unsigned_ucast_eq take_bit_nat_eq_self unat_of_nat32)
qed

lemma morecore_eq:
  assumes bt: "paged os s" and b: "b < 28"
  shows "morecore os (of_nat b) s =
    (let (op, h) = sbrk os (of_nat (amount (unat (pagesz s)) b)) (hp s); s1 = s\<lparr>hp := h\<rparr>
     in if op = - 1 then Some s1
        else do {
          s2 \<leftarrow> set_nextf b op s1;
          carve op (of_nat (2 ^ (b + 3))) (of_nat (nblks_of (unat (pagesz s)) b)) s2
        })"
proof -
  obtain k where k: "unat (pagesz s) = 2 ^ k" "unat (pagesz s) \<le> 2 ^ 30" "16 \<le> unat (pagesz s)"
    "int_to_long (pagesz s) = of_nat (unat (pagesz s))"
    using paged_page [OF bt] by metis
  let ?pg = "unat (pagesz s)" and ?sz = "of_nat (2 ^ (b + 3)) :: u64"
  have lt: "(2::nat) ^ (b + 3) < 2 ^ 31" using b by (intro power_strict_increasing) simp_all
  have bucket: "unat (of_nat b + 3 :: u32) = b + 3" "unat (of_nat b :: u32) = b"
    using b by (simp_all add: unat_word_ariths unat_of_nat32)
  have u: "unat ?sz = 2 ^ (b + 3)" "unat (of_nat ?pg :: u64) = ?pg"
    using lt k(2) by (intro unat_of_nat64; simp)+
  have pos: "\<not> ?sz \<le>s 0" using u(1) lt by (subst sle_unat64) simp_all
  have cmp: "?sz <s of_nat ?pg \<longleftrightarrow> 2 ^ (b + 3) < ?pg"
    using u lt k(2) by (subst sless_unat64) simp_all
  have div: "ucast (of_nat ?pg div ?sz) = (of_nat (?pg div 2 ^ (b + 3)) :: u32)"
    using lt k(2) by (intro ucast_div_of_nat) simp_all
  have sum: "?sz + of_nat ?pg = of_nat (2 ^ (b + 3) + ?pg)" by simp
  show ?thesis
    using b pos cmp div sum
    by (cases "2 ^ (b + 3) < ?pg")
      (simp_all add: morecore_def bucket int_shl1_value k(4) nblks_of_def amount_def
        Let_def split: prod.split del: of_nat_power of_nat_add)
qed


section \<open>Growing the heap\<close>

lemma run_in:
  assumes "unat op + nblks_of pg b * 2 ^ (b + 3) \<le> 2 ^ 47"
    and "x \<in> set (run op (2 ^ (b + 3)) (nblks_of pg b))"
  obtains i where "i < nblks_of pg b" and "x = op + of_nat (i * 2 ^ (b + 3))"
    and "unat x = unat op + i * 2 ^ (b + 3)"
proof -
  obtain i where i: "i < nblks_of pg b" "x = op + of_nat (i * 2 ^ (b + 3))"
    using assms(2) unfolding set_run by blast
  then show ?thesis using run_offset [OF assms(1) i(1)] by (intro that) (simp_all only:)
qed

text \<open>The facts on the old heap and the new range that the following lemmas share.\<close>

definition growable :: "nat \<Rightarrow> nat \<Rightarrow> nat \<Rightarrow> u64 \<Rightarrow> ghost \<Rightarrow> bool" where
  "growable pg b lo op g \<longleftrightarrow> (\<exists>k. pg = 2 ^ k) \<and> b < 28 \<and>
     lo \<le> unat op \<and> unat op + amount pg b \<le> 2 ^ 47 \<and> (unat op + 8) mod pg = 0 \<and>
     placed pg lo (unat op) (blk g) \<and> separate pg (blk g)"

lemma growable_run:
  assumes "growable pg b lo op g" and "x \<in> set (run op (2 ^ (b + 3)) (nblks_of pg b))"
  obtains i where "i < nblks_of pg b" and "unat x = unat op + i * 2 ^ (b + 3)"
    and "unat x + extent pg b \<le> unat op + amount pg b" and "unat op \<le> unat x"
proof -
  obtain k where pg: "pg = 2 ^ k" using assms(1) by (auto simp: growable_def)
  have "unat op + nblks_of pg b * 2 ^ (b + 3) \<le> 2 ^ 47"
    using assms(1) nblks_fill(1) [OF pg, of b] by (auto simp: growable_def amount_def)
  then obtain i where i: "i < nblks_of pg b" "unat x = unat op + i * 2 ^ (b + 3)"
    using run_in assms(2) by metis
  then show ?thesis
    using nblks_fill(2) [OF pg i(1)] by (intro that) (simp_all add: amount_def)
qed

lemma growable_old:
  assumes "growable pg b lo op g" and "blk g x = Some c"
  shows "unat x + extent pg c \<le> unat op" and "unat x < unat op"
    and "x \<notin> set (run op (2 ^ (b + 3)) (nblks_of pg b))"
proof -
  show old: "unat x + extent pg c \<le> unat op"
    using assms unfolding growable_def placed_def by blast
  then show lt: "unat x < unat op" using extent_ge_8 [of pg c] by linarith
  show "x \<notin> set (run op (2 ^ (b + 3)) (nblks_of pg b))"
    using lt growable_run [OF assms(1)] by (metis leD)
qed

lemma run_aligned:
  assumes "pg = 2 ^ k" and "(a + 8) mod pg = 0" and "i < nblks_of pg b"
  shows "(a + i * 2 ^ (b + 3) + 8) mod min (2 ^ (b + 3)) pg = 0"
proof (cases "2 ^ (b + 3) < pg")
  case True
  then have "(2::nat) ^ (b + 3) dvd pg" using assms(1) by (simp add: le_imp_power_dvd)
  with assms(2) have "(2::nat) ^ (b + 3) dvd a + 8"
    by (meson dvd_trans mod_eq_0_iff_dvd)
  then have "(2::nat) ^ (b + 3) dvd (a + 8) + i * 2 ^ (b + 3)" by simp
  then show ?thesis using True by (simp add: min_def add_ac)
next
  case False
  then have "i = 0" using assms(3) by (simp add: nblks_of_def)
  then show ?thesis using False assms(2) by (simp add: min_def)
qed

lemma grow_placed:
  assumes "growable pg b lo op g"
  shows "placed pg lo (unat op + amount pg b) (blk (grow pg b op g))"
  unfolding placed_def
proof (intro allI impI)
  fix x c assume x: "blk (grow pg b op g) x = Some c"
  obtain k where k: "pg = 2 ^ k" using assms by (auto simp: growable_def)
  show "c < 28 \<and> lo \<le> unat x \<and> unat x + extent pg c \<le> unat op + amount pg b \<and>
        (unat x + 8) mod min (2 ^ (c + 3)) pg = 0"
  proof (cases "x \<in> set (run op (2 ^ (b + 3)) (nblks_of pg b))")
    case True
    then have "c = b" using x by (simp add: grow_def)
    with True show ?thesis
      using growable_run [OF assms True] run_aligned [OF k] assms
      unfolding growable_def by (metis order_trans)
  next
    case False
    then have "blk g x = Some c" using x by (simp add: grow_def)
    then show ?thesis using assms unfolding growable_def placed_def by (metis trans_le_add1)
  qed
qed

lemma run_disjoint:
  assumes "pg = 2 ^ k" and "i < j" and "j < nblks_of pg b"
  shows "a + i * 2 ^ (b + 3) + extent pg b \<le> a + j * (2 ^ (b + 3))"
proof -
  have "2 ^ (b + 3) < pg" using assms by (auto simp: nblks_of_def split: if_splits)
  moreover have "Suc i * 2 ^ (b + 3) \<le> j * 2 ^ (b + 3)"
    using assms(2) by (intro mult_le_mono1) simp
  ultimately show ?thesis by (simp add: extent_def)
qed

lemma grow_separate:
  assumes g: "growable pg b lo op g"
  shows "separate pg (blk (grow pg b op g))"
  unfolding separate_def
proof (intro allI impI, elim conjE)
  fix x c y d
  assume x: "blk (grow pg b op g) x = Some c" and y: "blk (grow pg b op g) y = Some d" and "x \<noteq> y"
  let ?R = "set (run op (2 ^ (b + 3)) (nblks_of pg b))"
  obtain k where k: "pg = 2 ^ k" using g by (auto simp: growable_def)
  consider "x \<in> ?R" "y \<in> ?R" | "x \<in> ?R" "y \<notin> ?R" | "x \<notin> ?R" "y \<in> ?R" | "x \<notin> ?R" "y \<notin> ?R"
    by blast
  then show "unat x + extent pg c \<le> unat y \<or> unat y + extent pg d \<le> unat x"
  proof cases
    case 1
    obtain i where i: "i < nblks_of pg b" "unat x = unat op + i * 2 ^ (b + 3)"
      using growable_run [OF g 1(1)] by metis
    obtain j where j: "j < nblks_of pg b" "unat y = unat op + j * 2 ^ (b + 3)"
      using growable_run [OF g 1(2)] by metis
    have "i \<noteq> j" using \<open>x \<noteq> y\<close> i(2) j(2) by (auto intro: unat_eqI)
    moreover have "c = b" "d = b" using x y 1 by (simp_all add: grow_def)
    ultimately show ?thesis
      using run_disjoint [OF k _ i(1), of j "unat op"] run_disjoint [OF k _ j(1), of i "unat op"] i j
      by (cases "i < j") auto
  next
    case 2
    then have "blk g y = Some d" using y by (simp add: grow_def)
    then have "unat y + extent pg d \<le> unat op" by (rule growable_old(1) [OF g])
    then show ?thesis using growable_run [OF g 2(1)] by (metis order_trans)
  next
    case 3
    then have "blk g x = Some c" using x by (simp add: grow_def)
    then have "unat x + extent pg c \<le> unat op" by (rule growable_old(1) [OF g])
    then show ?thesis using growable_run [OF g 3(2)] by (metis order_trans)
  next
    case 4
    then show ?thesis using x y \<open>x \<noteq> y\<close> g by (simp add: grow_def growable_def separate_def)
  qed
qed


text \<open>Memory after growing: the old headers are as before and the run is a list.\<close>

lemma grow_lists:
  assumes g: "growable pg b lo op g" and lists: "lists_ok g nf m0" and hd: "headers_ok g m0"
    and empty: "nf ! b = 0"
    and m: "chain (ld64 m) op (run op (2 ^ (b + 3)) (nblks_of pg b))"
    and same: "\<And>x. unat x < unat op \<Longrightarrow> m x = m0 x"
  shows "lists_ok (grow pg b op g) (nf[b := op]) m" and "headers_ok (grow pg b op g) m"
proof -
  let ?R = "set (run op (2 ^ (b + 3)) (nblks_of pg b))"
  have low: "m (x + of_nat i) = m0 (x + of_nat i)" if "blk g x = Some c" "i < 8" for x c i
  proof -
    have "unat (x + of_nat i) < unat op"
      using growable_old(1,2) [OF g that(1)] extent_ge_8 [of pg c] that(2) unat_lt64 [of op]
      by (subst unat_offset) simp_all
    then show ?thesis by (rule same)
  qed
  have ld: "ld64 m x = ld64 m0 x" if "blk g x = Some c" for x c
    using low [OF that] by (rule ld64_cong)
  have "blk g x \<noteq> None" if "x \<in> used g" for x
    using hd that by (auto simp: headers_ok_def)
  then have unused: "x \<notin> used g" if "x \<in> ?R" for x
    using that growable_old(3) [OF g] by blast
  have "b < NBUCKETS" using g by (simp add: growable_def NBUCKETS_def)
  then obtain ys where "chain (ld64 m0) (nf ! b) ys" "set ys = free_of g b"
    using lists by (auto simp: lists_ok_def)
  then have freeR: "free_of g b = {}" using empty by simp
  have free: "free_of (grow pg b op g) c = (if c = b then ?R else free_of g c)" for c
    using unused freeR growable_old(3) [OF g] by (auto simp: free_of_def grow_def)
  show "lists_ok (grow pg b op g) (nf[b := op]) m"
    unfolding lists_ok_def
  proof (intro conjI allI impI)
    show "length (nf[b := op]) = NBUCKETS" using lists by (simp add: lists_ok_def)
    fix c assume c: "c < NBUCKETS"
    then obtain xs where xs: "chain (ld64 m0) (nf ! c) xs" "set xs = free_of g c"
      using lists by (auto simp: lists_ok_def)
    have "chain (ld64 m) (nf ! c) xs = chain (ld64 m0) (nf ! c) xs"
      using xs(2) by (intro chain_cong ld) (auto simp: free_of_def)
    then show "\<exists>xs. chain (ld64 m) (nf[b := op] ! c) xs \<and> set xs = free_of (grow pg b op g) c"
      using xs m c lists by (cases "c = b") (auto simp: free lists_ok_def)
  qed
  show "headers_ok (grow pg b op g) m"
    unfolding headers_ok_def
  proof
    fix x assume "x \<in> used (grow pg b op g)"
    then have x: "x \<in> used g" by (simp add: grow_def)
    then obtain c where c: "blk g x = Some c" "m0 x = MAGIC" "m0 (x + 1) = of_nat c"
      using hd by (auto simp: headers_ok_def)
    then have "m x = MAGIC" "m (x + 1) = of_nat c"
      using low [OF c(1), of 0] low [OF c(1), of 1] by simp_all
    moreover have "blk (grow pg b op g) x = Some c"
      using c(1) growable_old(3) [OF g c(1)] by (simp add: grow_def)
    ultimately show "\<exists>c. blk (grow pg b op g) x = Some c \<and> m x = MAGIC \<and> m (x + 1) = of_nat c"
      by blast
  qed
qed

section \<open>sbrk and morecore\<close>

lemma sbrk_refused:
  assumes "n \<noteq> 0" and "\<not> grants os (calls h) (brk h) n"
  shows "sbrk os n h = (- 1, h\<lparr>calls := Suc (calls h)\<rparr>)"
  using assms by (simp add: sbrk_def)

lemma sbrk_granted:
  assumes "os_ok os" and "grants os (calls h) (brk h) (of_nat n)" and "0 < n" and "n < 2 ^ 63"
  defines "m \<equiv> fill (bytes h) (brk h) 0 (of_nat n)"
  shows "sbrk os (of_nat n) h =
      (brk h, h\<lparr>brk := brk h + of_nat n, calls := Suc (calls h), bytes := m\<rparr>)"
    and "unat (brk h) + n \<le> 2 ^ 47" and "unat (brk h + of_nat n) = unat (brk h) + n"
    and "unat x < unat (brk h) \<Longrightarrow> m x = bytes h x"
    and "unat (brk h) \<le> unat x \<Longrightarrow> unat x < unat (brk h) + n \<Longrightarrow> m x = 0"
proof -
  have n: "unat (of_nat n :: u64) = n" using assms(4) by (simp add: unat_of_nat64)
  show top: "unat (brk h) + n \<le> 2 ^ 47"
    using assms(1,2) n unfolding os_ok_def by metis
  then show "unat (brk h + of_nat n) = unat (brk h) + n" by (intro unat_offset) simp
  have "0 <s (of_nat n :: u64)" using n assms(3,4) by (subst sless_unat64) simp_all
  moreover have "(of_nat n :: u64) \<noteq> 0" using n assms(3) by auto
  ultimately show "sbrk os (of_nat n) h =
      (brk h, h\<lparr>brk := brk h + of_nat n, calls := Suc (calls h), bytes := m\<rparr>)"
    using assms(2) by (simp add: sbrk_def m_def)
  show "m x = bytes h x" if "unat x < unat (brk h)"
    using that n top unfolding m_def fill_def by (simp add: unat_sub_wrap) linarith
  show "m x = 0" if "unat (brk h) \<le> unat x" "unat x < unat (brk h) + n"
  proof -
    have "unat x - unat (brk h) < n" using that by linarith
    then show ?thesis using that n unfolding m_def fill_def by (simp add: unat_sub_nowrap)
  qed
qed


text \<open>
  What \<open>morecore\<close> achieves in a well-formed state whose list \<open>b\<close> is empty: it always returns;
  the old memory is untouched; either nothing was gained or the list holds the new blocks.
\<close>

lemma morecore_28: "morecore os (of_nat 28) s = Some s"
proof -
  have "int_shl1 (unat (of_nat 28 + 3 :: u32)) = Some (of_nat (2 ^ 31))"
    by (simp add: int_shl1_def)
  moreover have "int_to_long (of_nat (2 ^ 31)) \<le>s 0" by (simp add: word_sle_eq)
  ultimately show ?thesis by (simp add: morecore_def)
qed

lemma page_dvd_amount:
  assumes "pg = 2 ^ k"
  shows "pg dvd amount pg b"
proof (cases "2 ^ (b + 3) < pg")
  case False
  then have "k \<le> b + 3" using assms by (simp add: not_less)
  then have "pg dvd 2 ^ (b + 3)" using assms by (simp add: le_imp_power_dvd)
  then show ?thesis using False by (simp add: amount_def)
qed (simp add: amount_def)

definition same_vars :: "kstate \<Rightarrow> kstate \<Rightarrow> bool" where
  "same_vars s s' \<longleftrightarrow> pagesz s' = pagesz s \<and> pagebucket s' = pagebucket s \<and>
     realloc_srchlen s' = realloc_srchlen s"

definition mem_extends :: "kstate \<Rightarrow> kstate \<Rightarrow> bool" where
  "mem_extends s s' \<longleftrightarrow> unat (brk (hp s)) \<le> unat (brk (hp s')) \<and> heap_lo (hp s') = heap_lo (hp s) \<and>
     (\<forall>x. unat x < unat (brk (hp s)) \<longrightarrow> bytes (hp s') x = bytes (hp s) x)"

lemma wf_calls: "kwf os g s \<Longrightarrow> kwf os g (s\<lparr>hp := (hp s)\<lparr>calls := c\<rparr>\<rparr>)"
  by (auto simp: kwf_def paged_def heap_ok_def)

lemma amount_range:
  assumes "paged os s" and "b < 28"
  shows "0 < amount (unat (pagesz s)) b" and "amount (unat (pagesz s)) b < 2 ^ 63"
proof -
  have "unat (pagesz s) \<le> 2 ^ 30" "16 \<le> unat (pagesz s)" using paged_page [OF assms(1)] by metis+
  moreover have "(2::nat) ^ (b + 3) \<le> 2 ^ 30" using assms(2) by (intro power_increasing) simp_all
  ultimately show "0 < amount (unat (pagesz s)) b" "amount (unat (pagesz s)) b < 2 ^ 63"
    by (simp_all add: amount_def)
qed

lemma morecore_refused_wf:
  assumes wf: "kwf os g s" and b: "b < 28"
    and no: "\<not> grants os (calls (hp s)) (brk (hp s)) (of_nat (amount (unat (pagesz s)) b))"
  shows "\<exists>s'. morecore os (of_nat b) s = Some s' \<and> kwf os g s' \<and> mem_extends s s' \<and> same_vars s s' \<and>
    nextf s' = nextf s"
proof -
  have bt: "paged os s" using wf by (simp add: kwf_def)
  let ?A = "amount (unat (pagesz s)) b" and ?s' = "s\<lparr>hp := (hp s)\<lparr>calls := Suc (calls (hp s))\<rparr>\<rparr>"
  have "unat (of_nat ?A :: u64) = ?A" using amount_range(2) [OF bt b] by (intro unat_of_nat64) simp
  then have "(of_nat ?A :: u64) \<noteq> 0" using amount_range(1) [OF bt b] by (intro notI) simp
  then have "morecore os (of_nat b) s = Some ?s'"
    using no by (simp add: morecore_eq [OF bt b] sbrk_refused)
  moreover have "mem_extends s ?s'" by (simp add: mem_extends_def)
  ultimately show ?thesis using wf_calls [OF wf] by (intro exI [of _ ?s']) (simp add: same_vars_def)
qed

text \<open>The heap and the list heads after a granted call: \<open>m\<close> is the memory with the blocks linked.\<close>

definition grown :: "kstate \<Rightarrow> nat \<Rightarrow> bytes \<Rightarrow> kstate" where
  "grown s b m = s\<lparr>hp := (hp s)\<lparr>brk := brk (hp s) + of_nat (amount (unat (pagesz s)) b),
     calls := Suc (calls (hp s)), bytes := m\<rparr>, nextf := (nextf s)[b := brk (hp s)]\<rparr>"

lemma grown_bytes: "(grown s b m)\<lparr>hp := (hp (grown s b m))\<lparr>bytes := m'\<rparr>\<rparr> = grown s b m'"
  by (cases s) (simp add: grown_def)

lemma grown_parts:
  "brk (hp (grown s b m)) = brk (hp s) + of_nat (amount (unat (pagesz s)) b)"
  "heap_lo (hp (grown s b m)) = heap_lo (hp s)" "bytes (hp (grown s b m)) = m"
  "nextf (grown s b m) = (nextf s)[b := brk (hp s)]" "pagesz (grown s b m) = pagesz s"
  by (simp_all add: grown_def)

lemma morecore_granted:
  assumes wf: "kwf os g s" and ok: "os_ok os" and b: "b < 28"
    and yes: "grants os (calls (hp s)) (brk (hp s)) (of_nat (amount (unat (pagesz s)) b))"
  obtains m where "morecore os (of_nat b) s = Some (grown s b m)"
    and "chain (ld64 m) (brk (hp s)) (run (brk (hp s)) (2 ^ (b + 3)) (nblks_of (unat (pagesz s)) b))"
    and "\<And>x. unat x < unat (brk (hp s)) \<Longrightarrow> m x = bytes (hp s) x"
proof -
  have bt: "paged os s" using wf by (simp add: kwf_def)
  let ?pg = "unat (pagesz s)" and ?h = "hp s" and ?op = "brk (hp s)"
  let ?A = "amount ?pg b" and ?m0 = "fill (bytes ?h) ?op 0 (of_nat (amount ?pg b))"
  obtain k where k: "?pg = 2 ^ k" "?pg \<le> 2 ^ 30" using paged_page [OF bt] by metis
  note sb = sbrk_granted [OF ok yes amount_range [OF bt b]]
  have len: "b < length (nextf s)" using b wf_nextf_length [OF wf] by (simp add: NBUCKETS_def)
  have "?op \<noteq> - 1" using wf_brk [OF wf] unat_minus1_u64 by auto
  then have more: "morecore os (of_nat b) s =
      carve ?op (of_nat (2 ^ (b + 3))) (of_nat (nblks_of ?pg b)) (grown s b ?m0)"
    using sb(1) len by (simp add: morecore_eq [OF bt b] set_nextf_def grown_def)
  obtain n where n: "nblks_of ?pg b = Suc n" using nblks_pos [OF k(1)] by blast
  have fill: "unat ?op + Suc n * 2 ^ (b + 3) \<le> unat ?op + ?A"
    using nblks_fill(1) [OF k(1), of b] n by (simp add: amount_def)
  have "?pg div 2 ^ (b + 3) \<le> 2 ^ 30" using k(2) by (rule order_trans [OF div_le_dividend])
  then have "Suc n \<le> 2 ^ 30" unfolding n [symmetric] nblks_of_def by simp
  then have un: "unat (of_nat (nblks_of ?pg b) :: u32) = Suc n" "Suc n < 2 ^ 31"
    by (simp_all add: n unat_of_nat32 del: of_nat_Suc)
  have heap: "0 < unat (heap_lo ?h)" "unat (heap_lo ?h) \<le> unat ?op"
    using wf by (simp_all add: kwf_def heap_ok_def)
  let ?s2 = "grown s b ?m0"
  have "\<exists>m. carve ?op (of_nat (2 ^ (b + 3))) (of_nat (nblks_of ?pg b)) ?s2 =
      Some (?s2\<lparr>hp := (hp ?s2)\<lparr>bytes := m\<rparr>\<rparr>) \<and>
      chain (ld64 m) ?op (run ?op (2 ^ (b + 3)) (Suc n)) \<and>
      (\<forall>x. unat x < unat ?op \<longrightarrow> m x = bytes (hp ?s2) x)"
  proof (rule carve_spec)
    fix x :: u64 assume "unat ?op \<le> unat x" "unat x < unat ?op + Suc n * 2 ^ (b + 3)"
    then show "bytes (hp ?s2) x = 0" using sb(5) fill by (simp add: grown_parts)
  qed (use un heap fill sb(2,3) pow_ge_8 [of b] in \<open>simp_all add: grown_parts\<close>)
  then obtain m where "morecore os (of_nat b) s = Some (grown s b m)"
      "chain (ld64 m) ?op (run ?op (2 ^ (b + 3)) (nblks_of ?pg b))" "\<And>x. unat x < unat ?op \<Longrightarrow> m x = ?m0 x"
    unfolding more n grown_bytes grown_parts by blast
  then show ?thesis using that [of m] sb(4) by simp
qed

lemma morecore_granted_wf:
  assumes wf: "kwf os g s" and ok: "os_ok os" and b: "b < 28" and empty: "nextf s ! b = 0"
    and yes: "grants os (calls (hp s)) (brk (hp s)) (of_nat (amount (unat (pagesz s)) b))"
  shows "\<exists>g' s'. morecore os (of_nat b) s = Some s' \<and> kwf os g' s' \<and> used g' = used g \<and>
    blk g \<subseteq>\<^sub>m blk g' \<and> mem_extends s s' \<and> same_vars s s' \<and> nextf s' ! b \<noteq> 0"
proof -
  have bt: "paged os s" using wf by (simp add: kwf_def)
  let ?pg = "unat (pagesz s)" and ?op = "brk (hp s)"
  obtain k where k: "?pg = 2 ^ k" using paged_page [OF bt] by metis
  note sb = sbrk_granted [OF ok yes amount_range [OF bt b]]
  obtain m where m: "morecore os (of_nat b) s = Some (grown s b m)"
      "chain (ld64 m) ?op (run ?op (2 ^ (b + 3)) (nblks_of ?pg b))"
      "\<And>x. unat x < unat ?op \<Longrightarrow> m x = bytes (hp s) x"
    using morecore_granted [OF wf ok b yes] by blast
  let ?s' = "grown s b m" and ?g' = "grow ?pg b ?op g"
  have top: "unat (brk (hp ?s')) = unat ?op + amount ?pg b" using sb(3) by (simp add: grown_parts)
  note parts = grown_parts(2-) [of s b m] top
  have gr: "growable ?pg b (unat (heap_lo (hp s))) ?op g"
    using wf sb(2) k b by (auto simp: growable_def kwf_def heap_ok_def)
  have len: "b < length (nextf s)" using b wf_nextf_length [OF wf] by (simp add: NBUCKETS_def)
  have heap: "0 < unat (heap_lo (hp s))" "unat (heap_lo (hp s)) \<le> unat ?op"
    using wf by (simp_all add: kwf_def heap_ok_def)
  have lists: "lists_ok g (nextf s) (bytes (hp s))" "headers_ok g (bytes (hp s))"
    using wf by (simp_all add: kwf_def)
  have "?pg dvd unat ?op + 8" using wf by (auto simp: kwf_def heap_ok_def)
  then have "?pg dvd (unat ?op + 8) + amount ?pg b" using page_dvd_amount [OF k] by (rule dvd_add)
  then have "(unat ?op + amount ?pg b + 8) mod ?pg = 0" by (simp add: add_ac)
  then have "heap_ok ?pg (hp ?s')" using heap sb(2) parts by (simp add: heap_ok_def)
  moreover have "paged os ?s'" using bt by (auto simp: paged_def grown_def)
  ultimately have "kwf os ?g' ?s'"
    using grow_placed [OF gr] grow_separate [OF gr] grow_lists [OF gr lists empty m(2,3)] parts
    by (simp add: kwf_def)
  moreover have "blk g \<subseteq>\<^sub>m blk ?g'" using growable_old(3) [OF gr] by (auto simp: map_le_def grow_def)
  moreover have "mem_extends s ?s'" using m(3) parts by (simp add: mem_extends_def)
  moreover have "used ?g' = used g" by (simp add: grow_def)
  moreover have "nextf ?s' ! b \<noteq> 0" using len heap by (auto simp: grown_parts)
  moreover have "same_vars s ?s'" by (simp add: same_vars_def grown_def)
  ultimately show ?thesis using m(1) by blast
qed

lemma morecore_wf:
  assumes wf: "kwf os g s" and ok: "os_ok os" and b: "b < 28" and empty: "nextf s ! b = 0"
  shows "\<exists>g' s'. morecore os (of_nat b) s = Some s' \<and> kwf os g' s' \<and> used g' = used g \<and>
    blk g \<subseteq>\<^sub>m blk g' \<and> mem_extends s s' \<and> same_vars s s' \<and>
    (nextf s' ! b \<noteq> 0 \<longleftrightarrow>
      grants os (calls (hp s)) (brk (hp s)) (of_nat (amount (unat (pagesz s)) b)))"
proof (cases "grants os (calls (hp s)) (brk (hp s)) (of_nat (amount (unat (pagesz s)) b))")
  case True
  then show ?thesis using morecore_granted_wf [OF assms True] by simp
next
  case False
  obtain s' where "morecore os (of_nat b) s = Some s'" "kwf os g s'" "mem_extends s s'" "same_vars s s'"
      "nextf s' = nextf s"
    using morecore_refused_wf [OF wf b False] by blast
  then show ?thesis using False empty by (intro exI [of _ g] exI [of _ s']) simp
qed


section \<open>Taking the head of a free list\<close>

definition take_block :: "u64 \<Rightarrow> ghost \<Rightarrow> ghost" where
  "take_block op g = g\<lparr>used := insert op (used g)\<rparr>"

lemma free_of_take: "free_of (take_block op g) c = free_of g c - {op}"
  by (auto simp: free_of_def take_block_def)

text \<open>Marking one block's header leaves the cells of all other blocks alone.\<close>

lemma ld64_mark:
  assumes "kwf os g s" and "blk g op = Some b" and "blk g x = Some c" and "x \<noteq> op"
  shows "ld64 ((bytes (hp s))(op := u, op + 1 := v)) x = ld64 (bytes (hp s)) x"
proof (rule ld64_cong)
  fix i :: nat assume "i < 8"
  then have i: "i < extent (unat (pagesz s)) c" "1 < extent (unat (pagesz s)) b"
      "0 < extent (unat (pagesz s)) b"
    using extent_ge_8 [of "unat (pagesz s)" c] extent_ge_8 [of "unat (pagesz s)" b] by linarith+
  have "x + of_nat i \<noteq> op" "x + of_nat i \<noteq> op + 1"
    using block_bytes_differ [OF assms(1,3,2,4) i(1,3)] block_bytes_differ [OF assms(1,3,2,4) i(1,2)]
    by simp_all
  then show "((bytes (hp s))(op := u, op + 1 := v)) (x + of_nat i) = bytes (hp s) (x + of_nat i)"
    by simp
qed

lemma take_wf:
  assumes wf: "kwf os g s" and b: "b < 28" and op: "nextf s ! b = op" "op \<noteq> 0"
  defines "m \<equiv> (bytes (hp s))(op := MAGIC, op + 1 := of_nat b)"
  shows "op \<in> free_of g b"
    and "kwf os (take_block op g)
      (s\<lparr>nextf := (nextf s)[b := ld64 (bytes (hp s)) op], hp := (hp s)\<lparr>bytes := m\<rparr>\<rparr>)"
proof -
  let ?m = "bytes (hp s)" and ?g = "take_block op g" and ?nf = "(nextf s)[b := ld64 (bytes (hp s)) op]"
  have bN: "b < NBUCKETS" using b by (simp add: NBUCKETS_def)
  obtain xs where xs: "chain (ld64 ?m) (nextf s ! b) xs" "set xs = free_of g b" "distinct xs"
    using wf_list [OF wf bN] .
  then obtain ys where ys: "xs = op # ys" "chain (ld64 ?m) (ld64 ?m op) ys"
    using op chain_nonnull by blast
  show opf: "op \<in> free_of g b" using xs(2) ys(1) by auto
  then have blk: "blk g op = Some b" "op \<notin> used g" by (auto simp: free_of_def)
  have ld: "ld64 m x = ld64 ?m x" if "blk g x = Some c" "x \<noteq> op" for x c
    using ld64_mark [OF wf blk(1) that] by (simp add: m_def)
  have "lists_ok ?g ?nf m"
    unfolding lists_ok_def
  proof (intro conjI allI impI)
    show "length ?nf = NBUCKETS" using wf_nextf_length [OF wf] by simp
    fix c assume c: "c < NBUCKETS"
    show "\<exists>zs. chain (ld64 m) (?nf ! c) zs \<and> set zs = free_of ?g c"
    proof (cases "c = b")
      case True
      have "chain (ld64 m) (ld64 ?m op) ys = chain (ld64 ?m) (ld64 ?m op) ys"
        using xs(2,3) ys(1) by (intro chain_cong ld [where c = b]) (auto simp: free_of_def)
      then show ?thesis
        using True xs(2,3) ys bN wf_nextf_length [OF wf]
        by (intro exI [of _ ys]) (auto simp: free_of_take)
    next
      case False
      obtain zs where zs: "chain (ld64 ?m) (nextf s ! c) zs" "set zs = free_of g c"
        using wf_list [OF wf c] .
      have "op \<notin> free_of g c" using False blk by (simp add: free_of_def)
      moreover have "chain (ld64 m) (nextf s ! c) zs = chain (ld64 ?m) (nextf s ! c) zs"
        using zs(2) calculation by (intro chain_cong ld [where c = c]) (auto simp: free_of_def)
      ultimately show ?thesis using zs False by (intro exI [of _ zs]) (auto simp: free_of_take)
    qed
  qed
  moreover have "headers_ok ?g m"
    unfolding headers_ok_def
  proof
    fix x assume x: "x \<in> used ?g"
    show "\<exists>c. blk ?g x = Some c \<and> m x = MAGIC \<and> m (x + 1) = of_nat c"
    proof (cases "x = op")
      case True
      then show ?thesis using blk by (simp add: take_block_def m_def)
    next
      case False
      then have "x \<in> used g" using x by (simp add: take_block_def)
      then obtain c where c: "blk g x = Some c" "?m x = MAGIC" "?m (x + 1) = of_nat c"
        by (rule wf_used_header [OF wf])
      have e: "0 < extent (unat (pagesz s)) d" "1 < extent (unat (pagesz s)) d" for d
        using extent_ge_8 [of "unat (pagesz s)" d] by linarith+
      have "x \<noteq> op + 1" "x + 1 \<noteq> op" "x + 1 \<noteq> op + 1"
        using block_bytes_differ [OF wf c(1) blk(1) False e(1,2)]
          block_bytes_differ [OF wf c(1) blk(1) False e(2,1)] False by simp_all
      then show ?thesis using c False by (simp add: take_block_def m_def)
    qed
  qed
  ultimately show "kwf os ?g (s\<lparr>nextf := ?nf, hp := (hp s)\<lparr>bytes := m\<rparr>\<rparr>)"
    using wf by (auto simp: kwf_def paged_def heap_ok_def take_block_def)
qed


section \<open>kmalloc\<close>

text \<open>
  The abstract specification. A successful request of \<open>n\<close> bytes takes a block \<open>op\<close> that was not
  in use, of the smallest bucket that holds \<open>n\<close> bytes, and returns the address after its header.
  \<open>kept g s s'\<close>: the blocks in use in \<open>g\<close> have the same contents, headers included.
\<close>

definition allocates :: "nat \<Rightarrow> nat \<Rightarrow> ghost \<Rightarrow> u64 \<Rightarrow> ghost \<Rightarrow> bool" where
  "allocates pg n g p g' \<longleftrightarrow>
     (\<exists>op b. p = op + sizeof_overhead \<and> bucket_for pg n = Some b \<and> blk g' op = Some b \<and>
        op \<notin> used g \<and> used g' = insert op (used g))"

definition kept :: "ghost \<Rightarrow> kstate \<Rightarrow> kstate \<Rightarrow> bool" where
  "kept g s s' \<longleftrightarrow>
     (\<forall>op \<in> used g. \<forall>b i. blk g op = Some b \<and> i < extent (unat (pagesz s)) b \<longrightarrow>
        bytes (hp s') (op + of_nat i) = bytes (hp s) (op + of_nat i))"

lemma kept_extends:
  assumes "kwf os g s" and "mem_extends s s'"
  shows "kept g s s'"
  unfolding kept_def
proof (intro ballI allI impI, elim conjE)
  fix op b i
  assume op: "blk g op = Some b" "i < extent (unat (pagesz s)) b"
  then have "unat (op + of_nat i) < unat (brk (hp s))"
    using wf_block(4,5) [OF assms(1) op(1)] by (subst unat_offset) simp_all
  then show "bytes (hp s') (op + of_nat i) = bytes (hp s) (op + of_nat i)"
    using assms(2) by (simp add: mem_extends_def)
qed

lemma kept_trans:
  "kept g s s' \<Longrightarrow> kept g' s' s'' \<Longrightarrow> used g' = used g \<Longrightarrow> blk g \<subseteq>\<^sub>m blk g' \<Longrightarrow>
    pagesz s' = pagesz s \<Longrightarrow> kept g s s''"
  unfolding kept_def map_le_def by (metis domI)

lemma kmalloc_take_pop:
  assumes wf: "kwf os g s" and b: "b < 28" and op: "nextf s ! b = op" "op \<noteq> 0"
  shows "kmalloc_take os (of_nat b) s = Some (op + sizeof_overhead,
    s\<lparr>nextf := (nextf s)[b := ld64 (bytes (hp s)) op],
      hp := (hp s)\<lparr>bytes := (bytes (hp s))(op := MAGIC, op + 1 := of_nat b)\<rparr>\<rparr>)"
proof -
  have ub: "unat (of_nat b :: u32) = b" using b by (simp add: unat_of_nat32)
  have "unat (ucast (of_nat b :: u32) :: u8) = unat (of_nat b :: u8)"
    using b by (simp add: unsigned_ucast_eq unsigned_of_nat take_bit_nat_eq_self)
  then have ix: "(ucast (of_nat b :: u32) :: u8) = of_nat b" by (rule unat_eqI)
  have at: "nextf_at s b = Some op" using wf_nextf_at [OF wf, of b] b op by (simp add: NBUCKETS_def)
  have len: "b < length (nextf s)" using wf_nextf_length [OF wf] b by (simp add: NBUCKETS_def)
  have "op \<in> free_of g b" using take_wf(1) [OF wf b op] .
  then have blk: "blk g op = Some b" by (simp add: free_of_def)
  show ?thesis
    using op(2) len wf_header_mapped [OF wf blk]
    by (simp add: kmalloc_take_def ub ix at ov_next_def rd64_def set_nextf_def hp_update_simps)
qed

lemma kmalloc_take_empty:
  assumes wf: "kwf os g s" and b: "b < 29" and "nextf s ! b = 0"
  shows "kmalloc_take os (of_nat b) s = do {
     s1 \<leftarrow> morecore os (of_nat b) s;
     op \<leftarrow> nextf_at s1 b;
     if op = 0 then Some (0, s1) else kmalloc_take os (of_nat b) s1 }"
proof -
  have ub: "unat (of_nat b :: u32) = b" using b by (simp add: unat_of_nat32)
  have "nextf_at s b = Some 0" using wf_nextf_at [OF wf, of b] assms by (simp add: NBUCKETS_def)
  then show ?thesis
    by (cases "morecore os (of_nat b) s") (auto simp: kmalloc_take_def ub split: bind_splits)
qed


text \<open>
  All \<open>kmalloc\<close> writes below the old break is the two header bytes of the block it returns.
\<close>

definition writes_header :: "u64 \<Rightarrow> kstate \<Rightarrow> kstate \<Rightarrow> bool" where
  "writes_header op s s' \<longleftrightarrow> same_vars s s' \<and> heap_lo (hp s') = heap_lo (hp s) \<and>
     unat (brk (hp s)) \<le> unat (brk (hp s')) \<and>
     (\<forall>x. unat x < unat (brk (hp s)) \<and> x \<noteq> op \<and> x \<noteq> op + 1 \<longrightarrow>
        bytes (hp s') x = bytes (hp s) x)"

text \<open>When a request fails: no bucket holds it, or its list is empty and the system refuses.\<close>

definition exhausted :: "os \<Rightarrow> kstate \<Rightarrow> nat \<Rightarrow> bool" where
  "exhausted os s n \<longleftrightarrow>
     (case bucket_for (unat (pagesz s)) n of
        None \<Rightarrow> True
      | Some b \<Rightarrow> b = 28 \<or> nextf s ! b = 0 \<and>
          \<not> grants os (calls (hp s)) (brk (hp s)) (of_nat (amount (unat (pagesz s)) b)))"

lemma take_ok:
  assumes wf: "kwf os g s" and b: "b < 28" and op: "nextf s ! b = op" "op \<noteq> 0"
  shows "\<exists>s'. kmalloc_take os (of_nat b) s = Some (op + sizeof_overhead, s') \<and>
    kwf os (take_block op g) s' \<and> writes_header op s s' \<and> blk g op = Some b \<and> op \<notin> used g"
  using kmalloc_take_pop [OF assms] take_wf [OF assms]
  by (auto simp: writes_header_def same_vars_def free_of_def)

lemma nonnull_result:
  assumes "kwf os g s" and "blk g op = Some b"
  shows "op + sizeof_overhead \<noteq> 0"
proof -
  have "unat op + 8 \<le> 2 ^ 47"
    using wf_block(5) [OF assms] extent_ge_8 [of "unat (pagesz s)" b] by linarith
  then have "unat (op + 8) = unat op + 8" using unat_offset [of op 8] by simp
  then show ?thesis unfolding sizeof_overhead_def by (metis add_is_0 unat_0 zero_neq_numeral)
qed

lemma nextf_28: "kwf os g s \<Longrightarrow> nextf s ! 28 = 0"
proof -
  assume wf: "kwf os g s"
  have "28 < NBUCKETS" by (simp add: NBUCKETS_def)
  then obtain xs where xs: "chain (ld64 (bytes (hp s))) (nextf s ! 28) xs" "set xs = free_of g 28"
    by (rule wf_list [OF wf])
  have "op \<notin> free_of g 28" for op
    using wf_block(1) [OF wf, of op 28] by (auto simp: free_of_def)
  with xs(2) have "xs = []" by (cases xs) auto
  with xs(1) show ?thesis by simp
qed

lemma kmalloc_take_wf:
  assumes wf: "kwf os g s" and ok: "os_ok os" and b: "bucket_for (unat (pagesz s)) n = Some b"
  shows "\<exists>p s' g'. kmalloc_take os (of_nat b) s = Some (p, s') \<and> kwf os g' s' \<and>
    blk g \<subseteq>\<^sub>m blk g' \<and> writes_header (p - sizeof_overhead) s s' \<and>
    (p = 0 \<longleftrightarrow> exhausted os s n) \<and>
    (if p = 0 then used g' = used g else allocates (unat (pagesz s)) n g p g')"
proof -
  have b29: "b < 29" using b by (simp add: bucket_for_Some)
  have taken: "\<exists>p s' g'. kmalloc_take os (of_nat b) s1 = Some (p, s') \<and> kwf os g' s' \<and>
      blk g \<subseteq>\<^sub>m blk g' \<and> writes_header (p - sizeof_overhead) s s' \<and> p \<noteq> 0 \<and>
      allocates (unat (pagesz s)) n g p g'"
    if s1: "kwf os g1 s1" "mem_extends s s1" "same_vars s s1" "used g1 = used g"
      "blk g \<subseteq>\<^sub>m blk g1" "nextf s1 ! b \<noteq> 0" "b < 28" for s1 g1
  proof -
    let ?op = "nextf s1 ! b"
    obtain s' where s': "kmalloc_take os (of_nat b) s1 = Some (?op + sizeof_overhead, s')"
        "kwf os (take_block ?op g1) s'" "writes_header ?op s1 s'" "blk g1 ?op = Some b" "?op \<notin> used g1"
      using take_ok [OF s1(1,7) refl s1(6)] by blast
    have "writes_header ?op s s'"
      using s'(3) s1(2,3) by (auto simp: writes_header_def mem_extends_def same_vars_def)
    moreover have "?op + sizeof_overhead \<noteq> 0" by (rule nonnull_result [OF s1(1) s'(4)])
    moreover have "allocates (unat (pagesz s)) n g (?op + sizeof_overhead) (take_block ?op g1)"
      using s'(4,5) s1(4) b unfolding allocates_def by (auto simp: take_block_def)
    moreover have "blk g \<subseteq>\<^sub>m blk (take_block ?op g1)" using s1(5) by (simp add: take_block_def)
    ultimately show ?thesis using s'(1,2)
      by (intro exI [of _ "?op + sizeof_overhead"] exI [of _ s'] exI [of _ "take_block ?op g1"]) simp
  qed
  have refl: "mem_extends s s" "blk g \<subseteq>\<^sub>m blk g" "same_vars s s"
    by (simp_all add: mem_extends_def same_vars_def)
  have still: "writes_header (0 - sizeof_overhead) s s1"
    if "mem_extends s s1" "same_vars s s1" for s1
    using that by (simp add: writes_header_def mem_extends_def)
  have pop: "nextf_at s1 b = Some (nextf s1 ! b)" if "kwf os g1 s1" for s1 g1
    using wf_nextf_at [OF that] b29 by (simp add: NBUCKETS_def)
  consider (full) "nextf s ! b \<noteq> 0" | (top) "nextf s ! b = 0" "b = 28" | (low) "nextf s ! b = 0" "b < 28"
    using b29 by linarith
  then show ?thesis
  proof cases
    case full
    then have "b < 28" using b29 nextf_28 [OF wf] by (cases "b = 28") auto
    with full show ?thesis
      using taken [OF wf refl(1,3) _ refl(2)] b by (auto simp: exhausted_def)
  next
    case top
    then have "kmalloc_take os (of_nat b) s = Some (0, s)"
      using kmalloc_take_empty [OF wf b29 top(1)] morecore_28 [of os s] pop [OF wf] by simp
    then show ?thesis
      using wf still [OF refl(1,3)] refl(2) b top by (auto simp: exhausted_def)
  next
    case low
    obtain g1 s1 where s1: "morecore os (of_nat b) s = Some s1" "kwf os g1 s1" "used g1 = used g"
        "blk g \<subseteq>\<^sub>m blk g1" "mem_extends s s1" "same_vars s s1"
        "nextf s1 ! b \<noteq> 0 \<longleftrightarrow>
          grants os (calls (hp s)) (brk (hp s)) (of_nat (amount (unat (pagesz s)) b))"
      using morecore_wf [OF wf ok low(2,1)] by blast
    have eq: "kmalloc_take os (of_nat b) s =
        (if nextf s1 ! b = 0 then Some (0, s1) else kmalloc_take os (of_nat b) s1)"
      using kmalloc_take_empty [OF wf b29 low(1)] s1(1) pop [OF s1(2)] by simp
    show ?thesis
    proof (cases "nextf s1 ! b = 0")
      case True
      then show ?thesis
        using eq s1 still b low by (auto simp: exhausted_def)
    next
      case False
      then show ?thesis
        using eq taken [OF s1(2,5,6,3,4)] low s1(7) b by (auto simp: exhausted_def)
    qed
  qed
qed

text \<open>\<open>kmalloc\<close> refines its specification.\<close>

lemma kmalloc_setup_booted:
  assumes "booted os s"
  shows "kmalloc_setup os s = Some (True, s)"
proof -
  have "paged os s" using assms by (simp add: booted_def)
  then obtain k where "16 \<le> unat (pagesz s)" by (rule paged_page)
  then have "pagesz s \<noteq> 0" by auto
  then show ?thesis by (simp add: kmalloc_setup_def)
qed

lemma booted_same: "booted os s \<Longrightarrow> same_vars s s' \<Longrightarrow> booted os s'"
  by (auto simp: booted_def paged_def same_vars_def)

lemma kmalloc_wf:
  assumes wf: "kwf os g s" and bt: "booted os s" and ok: "os_ok os"
  shows "\<exists>p s' g'. kmalloc os n s = Some (p, s') \<and> kwf os g' s' \<and>
    blk g \<subseteq>\<^sub>m blk g' \<and> writes_header (p - sizeof_overhead) s s' \<and>
    (p = 0 \<longleftrightarrow> exhausted os s (unat n)) \<and>
    (if p = 0 then used g' = used g else allocates (unat (pagesz s)) (unat n) g p g')"
proof (cases "bucket_for (unat (pagesz s)) (unat n)")
  case None
  then have "kmalloc os n s = Some (0, s)"
    by (simp add: kmalloc_def kmalloc_setup_booted [OF bt] kmalloc_bucket_eq [OF bt])
  with None wf show ?thesis
    by (auto simp: exhausted_def writes_header_def same_vars_def)
next
  case (Some b)
  then have "kmalloc os n s = kmalloc_take os (of_nat b) s"
    by (simp add: kmalloc_def kmalloc_setup_booted [OF bt] kmalloc_bucket_eq [OF bt])
  then show ?thesis using kmalloc_take_wf [OF wf ok Some] by simp
qed

text \<open>Where the data area lies.\<close>

lemma kmalloc_data_area:
  assumes "kwf os g s" and "booted os s" and "os_ok os"
    and "kmalloc os n s = Some (p, s')" and "p \<noteq> 0"
  shows "\<exists>b. bucket_for (unat (pagesz s)) (unat n) = Some b \<and>
    unat p mod min (2 ^ (b + 3)) (unat (pagesz s)) = 0 \<and>
    unat (heap_lo (hp s')) + 8 \<le> unat p \<and> unat p + unat n \<le> unat (brk (hp s'))"
proof -
  obtain g' where s': "kwf os g' s'" "writes_header (p - sizeof_overhead) s s'"
      "allocates (unat (pagesz s)) (unat n) g p g'"
    using kmalloc_wf [OF assms(1-3), of n] assms(4,5) by auto
  then obtain op b where op: "p = op + sizeof_overhead" "bucket_for (unat (pagesz s)) (unat n) = Some b"
      "blk g' op = Some b"
    by (auto simp: allocates_def)
  have pg: "pagesz s' = pagesz s" using s'(2) by (simp add: writes_header_def same_vars_def)
  have e: "unat n + 8 \<le> extent (unat (pagesz s)) b"
    using op(2) extent_capacity [of "unat (pagesz s)" b] by (simp add: bucket_for_Some)
  note w = wf_block [OF s'(1) op(3), unfolded pg]
  have "unat p = unat op + 8"
    using w(5) e unat_offset [of op 8] op(1) by (simp add: sizeof_overhead_def)
  moreover have "(unat op + 8) mod min (2 ^ (b + 3)) (unat (pagesz s)) = 0"
    using s'(1) op(3) pg unfolding kwf_def placed_def by metis
  ultimately show ?thesis using op(2) w(2,4) e by (intro exI [of _ b]) simp
qed

end
