(* ===== verification/Kmalloc_Free.thy ===== *)
theory Kmalloc_Free
  imports Kmalloc_Alloc
begin

text \<open>
  Freeing: \<open>kfree\<close> of a block in use keeps the invariant and puts the block at the head of its
  bucket's list; the header of a free block never carries the magic byte, so that a second
  \<open>kfree\<close> is a no-op; the size lookup; and what \<open>kmalloc\<close> and \<open>kfree\<close> do to each other.
\<close>

section \<open>Cells and their bytes\<close>

lemma byte_ld64:
  assumes "k < 8"
  shows "byte_of (ld64 m a) k = m (a + of_nat k)"
proof (rule bit_word_eqI)
  fix n assume "n < LENGTH(8)"
  then show "bit (byte_of (ld64 m a) k) n = bit (m (a + of_nat k)) n"
    using assms by (auto simp: bit_byte_of ld64_def bit_ld_bytes)
qed

lemma unat_low_byte: "unat (m a) = unat (ld64 m a) mod 256"
proof -
  have "m a = ucast (ld64 m a)" using byte_ld64 [of 0 m a] by (simp add: byte_of_def)
  then have "unat (m a) = take_bit 8 (unat (ld64 m a))" by (simp add: unsigned_ucast_eq)
  then show ?thesis by (simp add: take_bit_eq_mod)
qed

text \<open>Storing back the word that was in a cell undoes any change inside the cell.\<close>

lemma st64_restore:
  assumes "\<And>x. 8 \<le> unat (x - a) \<Longrightarrow> m' x = m x"
  shows "st64 m' a (ld64 m a) = m"
proof
  fix x
  show "st64 m' a (ld64 m a) x = m x"
    using assms [of x] byte_ld64 [of "unat (x - a)" m a] by (simp add: st64_def)
qed

lemma chain_next: "chain nx p xs \<Longrightarrow> x \<in> set xs \<Longrightarrow> nx x = 0 \<or> nx x \<in> set xs"
proof (induction xs arbitrary: p)
  case Nil
  then show ?case by simp
next
  case (Cons y ys)
  then show ?case by (cases ys) auto
qed

section \<open>Free blocks carry no magic\<close>

lemma block_mod_8:
  assumes "kwf os g s" and "blk g op = Some b"
  shows "unat op mod 8 = 0"
proof -
  obtain k where k: "4 \<le> k" "unat (pagesz s) = 2 ^ k"
    using assms(1) paged_page unfolding kwf_def by metis
  have "(2::nat) ^ 3 dvd 2 ^ (b + 3)" by (rule le_imp_power_dvd) simp
  moreover have "(2::nat) ^ 3 dvd unat (pagesz s)"
    unfolding k(2) using k(1) by (intro le_imp_power_dvd) simp
  ultimately have "8 dvd min (2 ^ (b + 3)) (unat (pagesz s))" by (simp add: min_def)
  moreover have "min (2 ^ (b + 3)) (unat (pagesz s)) dvd unat op + 8"
    using assms unfolding kwf_def placed_def by (simp add: mod_eq_0_iff_dvd)
  ultimately have "8 dvd unat op + 8" by (rule dvd_trans)
  then show ?thesis by simp
qed

lemma free_not_magic:
  assumes wf: "kwf os g s" and op: "op \<in> free_of g b"
  shows "bytes (hp s) op \<noteq> MAGIC"
proof
  assume magic: "bytes (hp s) op = MAGIC"
  have "blk g op = Some b" using op by (simp add: free_of_def)
  then have "b < NBUCKETS" using wf_block(1) [OF wf] by (fastforce simp: NBUCKETS_def)
  then obtain xs where xs: "chain (ld64 (bytes (hp s))) (nextf s ! b) xs" "set xs = free_of g b"
    by (rule wf_list [OF wf])
  let ?nx = "ld64 (bytes (hp s)) op"
  have "unat ?nx mod 8 = 0"
    using chain_next [OF xs(1), of op] xs(2) op block_mod_8 [OF wf]
    by (auto simp: free_of_def)
  moreover have "unat ?nx mod 256 mod 8 = unat ?nx mod 8" by (rule mod_mod_cancel) simp
  ultimately have "unat (bytes (hp s) op) mod 8 = 0" by (simp add: unat_low_byte)
  then show False by (simp add: magic MAGIC_def)
qed

section \<open>kfree\<close>

definition free_block :: "u64 \<Rightarrow> ghost \<Rightarrow> ghost" where
  "free_block op g = g\<lparr>used := used g - {op}\<rparr>"

lemma kfree_null: "kfree 0 s = Some s"
  by (simp add: kfree_def)

lemma kfree_eq:
  assumes wf: "kwf os g s" and op: "op \<in> used g" "blk g op = Some b"
  shows "kfree (op + sizeof_overhead) s = Some (s\<lparr>
    hp := (hp s)\<lparr>bytes := st64 (bytes (hp s)) op (nextf s ! b)\<rparr>, nextf := (nextf s)[b := op]\<rparr>)"
proof -
  have magic: "bytes (hp s) op = MAGIC" "bytes (hp s) (op + 1) = of_nat b"
    using wf_used_header [OF wf op(1)] op(2) by auto
  have b: "b < 28" using wf_block(1) [OF wf op(2)] .
  then have "unat (of_nat b :: u8) = b"
    by (simp add: unsigned_of_nat take_bit_nat_eq_self)
  moreover have "nextf_at s b = Some (nextf s ! b)" "b < length (nextf s)"
    using b wf_nextf_at [OF wf] wf_nextf_length [OF wf] by (simp_all add: NBUCKETS_def)
  moreover have "op + sizeof_overhead \<noteq> 0" by (rule nonnull_result [OF wf op(2)])
  ultimately show ?thesis
    using wf_header_mapped [OF wf op(2)] magic
    by (simp add: kfree_def ov_magic_def ov_index_def rd8_def hp_update_simps set_nextf_def
        del: unsigned_of_nat)
qed

lemma kfree_wf:
  assumes wf: "kwf os g s" and op: "op \<in> used g" "blk g op = Some b"
  shows "kwf os (free_block op g) (s\<lparr>
    hp := (hp s)\<lparr>bytes := st64 (bytes (hp s)) op (nextf s ! b)\<rparr>, nextf := (nextf s)[b := op]\<rparr>)"
proof -
  let ?m = "bytes (hp s)" and ?g = "free_block op g" and ?nf = "(nextf s)[b := op]"
  let ?m' = "st64 ?m op (nextf s ! b)"
  have b: "b < NBUCKETS" using wf_block(1) [OF wf op(2)] by (simp add: NBUCKETS_def)
  have free: "free_of ?g c = (if c = b then insert op (free_of g c) else free_of g c)" for c
    using op by (auto simp: free_of_def free_block_def)
  have ap: "apart op x" if "x \<in> free_of g c" for x c
    using that op blocks_apart [OF wf op(2)] by (auto simp: free_of_def)
  have "lists_ok ?g ?nf ?m'"
    unfolding lists_ok_def
  proof (intro conjI allI impI)
    show "length ?nf = NBUCKETS" using wf_nextf_length [OF wf] by simp
    fix c assume c: "c < NBUCKETS"
    obtain xs where xs: "chain (ld64 ?m) (nextf s ! c) xs" "set xs = free_of g c"
      by (rule wf_list [OF wf c])
    show "\<exists>zs. chain (ld64 ?m') (?nf ! c) zs \<and> set zs = free_of ?g c"
    proof (cases "c = b")
      case True
      have "chain (ld64 ?m') op (op # xs)"
        using xs True ap wf_block_nonnull [OF wf op(2)]
        by (intro byte_cells.chain_push) auto
      then show ?thesis
        using True xs(2) b wf_nextf_length [OF wf] free [of b] by (intro exI [of _ "op # xs"]) simp
    next
      case False
      have "chain (ld64 ?m') (nextf s ! c) xs = chain (ld64 ?m) (nextf s ! c) xs"
        using xs(2) ap by (intro byte_cells.chain_st) auto
      then show ?thesis using False xs free [of c] by (intro exI [of _ xs]) simp
    qed
  qed
  moreover have "headers_ok ?g ?m'"
    unfolding headers_ok_def
  proof
    fix x assume "x \<in> used ?g"
    then have x: "x \<in> used g" "x \<noteq> op" by (auto simp: free_block_def)
    obtain c where c: "blk g x = Some c" "?m x = MAGIC" "?m (x + 1) = of_nat c"
      by (rule wf_used_header [OF wf x(1)])
    have "apart op x" using blocks_apart [OF wf op(2) c(1)] x(2) by auto
    then have "?m' x = ?m x" "?m' (x + 1) = ?m (x + 1)"
      using apart_bytes [of op x 0] apart_bytes [of op x 1] by (simp_all add: st64_outside)
    then show "\<exists>c. blk ?g x = Some c \<and> ?m' x = MAGIC \<and> ?m' (x + 1) = of_nat c"
      using c by (simp add: free_block_def)
  qed
  ultimately show ?thesis
    using wf by (auto simp: kwf_def paged_def heap_ok_def free_block_def)
qed

text \<open>Freeing a free block, or asking for its size, does nothing.\<close>

lemma kfree_free_block:
  assumes wf: "kwf os g s" and op: "op \<in> free_of g b"
  shows "kfree (op + sizeof_overhead) s = Some s"
    and "kmalloc_usable_size (op + sizeof_overhead) s = Some 0"
proof -
  have blk: "blk g op = Some b" using op by (simp add: free_of_def)
  have "op + sizeof_overhead \<noteq> 0" by (rule nonnull_result [OF wf blk])
  moreover have "ov_magic s op = Some (bytes (hp s) op)"
    using wf_header_mapped [OF wf blk] by (simp add: ov_magic_def rd8_def)
  ultimately show "kfree (op + sizeof_overhead) s = Some s"
      "kmalloc_usable_size (op + sizeof_overhead) s = Some 0"
    using free_not_magic [OF wf op] by (simp_all add: kfree_def kmalloc_usable_size_def)
qed

lemma usable_size_used:
  assumes wf: "kwf os g s" and op: "op \<in> used g" "blk g op = Some b"
  shows "kmalloc_usable_size (op + sizeof_overhead) s = Some (of_nat b)"
proof -
  have b: "b < 28" using wf_block(1) [OF wf op(2)] .
  have "(ucast (of_nat b :: u8) :: u64) = of_nat b"
    using b by (intro unat_eqI) (simp add: unsigned_ucast_eq unsigned_of_nat take_bit_nat_eq_self)
  moreover have "bytes (hp s) op = MAGIC" "bytes (hp s) (op + 1) = of_nat b"
    using wf_used_header [OF wf op(1)] op(2) by auto
  moreover have "op + sizeof_overhead \<noteq> 0" by (rule nonnull_result [OF wf op(2)])
  ultimately show ?thesis
    using wf_header_mapped [OF wf op(2)]
    by (simp add: kmalloc_usable_size_def ov_magic_def ov_index_def rd8_def)
qed

section \<open>kmalloc and kfree together\<close>

text \<open>The head of a non-empty list is what the next request of its bucket gets.\<close>

lemma kmalloc_head:
  assumes wf: "kwf os g s" and bt: "booted os s" and b: "bucket_for (unat (pagesz s)) (unat n) = Some b" "b < 28"
    and op: "nextf s ! b = op" "op \<noteq> 0"
  shows "kmalloc os n s = Some (op + sizeof_overhead,
    s\<lparr>nextf := (nextf s)[b := ld64 (bytes (hp s)) op],
      hp := (hp s)\<lparr>bytes := (bytes (hp s))(op := MAGIC, op + 1 := of_nat b)\<rparr>\<rparr>)"
  using b kmalloc_take_pop [OF wf b(2) op]
  by (simp add: kmalloc_def kmalloc_setup_booted [OF bt] kmalloc_bucket_eq [OF bt])


text \<open>A freed block is reused first: the next request of its bucket gets the same address.\<close>

lemma kfree_kmalloc_reuse:
  assumes wf: "kwf os g s" and bt: "booted os s" and op: "op \<in> used g" "blk g op = Some b"
    and n: "bucket_for (unat (pagesz s)) (unat n) = Some b"
  shows "\<exists>s1 s2. kfree (op + sizeof_overhead) s = Some s1 \<and>
    kmalloc os n s1 = Some (op + sizeof_overhead, s2) \<and> kwf os g s2"
proof -
  let ?s1 = "s\<lparr>hp := (hp s)\<lparr>bytes := st64 (bytes (hp s)) op (nextf s ! b)\<rparr>,
    nextf := (nextf s)[b := op]\<rparr>"
  have b: "b < 28" using wf_block(1) [OF wf op(2)] .
  have wf1: "kwf os (free_block op g) ?s1" by (rule kfree_wf [OF wf op])
  have bt1: "booted os ?s1" by (rule booted_same [OF bt]) (simp add: same_vars_def)
  have head: "nextf ?s1 ! b = op"
    using b wf_nextf_length [OF wf] by (simp add: NBUCKETS_def)
  have nz: "op \<noteq> 0" by (rule wf_block_nonnull [OF wf op(2)])
  have bf: "bucket_for (unat (pagesz ?s1)) (unat n) = Some b" using n by simp
  have "take_block op (free_block op g) = g"
    using op(1) by (cases g) (simp add: take_block_def free_block_def insert_absorb)
  then show ?thesis
    using kfree_eq [OF wf op] kmalloc_head [OF wf1 bt1 bf b head nz] take_wf(2) [OF wf1 b head nz]
    by metis
qed

text \<open>
  Freeing what was just taken from a non-empty list restores the whole state, the memory
  included: the link the header bytes overlaid is written back.
\<close>

lemma kmalloc_kfree_restores:
  assumes wf: "kwf os g s" and bt: "booted os s" and n: "bucket_for (unat (pagesz s)) (unat n) = Some b" "b < 28"
    and op: "nextf s ! b \<noteq> 0"
  shows "\<exists>p s1. kmalloc os n s = Some (p, s1) \<and> kfree p s1 = Some s"
proof -
  let ?op = "nextf s ! b" and ?m = "bytes (hp s)"
  let ?m1 = "?m(?op := MAGIC, ?op + 1 := of_nat b)"
  let ?s1 = "s\<lparr>nextf := (nextf s)[b := ld64 ?m ?op], hp := (hp s)\<lparr>bytes := ?m1\<rparr>\<rparr>"
  have wf1: "kwf os (take_block ?op g) ?s1" using take_wf(2) [OF wf n(2) refl op] .
  have blk: "blk (take_block ?op g) ?op = Some b" "?op \<in> used (take_block ?op g)"
    using take_wf(1) [OF wf n(2) refl op] by (auto simp: take_block_def free_of_def)
  have len: "b < length (nextf s)"
    using n(2) wf_nextf_length [OF wf] by (simp add: NBUCKETS_def)
  have "st64 ?m1 ?op (ld64 ?m ?op) = ?m" by (rule st64_restore) auto
  then have "kfree (?op + sizeof_overhead) ?s1 = Some s"
    using kfree_eq [OF wf1 blk(2,1)] len by simp
  then show ?thesis using kmalloc_head [OF wf bt n refl op] by blast
qed

end
