(* ===== verification/Kmalloc_Boot.thy ===== *)
theory Kmalloc_Boot
  imports Kmalloc_Free
begin

text \<open>
  The first call: \<open>kmalloc_setup\<close> moves the break so that the data areas of blocks become page
  aligned, and establishes the invariant when the system grants the move. When the system
  refuses, \<open>pagesz\<close> is already set and \<open>pagebucket\<close> is not, and no later call repairs that.
\<close>

section \<open>How far the break is moved\<close>

definition boot_gap :: "nat \<Rightarrow> nat \<Rightarrow> nat" where
  "boot_gap pg a = (if a mod pg + 8 \<le> pg then pg - 8 - a mod pg else 2 * pg - 8 - a mod pg)"

lemma boot_gap_aligns:
  assumes "8 < pg"
  shows "(a + boot_gap pg a + 8) mod pg = 0" and "boot_gap pg a < pg"
proof -
  have r: "a mod pg < pg" using assms by simp
  then show "boot_gap pg a < pg" using assms by (auto simp: boot_gap_def)
  have "a = a div pg * pg + a mod pg" by simp
  moreover have "x + (if x + 8 \<le> pg then pg - 8 - x else 2 * pg - 8 - x) + 8 =
      (if x + 8 \<le> pg then pg else 2 * pg)" if "x < pg" for x
    using that assms by auto
  then have "a mod pg + boot_gap pg a + 8 = (if a mod pg + 8 \<le> pg then pg else 2 * pg)"
    using r unfolding boot_gap_def by blast
  ultimately have "a + boot_gap pg a + 8 =
      a div pg * pg + (if a mod pg + 8 \<le> pg then pg else 2 * pg)"
    by linarith
  then show "(a + boot_gap pg a + 8) mod pg = 0" by (auto split: if_splits)
qed

text \<open>The \<open>long\<close> arithmetic of the code computes this gap.\<close>

lemma boot_gap_word:
  fixes a :: u64
  assumes "pg = 2 ^ k" and "4 \<le> k" and "k \<le> 30"
  defines "n \<equiv> of_nat pg - sizeof_overhead - (a AND (of_nat pg - 1))"
  shows "(if n <s 0 then n + of_nat pg else n) = of_nat (boot_gap pg (unat a))"
proof -
  let ?r = "unat a mod pg"
  have pgb: "16 \<le> pg" "pg \<le> 2 ^ 30"
    using power_increasing [of 4 k "2::nat"] power_increasing [of k 30 "2::nat"] assms by simp_all
  then have r: "?r < pg" by simp
  have "?r < 2 ^ 64" by (rule less_le_trans [OF r]) (use pgb in simp)
  then have u: "unat (of_nat ?r :: u64) = ?r" by (rule unat_of_nat64)
  have "unat (a AND (2 ^ k - 1)) = ?r" using assms(1,3) by (subst unat_mask_u64) simp_all
  then have "a AND (of_nat pg - 1) = of_nat ?r"
    unfolding assms(1) using u assms(1) by (intro unat_eqI) simp
  then have n: "n = of_nat pg - 8 - of_nat ?r" by (simp add: n_def sizeof_overhead_def)
  show ?thesis
  proof (cases "?r + 8 \<le> pg")
    case True
    then have "n = of_nat (pg - 8 - ?r)" using n by (simp add: of_nat_diff)
    moreover have "\<not> (of_nat (pg - 8 - ?r) :: u64) <s 0"
      using pgb by (subst sless_unat64) (simp_all add: unat_of_nat64)
    ultimately show ?thesis using True by (simp only: boot_gap_def if_True if_False)
  next
    case False
    define d where "d = ?r + 8 - pg"
    have d: "0 < d" "d \<le> 8" using False r unfolding d_def by linarith+
    have "n = - of_nat d" using n False unfolding d_def by (simp add: of_nat_diff)
    then have "unat n = 2 ^ 64 - d" using d unat_neg_of_nat [of d] by simp
    then have "sint n < 0" using d by (intro sint_neg64) simp
    then have "n <s 0" by (simp add: word_sless_alt)
    moreover have "8 \<le> 2 * pg" "?r \<le> 2 * pg - 8" using r pgb by linarith+
    then have "n + of_nat pg = of_nat (2 * pg - 8 - ?r)" using n by (simp add: of_nat_diff)
    ultimately show ?thesis using False by (simp only: boot_gap_def if_True if_False)
  qed
qed


section \<open>The first call\<close>

text \<open>The heap a process starts with, and whether the system grants the first move of the break.\<close>

definition start_ok :: "heap \<Rightarrow> bool" where
  "start_ok h \<longleftrightarrow> 0 < unat (heap_lo h) \<and> unat (heap_lo h) \<le> unat (brk h) \<and> unat (brk h) \<le> 2 ^ 47"

definition boots :: "os \<Rightarrow> heap \<Rightarrow> bool" where
  "boots os h \<longleftrightarrow>
     (let n = boot_gap (unat (page_size os)) (unat (brk h))
      in n = 0 \<or> grants os (calls h) (brk h) (of_nat n))"

lemma setup_eq:
  assumes ok: "os_ok os"
  shows "kmalloc_setup os (kinit h) =
    (let (r, h') = (if boot_gap (unat (page_size os)) (unat (brk h)) \<noteq> 0
          then sbrk os (of_nat (boot_gap (unat (page_size os)) (unat (brk h)))) h else (0, h));
         s = (kinit h)\<lparr>pagesz := page_size os, hp := h'\<rparr>
     in if r = - 1 then Some (False, s)
        else do { b \<leftarrow> page_loop (page_size os) 8 0; Some (True, s\<lparr>pagebucket := b\<rparr>) })"
proof -
  obtain k where k: "4 \<le> k" "k \<le> 30" "unat (page_size os) = 2 ^ k"
    using ok by (auto simp: os_ok_def)
  let ?pg = "unat (page_size os)" and ?N = "boot_gap (unat (page_size os)) (unat (brk h))"
  have pg: "?pg \<le> 2 ^ 30" "8 < ?pg"
    using k power_increasing [of 4 k "2::nat"] power_increasing [of k 30 "2::nat"] by simp_all
  have P: "int_to_long (page_size os) = of_nat ?pg" using pg by (intro int_to_long_of_nat) simp
  have "?N < ?pg" using boot_gap_aligns(2) [OF pg(2)] .
  then have nz: "(of_nat ?N :: u64) = 0 \<longleftrightarrow> ?N = 0" using pg by (intro of_nat_u64_0) simp
  have gap: "(let n = int_to_long (page_size os) - sizeof_overhead -
          (brk h AND (int_to_long (page_size os) - 1))
        in if n <s 0 then n + int_to_long (page_size os) else n) = of_nat ?N"
    unfolding P Let_def by (rule boot_gap_word [OF k(3,1,2)])
  have zero: "fst (sbrk os 0 h) = brk h" by (simp add: sbrk_def)
  show ?thesis
    using gap unfolding Let_def
    by (simp only: kmalloc_setup_def kinit_def Let_def kstate.select_convs kstate.update_convs
        zero nz split: prod.split) simp
qed

lemma page_facts:
  assumes "os_ok os"
  obtains k where "4 \<le> k" and "k \<le> 30" and "unat (page_size os) = 2 ^ k"
    and "16 \<le> unat (page_size os)" and "unat (page_size os) \<le> 2 ^ 30"
    and "page_loop (page_size os) 8 0 = Some (of_nat (k - 3))"
    and "boot_gap (unat (page_size os)) a < 2 ^ 30"
proof -
  obtain k where k: "4 \<le> k" "k \<le> 30" "unat (page_size os) = 2 ^ k"
    using assms by (auto simp: os_ok_def)
  have pg: "16 \<le> unat (page_size os)" "unat (page_size os) \<le> 2 ^ 30"
    using k power_increasing [of 4 k "2::nat"] power_increasing [of k 30 "2::nat"] by simp_all
  have "page_loop (page_size os) 8 0 = Some (0 + of_nat (k - 3))"
    using k by (intro page_loop_returns) simp_all
  then have loop: "page_loop (page_size os) 8 0 = Some (of_nat (k - 3))" by (simp only: add_0)
  have "boot_gap (unat (page_size os)) a < 2 ^ 30"
    using boot_gap_aligns(2) [of "unat (page_size os)" a] pg by linarith
  then show ?thesis by (rule that [OF k pg loop])
qed

lemma setup_refused:
  assumes "os_ok os" and "\<not> boots os h"
  shows "kmalloc_setup os (kinit h) =
    Some (False, (kinit h)\<lparr>pagesz := page_size os, hp := h\<lparr>calls := Suc (calls h)\<rparr>\<rparr>)"
proof -
  let ?N = "boot_gap (unat (page_size os)) (unat (brk h))"
  have N: "?N \<noteq> 0" "\<not> grants os (calls h) (brk h) (of_nat ?N)"
    using assms(2) by (simp_all add: boots_def Let_def)
  have "?N < 2 ^ 64" using page_facts [OF assms(1), of "unat (brk h)"] by fastforce
  then have "(of_nat ?N :: u64) \<noteq> 0" using N(1) by (simp only: of_nat_u64_0) simp
  then have "sbrk os (of_nat ?N) h = (- 1, h\<lparr>calls := Suc (calls h)\<rparr>)"
    using N(2) by (rule sbrk_refused)
  then show ?thesis using N(1) by (simp only: setup_eq [OF assms(1)] Let_def) simp
qed

lemma empty_wf:
  assumes "os_ok os" and "paged os s" and "nextf s = replicate NBUCKETS 0"
    and "heap_ok (unat (pagesz s)) (hp s)"
  shows "kwf os ghost0 s"
proof -
  have "lists_ok ghost0 (nextf s) (bytes (hp s))"
    unfolding lists_ok_def using assms(3)
    by (auto simp: ghost0_def free_of_def intro!: exI [of _ "[]"])
  then show ?thesis
    using assms by (simp add: kwf_def placed_def separate_def headers_ok_def ghost0_def)
qed

lemma setup_granted:
  assumes ok: "os_ok os" and h: "start_ok h" and boots: "boots os h"
  shows "\<exists>s. kmalloc_setup os (kinit h) = Some (True, s) \<and> kwf os ghost0 s \<and> booted os s \<and>
    heap_lo (hp s) = heap_lo h \<and>
    unat (brk (hp s)) = unat (brk h) + boot_gap (unat (page_size os)) (unat (brk h)) \<and>
    (\<forall>x. unat x < unat (brk h) \<longrightarrow> bytes (hp s) x = bytes h x)"
proof -
  let ?pg = "unat (page_size os)" and ?N = "boot_gap (unat (page_size os)) (unat (brk h))"
  obtain k where k: "4 \<le> k" "k \<le> 30" "?pg = 2 ^ k" "16 \<le> ?pg" "?N < 2 ^ 30"
      "page_loop (page_size os) 8 0 = Some (of_nat (k - 3))"
    using page_facts [OF ok] by metis
  let ?s = "\<lambda>h'. (kinit h)\<lparr>pagesz := page_size os, hp := h', pagebucket := of_nat (k - 3)\<rparr>"
  have al: "(unat (brk h) + ?N + 8) mod ?pg = 0" using boot_gap_aligns(1) [of ?pg] k(4) by simp
  have good: "kwf os ghost0 (?s h') \<and> booted os (?s h')"
    if "heap_lo h' = heap_lo h" "unat (brk h') = unat (brk h) + ?N" "unat (brk h') \<le> 2 ^ 47" for h'
  proof
    have pd: "paged os (?s h')" using k by (auto simp: paged_def)
    moreover have "heap_ok ?pg h'" using that h al by (simp add: heap_ok_def start_ok_def)
    ultimately show "kwf os ghost0 (?s h')" by (intro empty_wf ok) (simp_all add: kinit_def)
    show "booted os (?s h')" using pd k(3) by (auto simp: booted_def)
  qed
  show ?thesis
  proof (cases "?N = 0")
    case True
    have "kmalloc_setup os (kinit h) = Some (True, ?s h)"
      using True k(6) by (simp only: setup_eq [OF ok] Let_def) simp
    then show ?thesis using good [of h] True h
      by (intro exI [of _ "?s h"]) (simp add: start_ok_def)
  next
    case False
    then have gr: "grants os (calls h) (brk h) (of_nat ?N)" using boots by (simp add: boots_def Let_def)
    have N: "0 < ?N" "?N < 2 ^ 63" using False k(5) by simp_all
    note sb = sbrk_granted [OF ok gr N]
    let ?h = "h\<lparr>brk := brk h + of_nat ?N, calls := Suc (calls h),
      bytes := fill (bytes h) (brk h) 0 (of_nat ?N)\<rparr>"
    have "brk h \<noteq> - 1" using h unat_minus1_u64 by (auto simp: start_ok_def)
    then have "kmalloc_setup os (kinit h) = Some (True, ?s ?h)"
      using False k(6) sb(1) by (simp only: setup_eq [OF ok] Let_def) simp
    then show ?thesis using good [of ?h] sb(2,3,4) by (intro exI [of _ "?s ?h"]) simp
  qed
qed

text \<open>The first call of \<open>kmalloc\<close> is the setup followed by an ordinary call.\<close>

lemma first_kmalloc:
  assumes "kmalloc_setup os s = Some (True, s1)" and "booted os s1"
  shows "kmalloc os n s = kmalloc os n s1"
  using assms(1) kmalloc_setup_booted [OF assms(2)] by (simp add: kmalloc_def)

end
