(* ===== verification/Kmalloc_Realloc.thy ===== *)
theory Kmalloc_Realloc
  imports Kmalloc_Boot
begin

text \<open>
  \<open>krealloc\<close> and \<open>kcalloc\<close>: the test that keeps a block in place asks exactly whether the new
  size belongs to the block's bucket; otherwise the block is freed, a new one allocated and the
  contents copied. A block that is already free is searched on the free lists; the search finds
  it within the given length of its list.
\<close>

section \<open>The block sizes krealloc computes\<close>

lemma shl1_long:
  assumes "n < 31"
  shows "int_shl1 n = Some (of_nat (2 ^ n))" and "unat (int_to_long (of_nat (2 ^ n))) = 2 ^ n"
proof -
  show "int_shl1 n = Some (of_nat (2 ^ n))" by (rule int_shl1_value(1) [OF assms])
  have "(2::nat) ^ n < 2 ^ 31" using assms by (intro power_strict_increasing) simp_all
  then show "unat (int_to_long (of_nat (2 ^ n))) = 2 ^ n"
    using int_shl1_value(2) [OF assms] by (subst unat_int_to_long) simp_all
qed

text \<open>What both computations share: header subtracted below a page, a page added from there on.\<close>

lemma capacity_word:
  fixes x p :: u64
  assumes "unat x = 2 ^ (b + 3)" and "b < 28" and "unat p = pg" and "16 \<le> pg" and "pg \<le> 2 ^ 30"
  shows "(if x < p then x - (sizeof_overhead + RSLOP) else x + (p - sizeof_overhead - RSLOP)) =
    of_nat (capacity pg b)"
    and "(if x <s p then x - (sizeof_overhead + RSLOP) else x + (p - sizeof_overhead - RSLOP)) =
    of_nat (capacity pg b)"
proof -
  have lt: "(2::nat) ^ (b + 3) \<le> 2 ^ 30" using assms(2) by (intro power_increasing) simp_all
  have xp: "x = of_nat (2 ^ (b + 3))" "p = of_nat pg" using assms(1,3,5) lt
    by (auto intro!: unat_eqI simp: unat_of_nat64 simp del: of_nat_power)
  have cmp: "x < p \<longleftrightarrow> 2 ^ (b + 3) < pg" using assms(1,3) by (simp add: word_less_nat_alt)
  have scmp: "x <s p \<longleftrightarrow> 2 ^ (b + 3) < pg"
    using assms lt by (subst sless_unat64) simp_all
  have small: "x - (sizeof_overhead + RSLOP) = of_nat (2 ^ (b + 3) - 8)"
    unfolding xp using pow_ge_8 [of b] by (simp add: sizeof_overhead_def RSLOP_def of_nat_diff)
  have large: "x + (p - sizeof_overhead - RSLOP) = of_nat (2 ^ (b + 3) + pg - 8)"
    unfolding xp using assms(4) by (simp add: sizeof_overhead_def RSLOP_def of_nat_diff)
  show "(if x < p then x - (sizeof_overhead + RSLOP) else x + (p - sizeof_overhead - RSLOP)) =
      of_nat (capacity pg b)"
    "(if x <s p then x - (sizeof_overhead + RSLOP) else x + (p - sizeof_overhead - RSLOP)) =
      of_nat (capacity pg b)"
    by (simp_all only: cmp scmp small large capacity_def extent_def split: if_split) simp_all
qed

lemma capacity_bound: "b < 28 \<Longrightarrow> pg \<le> 2 ^ 30 \<Longrightarrow> capacity pg b < 2 ^ 31"
  using extent_bound [of b pg] extent_ge_8 [of pg b] by (simp add: capacity_def)

lemma krealloc_onb_eq:
  assumes "paged os s" and "b < 28"
  shows "krealloc_onb (of_nat b) s = Some (of_nat (capacity (unat (pagesz s)) b))"
proof -
  obtain k where pg: "16 \<le> unat (pagesz s)" "unat (pagesz s) \<le> 2 ^ 30"
    using paged_page [OF assms(1)] by metis
  have u: "unat (of_nat b + 3 :: u64) = b + 3"
    using assms(2) by (simp add: unat_word_ariths unat_of_nat64)
  have p: "unat (int_to_long (pagesz s)) = unat (pagesz s)" using pg by (intro unat_int_to_long) simp
  have "b + 3 < 31" using assms(2) by simp
  note x = shl1_long [OF this]
  show ?thesis
    by (simp only: krealloc_onb_def u x(1) Option.bind.simps Let_def
        capacity_word(1) [OF x(2) assms(2) p pg])
qed

lemma krealloc_low_eq:
  assumes "paged os s" and "b < 28"
  shows "krealloc_low (of_nat b) s =
    Some (of_nat (case b of 0 \<Rightarrow> 0 | Suc c \<Rightarrow> capacity (unat (pagesz s)) c))"
proof (cases b)
  case 0
  then show ?thesis by (simp add: krealloc_low_def)
next
  case (Suc c)
  obtain k where pg: "16 \<le> unat (pagesz s)" "unat (pagesz s) \<le> 2 ^ 30"
    using paged_page [OF assms(1)] by metis
  have u: "unat (of_nat b + 2 :: u64) = c + 3"
    using assms(2) Suc by (simp add: unat_word_ariths unat_of_nat64 del: of_nat_Suc)
  have nz: "((of_nat b :: u64) = 0) = False" using Suc assms(2) by (subst of_nat_u64_0) simp_all
  have p: "unat (int_to_long (pagesz s)) = unat (pagesz s)" using pg by (intro unat_int_to_long) simp
  have c: "c < 28" "c + 3 < 31" using Suc assms(2) by simp_all
  note x = shl1_long [OF c(2)]
  have "krealloc_low (of_nat b) s = Some (of_nat (capacity (unat (pagesz s)) c))"
    by (simp only: krealloc_low_def nz not_False_eq_True if_True u x(1) Option.bind.simps Let_def
        capacity_word(2) [OF x(2) c(1) p pg])
  then show ?thesis using Suc by (simp only: nat.case)
qed

text \<open>The test of \<open>krealloc\<close> is the question whether \<open>kmalloc\<close> would choose the same bucket.\<close>

lemma same_bucket_iff:
  assumes "b < 28" and "0 < n" and "16 \<le> pg"
  shows "n \<le> capacity pg b \<and> n > (case b of 0 \<Rightarrow> 0 | Suc c \<Rightarrow> capacity pg c) \<longleftrightarrow>
    bucket_for pg n = Some b"
proof (cases b)
  case 0
  then show ?thesis using assms by (simp add: bucket_for_Some)
next
  case (Suc c)
  have "(\<forall>i<b. capacity pg i < n) \<longleftrightarrow> capacity pg c < n"
    using capacity_mono [of _ c pg] Suc by (metis le_less_trans lessI less_Suc_eq_le)
  then show ?thesis using assms Suc by (auto simp: bucket_for_Some)
qed


section \<open>krealloc of a block in use\<close>

lemma krealloc_lookup_used:
  assumes wf: "kwf os g s" and op: "op \<in> used g" "blk g op = Some b"
  shows "krealloc_lookup op s = Some (True, of_nat b)"
proof -
  have b: "b < 28" using wf_block(1) [OF wf op(2)] .
  have "(ucast (of_nat b :: u8) :: u64) = of_nat b"
    using b by (intro unat_eqI) (simp add: unsigned_ucast_eq unsigned_of_nat take_bit_nat_eq_self)
  moreover have "bytes (hp s) op = MAGIC" "bytes (hp s) (op + 1) = of_nat b"
    using wf_used_header [OF wf op(1)] op(2) by auto
  ultimately show ?thesis
    using wf_header_mapped [OF wf op(2)]
    by (simp add: krealloc_lookup_def ov_magic_def ov_index_def rd8_def)
qed

text \<open>The two tests on the sizes, as questions about buckets and lengths.\<close>

lemma krealloc_tests:
  fixes n :: u64
  assumes wf: "kwf os g s" and op: "blk g op = Some b" and n: "n \<noteq> 0"
  shows "n \<le> of_nat (capacity (unat (pagesz s)) b) \<and>
      n > of_nat (case b of 0 \<Rightarrow> 0 | Suc c \<Rightarrow> capacity (unat (pagesz s)) c) \<longleftrightarrow>
    bucket_for (unat (pagesz s)) (unat n) = Some b"
    and "(if n < of_nat (capacity (unat (pagesz s)) b) then n else of_nat (capacity (unat (pagesz s)) b)) =
      of_nat (min (unat n) (capacity (unat (pagesz s)) b))"
proof -
  let ?pg = "unat (pagesz s)" and ?low = "case b of 0 \<Rightarrow> 0 | Suc c \<Rightarrow> capacity (unat (pagesz s)) c"
  have pd: "paged os s" using wf by (simp add: kwf_def)
  obtain k where pg: "16 \<le> ?pg" "?pg \<le> 2 ^ 30" using paged_page [OF pd] by metis
  have b: "b < 28" using wf_block(1) [OF wf op] .
  have cap: "unat (of_nat (capacity ?pg b) :: u64) = capacity ?pg b"
    using capacity_bound [OF b pg(2)] by (intro unat_of_nat64) simp
  have "?low < 2 ^ 31" using b pg(2) capacity_bound [of "b - 1" ?pg] by (cases b) simp_all
  then have low: "unat (of_nat ?low :: u64) = ?low" by (intro unat_of_nat64) simp
  have n0: "0 < unat n" using n by (simp add: unat_gt_0)
  show "n \<le> of_nat (capacity ?pg b) \<and> n > of_nat ?low \<longleftrightarrow> bucket_for ?pg (unat n) = Some b"
    unfolding word_le_nat_alt word_less_nat_alt cap low by (rule same_bucket_iff [OF b n0 pg(1)])
  show "(if n < of_nat (capacity ?pg b) then n else of_nat (capacity ?pg b)) =
      of_nat (min (unat n) (capacity ?pg b))"
    using cap by (auto simp: word_less_nat_alt min_def)
qed

text \<open>\<open>krealloc\<close> of a block in use, reduced to its two outcomes.\<close>

lemma krealloc_used_eq:
  assumes wf: "kwf os g s" and op: "op \<in> used g" "blk g op = Some b" and n: "n \<noteq> 0"
  shows "krealloc os (op + sizeof_overhead) n s =
    (if bucket_for (unat (pagesz s)) (unat n) = Some b then Some (op + sizeof_overhead, s)
     else do {
       s1 \<leftarrow> kfree (op + sizeof_overhead) s;
       (res, s2) \<leftarrow> kmalloc os n s1;
       if res = 0 then Some (0, s2)
       else if op + sizeof_overhead \<noteq> res then do {
         h \<leftarrow> bcopy (op + sizeof_overhead) res
           (of_nat (min (unat n) (capacity (unat (pagesz s)) b))) (hp s2);
         Some (res, s2\<lparr>hp := h\<rparr>)
       } else Some (res, s2) })"
proof -
  have pd: "paged os s" using wf by (simp add: kwf_def)
  have b: "b < 28" using wf_block(1) [OF wf op(2)] .
  note tests = krealloc_tests [OF wf op(2) n]
  have nz: "(op + sizeof_overhead = 0) = False" "(n = 0) = False"
    using nonnull_result [OF wf op(2)] n by simp_all
  have cp: "op + sizeof_overhead - sizeof_overhead = op" by simp
  show ?thesis
    by (simp only: krealloc_def nz cp krealloc_lookup_used [OF wf op] krealloc_onb_eq [OF pd b]
        krealloc_low_eq [OF pd b] tests Option.bind.simps prod.case if_True if_False)
qed

section \<open>Copying between blocks\<close>

lemma bcopy_bytes:
  assumes "mapped h src (of_nat n)" and "mapped h dst (of_nat n)" and "n < 2 ^ 64"
  obtains h' where "bcopy src dst (of_nat n) h = Some h'"
    and "heap_lo h' = heap_lo h" and "brk h' = brk h" and "calls h' = calls h"
    and "\<And>i. i < n \<Longrightarrow> bytes h' (dst + of_nat i) = bytes h (src + of_nat i)"
    and "\<And>x. n \<le> unat (x - dst) \<Longrightarrow> bytes h' x = bytes h x"
proof (cases "n = 0")
  case True
  then show ?thesis by (intro that [of h]) (simp_all add: bcopy_def)
next
  case False
  then have nz: "(of_nat n :: u64) \<noteq> 0" using assms(3) by (simp only: of_nat_u64_0) simp
  have un: "unat (of_nat n :: u64) = n" using assms(3) by (rule unat_of_nat64)
  let ?h = "h\<lparr>bytes := (\<lambda>x. if unat (x - dst) < n then bytes h (src + (x - dst)) else bytes h x)\<rparr>"
  have "bcopy src dst (of_nat n) h = Some ?h"
    using nz assms(1,2) un by (simp add: bcopy_def)
  moreover have "unat (of_nat i :: u64) = i" if "i < n" for i
    using that assms(3) by (intro unat_of_nat64) simp
  ultimately show ?thesis by (intro that [of ?h]) (simp_all del: unsigned_of_nat)
qed

text \<open>A change confined to the data area of one block keeps the invariant and all other blocks.\<close>

lemma data_area_frame:
  assumes wf: "kwf os g s" and op: "blk g op = Some b" and n: "n \<le> capacity (unat (pagesz s)) b"
    and h: "heap_lo h = heap_lo (hp s)" "brk h = brk (hp s)"
    and same: "\<And>x. n \<le> unat (x - (op + sizeof_overhead)) \<Longrightarrow> bytes h x = bytes (hp s) x"
  shows "kwf os g (s\<lparr>hp := h\<rparr>)"
    and "\<And>y c i. blk g y = Some c \<Longrightarrow> y \<noteq> op \<Longrightarrow> i < extent (unat (pagesz s)) c \<Longrightarrow>
      bytes h (y + of_nat i) = bytes (hp s) (y + of_nat i)"
proof -
  have e: "unat op + extent (unat (pagesz s)) b \<le> 2 ^ 47" using wf_block(5) [OF wf op] .
  have dist: "n \<le> unat (x - (op + sizeof_overhead))"
    if "unat x < unat op + 8 \<or> unat op + extent (unat (pagesz s)) b \<le> unat x" for x
  proof -
    have data: "unat (op + 8) = unat op + 8"
      using e extent_ge_8 [of "unat (pagesz s)" b] unat_offset [of op 8] by simp
    from that show ?thesis
    proof
      assume lt: "unat x < unat op + 8"
      then have "unat (x - (op + 8)) = 2 ^ 64 + unat x - (unat op + 8)"
        using data by (simp add: unat_sub_wrap)
      then show ?thesis
        using n e extent_capacity [of "unat (pagesz s)" b] by (simp add: sizeof_overhead_def)
    next
      assume ge: "unat op + extent (unat (pagesz s)) b \<le> unat x"
      then have "unat (x - (op + 8)) = unat x - (unat op + 8)"
        using data extent_ge_8 [of "unat (pagesz s)" b] by (intro trans [OF unat_sub_nowrap]) simp_all
      then show ?thesis
        using n ge extent_capacity [of "unat (pagesz s)" b] by (simp add: sizeof_overhead_def)
    qed
  qed
  show other: "bytes h (y + of_nat i) = bytes (hp s) (y + of_nat i)"
    if y: "blk g y = Some c" "y \<noteq> op" "i < extent (unat (pagesz s)) c" for y c i
  proof (rule same [OF dist])
    have "unat (y + of_nat i) = unat y + i"
      using wf_block(5) [OF wf y(1)] y(3) by (intro unat_offset) simp
    moreover have "unat y + extent (unat (pagesz s)) c \<le> unat op \<or>
        unat op + extent (unat (pagesz s)) b \<le> unat y"
      using wf op y unfolding kwf_def separate_def by blast
    ultimately show "unat (y + of_nat i) < unat op + 8 \<or>
        unat op + extent (unat (pagesz s)) b \<le> unat (y + of_nat i)"
      using y(3) by auto
  qed
  show "kwf os g (s\<lparr>hp := h\<rparr>)"
  proof (rule wf_frame [OF wf refl h])
    fix y c and i :: nat assume y: "blk g y = Some c" "i < 8"
    show "bytes h (y + of_nat i) = bytes (hp s) (y + of_nat i)"
    proof (cases "y = op")
      case True
      have "unat (op + of_nat i) = unat op + i" using e y(2) by (intro unat_offset) simp
      then show ?thesis using True y(2) by (intro same dist) simp
    next
      case False
      then show ?thesis using other [OF y(1)] y(2) extent_ge_8 [of "unat (pagesz s)" c] by simp
    qed
  qed
qed


section \<open>krealloc refines free, allocate and copy\<close>

lemma writes_header_block:
  assumes wf: "kwf os g s" and w: "writes_header op' s s'"
    and op: "blk g op = Some b" and op': "blk g' op' = Some b'" and ne: "op \<noteq> op'"
    and sub: "blk g \<subseteq>\<^sub>m blk g'" and wf': "kwf os g' s'" and i: "i < extent (unat (pagesz s)) b"
  shows "bytes (hp s') (op + of_nat i) = bytes (hp s) (op + of_nat i)"
proof -
  have op1: "blk g' op = Some b" using op sub by (auto simp: map_le_def dom_def)
  have pg: "pagesz s' = pagesz s" using w by (simp add: writes_header_def same_vars_def)
  have e: "0 < extent (unat (pagesz s)) b'" "1 < extent (unat (pagesz s)) b'"
    using extent_ge_8 [of "unat (pagesz s)" b'] by simp_all
  have "op + of_nat i \<noteq> op'" "op + of_nat i \<noteq> op' + 1"
    using block_bytes_differ [OF wf' op1 op' ne, of i 0] block_bytes_differ [OF wf' op1 op' ne, of i 1]
      i e pg by simp_all
  moreover have "unat (op + of_nat i) < unat (brk (hp s))"
    using wf_block(4,5) [OF wf op] i by (subst unat_offset) simp_all
  ultimately show ?thesis using w by (simp add: writes_header_def)
qed

lemma data_mapped:
  assumes wf: "kwf os g s" and op: "blk g op = Some b" and n: "n \<le> capacity (unat (pagesz s)) b"
  shows "mapped (hp s) (op + sizeof_overhead) (of_nat n)"
proof -
  have e: "unat op + extent (unat (pagesz s)) b \<le> 2 ^ 47"
      "unat op + extent (unat (pagesz s)) b \<le> unat (brk (hp s))"
      "unat (heap_lo (hp s)) \<le> unat op"
    using wf_block [OF wf op] by simp_all
  then have "unat (op + 8) = unat op + 8" "unat (of_nat n :: u64) = n"
    using unat_offset [of op 8] unat_of_nat64 [of n] n extent_capacity [of "unat (pagesz s)" b]
    by simp_all
  then show ?thesis
    using e n extent_capacity [of "unat (pagesz s)" b] by (simp add: mapped_def sizeof_overhead_def)
qed

lemma freed_elsewhere:
  assumes wf: "kwf os g s" and op: "blk g op = Some b" and y: "blk g y = Some c"
    and i: "if y = op then 8 \<le> i \<and> i < extent (unat (pagesz s)) b else i < extent (unat (pagesz s)) c"
  shows "st64 (bytes (hp s)) op v (y + of_nat i) = bytes (hp s) (y + of_nat i)"
proof (cases "y = op")
  case True
  then have "unat (op + of_nat i - op) = i"
    using i wf_block(5) [OF wf op] by (simp add: unat_of_nat64 del: unsigned_of_nat)
  then show ?thesis using True i by (intro st64_outside) simp
next
  case False
  have "unat (y + of_nat i) = unat y + i"
    using wf_block(5) [OF wf y] i False by (intro unat_offset) simp
  moreover have "unat y + extent (unat (pagesz s)) c \<le> unat op \<or>
      unat op + extent (unat (pagesz s)) b \<le> unat y"
    using wf op y False unfolding kwf_def separate_def by blast
  moreover have "extent (unat (pagesz s)) b \<ge> 8" by (rule extent_ge_8)
  ultimately consider "unat (y + of_nat i) < unat op" | "unat op + 8 \<le> unat (y + of_nat i)"
    using i False by fastforce
  then show ?thesis
  proof cases
    case 1
    moreover have "unat op + 8 \<le> 2 ^ 64"
      using wf_block(5) [OF wf op] extent_ge_8 [of "unat (pagesz s)" b] by simp
    ultimately show ?thesis by (rule st64_below)
  next
    case 2
    then show ?thesis by (rule st64_above)
  qed
qed

lemma kfree_used:
  assumes wf: "kwf os g s" and op: "op \<in> used g" "blk g op = Some b"
  obtains s1 where "kfree (op + sizeof_overhead) s = Some s1" and "kwf os (free_block op g) s1"
    and "same_vars s s1" and "brk (hp s1) = brk (hp s)" and "heap_lo (hp s1) = heap_lo (hp s)"
    and "\<And>y c i. blk g y = Some c \<Longrightarrow> (if y = op then 8 \<le> i \<and> i < extent (unat (pagesz s)) b
           else i < extent (unat (pagesz s)) c) \<Longrightarrow>
         bytes (hp s1) (y + of_nat i) = bytes (hp s) (y + of_nat i)"
proof -
  let ?s1 = "s\<lparr>hp := (hp s)\<lparr>bytes := st64 (bytes (hp s)) op (nextf s ! b)\<rparr>,
    nextf := (nextf s)[b := op]\<rparr>"
  show ?thesis
    by (rule that [OF kfree_eq [OF wf op] kfree_wf [OF wf op]])
      (simp_all add: same_vars_def freed_elsewhere [OF wf op(2)])
qed

text \<open>An allocation leaves the contents of the blocks in use alone.\<close>

lemma kmalloc_kept:
  assumes wf: "kwf os g s" and wf': "kwf os g' s'" and sub: "blk g \<subseteq>\<^sub>m blk g'"
    and w: "writes_header (p - sizeof_overhead) s s'"
    and new: "if p = 0 then used g' = used g else allocates pg n g p g'"
  shows "kept g s s'"
  unfolding kept_def
proof (intro ballI allI impI, elim conjE)
  fix op b i
  assume op: "op \<in> used g" and blk: "blk g op = Some b" and i: "i < extent (unat (pagesz s)) b"
  show "bytes (hp s') (op + of_nat i) = bytes (hp s) (op + of_nat i)"
  proof (cases "p = 0")
    case True
    have lt: "unat (op + of_nat i) < unat (brk (hp s))"
      using wf_block(4,5) [OF wf blk] i by (subst unat_offset) simp_all
    then have "unat (op + of_nat i) < 2 ^ 47" using wf_brk [OF wf] by simp
    then have "op + of_nat i \<noteq> - 8" "op + of_nat i \<noteq> - 7" by auto
    then show ?thesis using w lt True by (simp add: writes_header_def sizeof_overhead_def)
  next
    case False
    then obtain op' b' where "p = op' + sizeof_overhead" "blk g' op' = Some b'" "op' \<notin> used g"
      using new by (auto simp: allocates_def)
    then show ?thesis
      using writes_header_block [OF wf _ blk _ _ sub wf' i] w op by auto
  qed
qed

definition reallocates ::
    "nat \<Rightarrow> nat \<Rightarrow> nat \<Rightarrow> ghost \<Rightarrow> u64 \<Rightarrow> kstate \<Rightarrow> u64 \<Rightarrow> ghost \<Rightarrow> kstate \<Rightarrow> bool" where
  "reallocates pg b n g op s p g' s' \<longleftrightarrow>
     allocates pg n (free_block op g) p g' \<and>
     (\<forall>i < min n (capacity pg b).
        bytes (hp s') (p + of_nat i) = bytes (hp s) (op + sizeof_overhead + of_nat i))"

lemma krealloc_moved:
  fixes n :: u64
  assumes wf2: "kwf os g2 s2" and al: "allocates (unat (pagesz s2)) (unat n) g p g2"
    and op: "blk g2 op = Some b" and m: "m \<le> capacity (unat (pagesz s2)) b" "m \<le> unat n"
  obtains h where "bcopy (op + sizeof_overhead) p (of_nat m) (hp s2) = Some h"
    and "kwf os g2 (s2\<lparr>hp := h\<rparr>)"
    and "\<And>i. i < m \<Longrightarrow> bytes h (p + of_nat i) = bytes (hp s2) (op + sizeof_overhead + of_nat i)"
    and "\<And>y c i. blk g2 y = Some c \<Longrightarrow> y + sizeof_overhead \<noteq> p \<Longrightarrow> i < extent (unat (pagesz s2)) c \<Longrightarrow>
      bytes h (y + of_nat i) = bytes (hp s2) (y + of_nat i)"
proof -
  obtain q c where q: "p = q + sizeof_overhead" "bucket_for (unat (pagesz s2)) (unat n) = Some c"
      "blk g2 q = Some c"
    using al by (auto simp: allocates_def)
  then have mc: "m \<le> capacity (unat (pagesz s2)) c" using m by (simp add: bucket_for_Some)
  have "m < 2 ^ 64" using m(2) unat_lt64 [of n] by simp
  then obtain h where h: "bcopy (op + sizeof_overhead) p (of_nat m) (hp s2) = Some h"
      "heap_lo h = heap_lo (hp s2)" "brk h = brk (hp s2)"
      "\<And>i. i < m \<Longrightarrow> bytes h (p + of_nat i) = bytes (hp s2) (op + sizeof_overhead + of_nat i)"
      "\<And>x. m \<le> unat (x - p) \<Longrightarrow> bytes h x = bytes (hp s2) x"
    using bcopy_bytes [OF data_mapped [OF wf2 op m(1)] data_mapped [OF wf2 q(3) mc]] q(1) by metis
  note fr = data_area_frame [OF wf2 q(3) mc h(2,3) h(5) [unfolded q(1)]]
  show ?thesis
    by (rule that [OF h(1) fr(1) h(4)]) (use fr(2) q(1) in auto)
qed

text \<open>A copy into the new block keeps the other blocks.\<close>

lemma kept_copy:
  assumes "kept g1 s s2" and al: "allocates (unat (pagesz s)) n g1 (q + sizeof_overhead) g2"
    and sub: "blk g1 \<subseteq>\<^sub>m blk g2"
    and frame: "\<And>y c i. blk g2 y = Some c \<Longrightarrow> y + sizeof_overhead \<noteq> q + sizeof_overhead \<Longrightarrow>
      i < extent (unat (pagesz s)) c \<Longrightarrow> bytes h (y + of_nat i) = bytes (hp s2) (y + of_nat i)"
  shows "kept g1 s (s2\<lparr>hp := h\<rparr>)"
  unfolding kept_def
proof (intro ballI allI impI, elim conjE)
  fix y d i assume y: "y \<in> used g1" "blk g1 y = Some d" "i < extent (unat (pagesz s)) d"
  have "y \<noteq> q" using y(1) al by (auto simp: allocates_def sizeof_overhead_def)
  then have "bytes h (y + of_nat i) = bytes (hp s2) (y + of_nat i)"
    using y(2,3) sub by (intro frame [of y d]) (auto simp: map_le_def dom_def)
  then show "bytes (hp (s2\<lparr>hp := h\<rparr>)) (y + of_nat i) = bytes (hp s) (y + of_nat i)"
    using assms(1) y by (simp add: kept_def)
qed

lemma krealloc_wf:
  assumes wf: "kwf os g s" and bt: "booted os s" and ok: "os_ok os"
    and op: "op \<in> used g" "blk g op = Some b" and n: "n \<noteq> 0"
    and other: "bucket_for (unat (pagesz s)) (unat n) \<noteq> Some b"
  shows "\<exists>p s' g'. krealloc os (op + sizeof_overhead) n s = Some (p, s') \<and> kwf os g' s' \<and>
    blk g \<subseteq>\<^sub>m blk g' \<and> same_vars s s' \<and> kept (free_block op g) s s' \<and>
    (if p = 0 then used g' = used g - {op}
     else reallocates (unat (pagesz s)) b (unat n) g op s p g' s')"
proof -
  let ?pg = "unat (pagesz s)" and ?g1 = "free_block op g"
  let ?m = "min (unat n) (capacity (unat (pagesz s)) b)"
  obtain s1 where s1: "kfree (op + sizeof_overhead) s = Some s1" "kwf os ?g1 s1" "same_vars s s1"
    and same1: "\<And>y c i. blk g y = Some c \<Longrightarrow> (if y = op then 8 \<le> i \<and> i < extent ?pg b
        else i < extent ?pg c) \<Longrightarrow> bytes (hp s1) (y + of_nat i) = bytes (hp s) (y + of_nat i)"
    using kfree_used [OF wf op] by metis
  have pg1: "pagesz s1 = pagesz s" using s1(3) by (simp add: same_vars_def)
  obtain p s2 g2 where s2: "kmalloc os n s1 = Some (p, s2)" "kwf os g2 s2" "blk ?g1 \<subseteq>\<^sub>m blk g2"
      "writes_header (p - sizeof_overhead) s1 s2"
      "if p = 0 then used g2 = used ?g1 else allocates ?pg (unat n) ?g1 p g2"
    using kmalloc_wf [OF s1(2) booted_same [OF bt s1(3)] ok] pg1 by metis
  have sub: "blk g \<subseteq>\<^sub>m blk g2" using s2(3) by (simp add: free_block_def)
  have vars: "same_vars s s2" using s1(3) s2(4) by (simp add: writes_header_def same_vars_def)
  have pg2: "pagesz s2 = pagesz s" using vars by (simp add: same_vars_def)
  have "kept ?g1 s s1" using same1 by (auto simp: kept_def free_block_def)
  moreover have "kept ?g1 s1 s2" by (rule kmalloc_kept [OF s1(2) s2(2,3,4,5)])
  ultimately have kept: "kept ?g1 s s2" by (rule kept_trans) (simp_all add: pg1)
  have eq: "krealloc os (op + sizeof_overhead) n s =
      (if p = 0 then Some (0, s2)
       else if op + sizeof_overhead \<noteq> p then do {
         h \<leftarrow> bcopy (op + sizeof_overhead) p (of_nat ?m) (hp s2); Some (p, s2\<lparr>hp := h\<rparr>) }
       else Some (p, s2))"
    unfolding krealloc_used_eq [OF wf op n] using other s1(1) s2(1) by simp
  show ?thesis
  proof (cases "p = 0")
    case True
    then show ?thesis using eq s2 sub vars kept by (auto simp: free_block_def)
  next
    case False
    then have al: "allocates ?pg (unat n) ?g1 p g2" using s2(5) by simp
    then obtain q c where q: "p = q + sizeof_overhead" "bucket_for ?pg (unat n) = Some c"
        "blk g2 q = Some c"
      by (auto simp: allocates_def)
    have opb: "blk g2 op = Some b" using op(2) sub by (auto simp: map_le_def dom_def)
    have ne: "op \<noteq> q" using opb q other by auto
    obtain h where h: "bcopy (op + sizeof_overhead) p (of_nat ?m) (hp s2) = Some h"
        "kwf os g2 (s2\<lparr>hp := h\<rparr>)"
      and copied: "\<And>i. i < ?m \<Longrightarrow>
        bytes h (p + of_nat i) = bytes (hp s2) (op + sizeof_overhead + of_nat i)"
      and frame: "\<And>y c i. blk g2 y = Some c \<Longrightarrow> y + sizeof_overhead \<noteq> p \<Longrightarrow> i < extent ?pg c \<Longrightarrow>
        bytes h (y + of_nat i) = bytes (hp s2) (y + of_nat i)"
      using krealloc_moved [OF s2(2) al [folded pg2] opb, of ?m] pg2 by (metis min.cobounded1 min.cobounded2)
    have "krealloc os (op + sizeof_overhead) n s = Some (p, s2\<lparr>hp := h\<rparr>)"
      using eq False ne q(1) h(1) by simp
    moreover have "reallocates ?pg b (unat n) g op s p g2 (s2\<lparr>hp := h\<rparr>)"
      unfolding reallocates_def
    proof (intro conjI allI impI)
      fix i assume i: "i < ?m"
      then have e: "8 + i < extent ?pg b" using extent_capacity [of ?pg b] by simp
      have "bytes (hp s2) (op + of_nat (8 + i)) = bytes (hp s1) (op + of_nat (8 + i))"
        using e pg1 op(2) s2(3,4) q(1)
        by (intro writes_header_block [OF s1(2) _ _ q(3) ne _ s2(2)]) (simp_all add: free_block_def)
      moreover have "bytes (hp s1) (op + of_nat (8 + i)) = bytes (hp s) (op + of_nat (8 + i))"
        using e by (intro same1 [OF op(2)]) simp
      ultimately show "bytes (hp (s2\<lparr>hp := h\<rparr>)) (p + of_nat i) =
          bytes (hp s) (op + sizeof_overhead + of_nat i)"
        using copied [OF i] by (simp add: sizeof_overhead_def algebra_simps)
    qed (rule al)
    moreover have "kept ?g1 s (s2\<lparr>hp := h\<rparr>)"
      using kept_copy [OF kept al [unfolded q(1)] s2(3)] frame q(1) by blast
    ultimately show ?thesis using h(2) sub vars False
      by (intro exI [of _ p] exI [of _ "s2\<lparr>hp := h\<rparr>"] exI [of _ g2]) (simp add: same_vars_def)
  qed
qed

end
