(* ===== verification/Kmalloc_Freed.thy ===== *)
theory Kmalloc_Freed
  imports Kmalloc_Realloc
begin

text \<open>
  \<open>krealloc\<close> of a block that is already free, the storage compaction the comment in front of it
  describes. \<open>findbucket\<close> is a bounded linear search of the free lists; a block it finds is
  handled like one in use, except that it is not freed again; for a block it does not find the
  code computes \<open>1 << (NBUCKETS + 3)\<close>, which is undefined.
\<close>

section \<open>findbucket\<close>

lemma findbucket_walk_chain:
  assumes "chain (ld64 (bytes (hp s))) p xs" and "\<And>x. x \<in> set xs \<Longrightarrow> mapped (hp s) x 8"
    and "unat j \<le> unat srchlen"
  shows "findbucket_walk s freep srchlen p j =
    Some (freep \<in> set (take (unat srchlen - unat j) xs))"
  using assms
proof (induction xs arbitrary: p j)
  case Nil
  then show ?case by (subst findbucket_walk.simps) simp
next
  case (Cons x xs)
  then have x: "p = x" "x \<noteq> 0" "chain (ld64 (bytes (hp s))) (ld64 (bytes (hp s)) x) xs"
      "ov_next s x = Some (ld64 (bytes (hp s)) x)"
    by (auto simp: ov_next_def rd64_def)
  show ?case
  proof (cases "j = srchlen")
    case True
    then show ?thesis by (subst findbucket_walk.simps) simp
  next
    case False
    then have lt: "unat j < unat srchlen" using Cons.prems(3) by (metis le_neq_implies_less unat_eqI)
    then have j: "unat (j + 1) = Suc (unat j)"
      using unat_lt32 [of srchlen] by (simp add: unat_word_ariths)
    have "findbucket_walk s freep srchlen (ld64 (bytes (hp s)) x) (j + 1) =
        Some (freep \<in> set (take (unat srchlen - unat (j + 1)) xs))"
      using Cons.prems(2) lt j by (intro Cons.IH x(3)) simp_all
    moreover have "unat srchlen - unat j = Suc (unat srchlen - unat (j + 1))" using lt j by simp
    ultimately show ?thesis using False x(1,2,4) by (subst findbucket_walk.simps) auto
  qed
qed

text \<open>The lists searched in turn; a list that does not hold the block within the length is passed over.\<close>

lemma findbucket_in_skip:
  assumes "\<And>i. i \<in> set is \<Longrightarrow> \<exists>p. nextf_at s i = Some p \<and> findbucket_walk s f l p 0 = Some False"
  shows "findbucket_in s f l (is @ js) = findbucket_in s f l js"
  using assms by (induction "is") force+

lemma findbucket_free:
  assumes wf: "kwf os g s" and op: "op \<in> free_of g b"
    and xs: "chain (ld64 (bytes (hp s))) (nextf s ! b) xs"
  shows "findbucket s op l = Some (if op \<in> set (take (unat l) xs) then of_nat b else - 1)"
proof -
  let ?ld = "ld64 (bytes (hp s))"
  have blk: "blk g op = Some b" using op by (simp add: free_of_def)
  have b: "b < NBUCKETS" using wf_block(1) [OF wf blk] by (simp add: NBUCKETS_def)
  have walk: "findbucket_walk s op l (nextf s ! c) 0 = Some (op \<in> set (take (unat l) ys))"
    if "chain ?ld (nextf s ! c) ys" "set ys = free_of g c" for c ys
  proof -
    have "mapped (hp s) x 8" if "x \<in> set ys" for x
      using that \<open>set ys = _\<close> wf_header_mapped(1) [OF wf] by (auto simp: free_of_def)
    then show ?thesis using findbucket_walk_chain [OF that(1), of 0 l op] by simp
  qed
  have other: "\<exists>p. nextf_at s c = Some p \<and> findbucket_walk s op l p 0 = Some False"
    if c: "c < NBUCKETS" "c \<noteq> b" for c
  proof -
    obtain ys where ys: "chain ?ld (nextf s ! c) ys" "set ys = free_of g c"
      by (rule wf_list [OF wf c(1)])
    have "op \<notin> set (take (unat l) ys)"
      using ys(2) blk c(2) in_set_takeD [of op "unat l" ys] by (auto simp: free_of_def)
    then show ?thesis using walk [OF ys] wf_nextf_at [OF wf c(1)] by simp
  qed
  obtain zs where zs: "chain ?ld (nextf s ! b) zs" "set zs = free_of g b"
    by (rule wf_list [OF wf b])
  have "zs = xs" using zs(1) xs by (rule chain_unique)
  then have hit: "findbucket_walk s op l (nextf s ! b) 0 = Some (op \<in> set (take (unat l) xs))"
    using walk [OF zs] by simp
  have "[0..<NBUCKETS] = [0..<b] @ b # [Suc b..<NBUCKETS]"
    using upt_add_eq_append [of 0 b "NBUCKETS - b"] upt_conv_Cons [OF b] b by simp
  then have "findbucket s op l = findbucket_in s op l (b # [Suc b..<NBUCKETS])"
    unfolding findbucket_def using b other by (simp only:) (rule findbucket_in_skip, auto)
  moreover have "findbucket_in s op l ([Suc b..<NBUCKETS] @ []) = findbucket_in s op l []"
    using other by (intro findbucket_in_skip) auto
  ultimately show ?thesis using hit wf_nextf_at [OF wf b] by simp
qed


section \<open>krealloc of a free block\<close>

text \<open>The lookup: found within the longer of the two search lengths, or reported as \<open>NBUCKETS\<close>.\<close>

lemma krealloc_lookup_free:
  assumes wf: "kwf os g s" and op: "op \<in> free_of g b"
    and xs: "chain (ld64 (bytes (hp s))) (nextf s ! b) xs"
  shows "krealloc_lookup op s = Some (False,
    if op \<in> set (take 1 xs) \<or> op \<in> set (take (unat (realloc_srchlen s)) xs) then of_nat b
    else of_nat NBUCKETS)"
proof -
  have blk: "blk g op = Some b" using op by (simp add: free_of_def)
  have b: "b < 28" using wf_block(1) [OF wf blk] .
  have pos: "\<not> (of_nat b :: u32) <s 0"
    using b by (subst sless_unat32) (simp_all add: unat_of_nat32)
  have long: "int_to_long (of_nat b) = of_nat b"
    using b by (subst int_to_long_of_nat) (simp_all add: unat_of_nat32)
  have neg: "(- 1 :: u32) <s 0" by (simp add: word_sless_alt)
  have "ov_magic s op = Some (bytes (hp s) op)"
    using wf_header_mapped [OF wf blk] by (simp add: ov_magic_def rd8_def)
  moreover have "bytes (hp s) op \<noteq> MAGIC" by (rule free_not_magic [OF wf op])
  ultimately show ?thesis
    using pos neg long
    by (simp add: krealloc_lookup_def findbucket_free [OF wf op xs])
qed

lemma krealloc_free_eq:
  assumes wf: "kwf os g s" and op: "op \<in> free_of g b" and n: "n \<noteq> 0"
    and look: "krealloc_lookup op s = Some (False, of_nat b)"
  shows "krealloc os (op + sizeof_overhead) n s = do {
     (res, s2) \<leftarrow> kmalloc os n s;
     if res = 0 then Some (0, s2)
     else if op + sizeof_overhead \<noteq> res then do {
       h \<leftarrow> bcopy (op + sizeof_overhead) res
         (of_nat (min (unat n) (capacity (unat (pagesz s)) b))) (hp s2);
       Some (res, s2\<lparr>hp := h\<rparr>)
     } else Some (res, s2) }"
proof -
  let ?pg = "unat (pagesz s)"
  have blk: "blk g op = Some b" using op by (simp add: free_of_def)
  have pd: "paged os s" using wf by (simp add: kwf_def)
  have pg: "?pg \<le> 2 ^ 30" using paged_page [OF pd] by metis
  have b: "b < 28" using wf_block(1) [OF wf blk] .
  have cap: "unat (of_nat (capacity ?pg b) :: u64) = capacity ?pg b"
    using capacity_bound [OF b pg] by (intro unat_of_nat64) simp
  have len: "(if n < of_nat (capacity ?pg b) then n else of_nat (capacity ?pg b)) =
      of_nat (min (unat n) (capacity ?pg b))"
    using cap by (auto simp: word_less_nat_alt min_def)
  have nz: "(op + sizeof_overhead = 0) = False" "(n = 0) = False"
    using nonnull_result [OF wf blk] n by simp_all
  have cp: "op + sizeof_overhead - sizeof_overhead = op" by simp
  show ?thesis
    by (simp only: krealloc_def nz cp look krealloc_onb_eq [OF pd b] len
        Option.bind.simps prod.case if_True if_False)
qed

text \<open>A block the search misses: the shift by \<open>NBUCKETS + 3\<close> is undefined.\<close>

lemma krealloc_missed:
  assumes wf: "kwf os g s" and op: "op \<in> free_of g b" and n: "n \<noteq> 0"
    and look: "krealloc_lookup op s = Some (False, of_nat NBUCKETS)"
  shows "krealloc os (op + sizeof_overhead) n s = None"
proof -
  have "op + sizeof_overhead \<noteq> 0"
    using nonnull_result [OF wf] op by (simp add: free_of_def)
  moreover have "krealloc_onb (of_nat NBUCKETS) s = None"
    by (simp add: krealloc_onb_def int_shl1_def NBUCKETS_def)
  ultimately show ?thesis using n look by (simp add: krealloc_def)
qed

text \<open>A found block: the allocation made for it gets its contents.\<close>

text \<open>\<open>kmalloc\<close> keeps the data area of every block, that of the one it hands out included.\<close>

lemma data_kept:
  assumes wf: "kwf os g s" and wf2: "kwf os g2 s2" and sub: "blk g \<subseteq>\<^sub>m blk g2"
    and w: "writes_header q s s2" and q: "blk g2 q = Some c"
    and blk: "blk g op = Some b" and i: "i < capacity (unat (pagesz s)) b"
  shows "bytes (hp s2) (op + of_nat (8 + i)) = bytes (hp s) (op + of_nat (8 + i))"
proof (cases "q = op")
  case False
  have "8 + i < extent (unat (pagesz s)) b" using i extent_capacity [of "unat (pagesz s)" b] by simp
  then show ?thesis
    using w False by (intro writes_header_block [OF wf _ blk q _ sub wf2]) simp_all
next
  case True
  have e: "8 + i < extent (unat (pagesz s)) b" using i extent_capacity [of "unat (pagesz s)" b] by simp
  then have "unat (op + of_nat (8 + i)) = unat op + (8 + i)"
    using wf_block(5) [OF wf blk] by (intro unat_offset) simp
  moreover have "unat (op + 1) = unat op + 1"
    using wf_block(5) [OF wf blk] e unat_offset [of op 1] by simp
  moreover from this have "x \<noteq> op" "x \<noteq> op + 1" if "unat x = unat op + (8 + i)" for x
    using that by auto
  ultimately have "op + of_nat (8 + i) \<noteq> op" "op + of_nat (8 + i) \<noteq> op + 1"
      "unat (op + of_nat (8 + i)) < unat (brk (hp s))"
    using wf_block(4) [OF wf blk] e by (blast, blast, linarith)
  then show ?thesis using w True by (simp add: writes_header_def)
qed

lemma krealloc_found:
  assumes wf: "kwf os g s" and bt: "booted os s" and ok: "os_ok os"
    and op: "op \<in> free_of g b" and n: "n \<noteq> 0"
    and look: "krealloc_lookup op s = Some (False, of_nat b)"
  shows "\<exists>p s' g'. krealloc os (op + sizeof_overhead) n s = Some (p, s') \<and> kwf os g' s' \<and>
    blk g \<subseteq>\<^sub>m blk g' \<and> same_vars s s' \<and>
    (p = 0 \<longleftrightarrow> exhausted os s (unat n)) \<and>
    (if p = 0 then used g' = used g
     else allocates (unat (pagesz s)) (unat n) g p g' \<and>
       (\<forall>i < min (unat n) (capacity (unat (pagesz s)) b).
          bytes (hp s') (p + of_nat i) = bytes (hp s) (op + sizeof_overhead + of_nat i)))"
proof -
  let ?pg = "unat (pagesz s)" and ?m = "min (unat n) (capacity (unat (pagesz s)) b)"
  have blk: "blk g op = Some b" using op by (simp add: free_of_def)
  obtain p s2 g2 where s2: "kmalloc os n s = Some (p, s2)" "kwf os g2 s2" "blk g \<subseteq>\<^sub>m blk g2"
      "writes_header (p - sizeof_overhead) s s2" "p = 0 \<longleftrightarrow> exhausted os s (unat n)"
      "if p = 0 then used g2 = used g else allocates ?pg (unat n) g p g2"
    using kmalloc_wf [OF wf bt ok] by metis
  note eq = krealloc_free_eq [OF wf op n look]
  have vars: "same_vars s s2" using s2(4) by (simp add: writes_header_def)
  then have pg2: "pagesz s2 = pagesz s" by (simp add: same_vars_def)
  show ?thesis
  proof (cases "p = 0")
    case True
    then show ?thesis using eq s2 vars by auto
  next
    case False
    then have al: "allocates ?pg (unat n) g p g2" using s2(6) by simp
    then obtain q c where q: "p = q + sizeof_overhead" "blk g2 q = Some c"
      by (auto simp: allocates_def)
    have opb: "blk g2 op = Some b" using blk s2(3) by (auto simp: map_le_def dom_def)
    have data: "bytes (hp s2) (op + of_nat (8 + i)) = bytes (hp s) (op + of_nat (8 + i))"
      if "i < ?m" for i
      using that s2(4) q(1) by (intro data_kept [OF wf s2(2,3) _ q(2) blk]) simp_all
    show ?thesis
    proof (cases "op + sizeof_overhead = p")
      case True
      then have "krealloc os (op + sizeof_overhead) n s = Some (p, s2)" using eq s2(1) False by simp
      moreover have "bytes (hp s2) (p + of_nat i) = bytes (hp s) (op + sizeof_overhead + of_nat i)"
        if "i < ?m" for i
        using data [OF that] unfolding True [symmetric]
        by (simp add: sizeof_overhead_def algebra_simps)
      ultimately show ?thesis using s2 vars al False by auto
    next
      case ne: False
      obtain h where h: "bcopy (op + sizeof_overhead) p (of_nat ?m) (hp s2) = Some h"
          "kwf os g2 (s2\<lparr>hp := h\<rparr>)"
        and copied: "\<And>i. i < ?m \<Longrightarrow>
          bytes h (p + of_nat i) = bytes (hp s2) (op + sizeof_overhead + of_nat i)"
        using krealloc_moved [OF s2(2) al [folded pg2] opb, of ?m] pg2
        by (metis min.cobounded1 min.cobounded2)
      have "krealloc os (op + sizeof_overhead) n s = Some (p, s2\<lparr>hp := h\<rparr>)"
        using eq s2(1) False ne h(1) by simp
      moreover have "bytes h (p + of_nat i) = bytes (hp s) (op + sizeof_overhead + of_nat i)"
        if "i < ?m" for i
        using copied [OF that] data [OF that] by (simp add: sizeof_overhead_def algebra_simps)
      ultimately show ?thesis using h(2) s2(3,5) vars al False
        by (intro exI [of _ p] exI [of _ "s2\<lparr>hp := h\<rparr>"] exI [of _ g2]) (simp add: same_vars_def)
    qed
  qed
qed

text \<open>
  Storage compaction: the block freed last stays where it is when the new size belongs to its
  bucket, with its contents.
\<close>

lemma kfree_krealloc_in_place:
  assumes wf: "kwf os g s" and bt: "booted os s" and ok: "os_ok os"
    and op: "op \<in> used g" "blk g op = Some b"
    and n: "n \<noteq> 0" "bucket_for (unat (pagesz s)) (unat n) = Some b"
  shows "\<exists>s1 s2. kfree (op + sizeof_overhead) s = Some s1 \<and>
    krealloc os (op + sizeof_overhead) n s1 = Some (op + sizeof_overhead, s2) \<and> kwf os g s2"
proof -
  let ?s1 = "s\<lparr>hp := (hp s)\<lparr>bytes := st64 (bytes (hp s)) op (nextf s ! b)\<rparr>,
    nextf := (nextf s)[b := op]\<rparr>"
  let ?g1 = "free_block op g"
  have b: "b < 28" "b < NBUCKETS" using wf_block(1) [OF wf op(2)] by (simp_all add: NBUCKETS_def)
  have wf1: "kwf os ?g1 ?s1" by (rule kfree_wf [OF wf op])
  have fr: "op \<in> free_of ?g1 b" using op by (simp add: free_of_def free_block_def)
  have hd: "nextf ?s1 ! b = op" using b wf_nextf_length [OF wf] by simp
  obtain xs where xs: "chain (ld64 (bytes (hp ?s1))) (nextf ?s1 ! b) xs"
    using wf_list [OF wf1 b(2)] by metis
  then obtain ys where "xs = op # ys" using hd wf_block_nonnull [OF wf op(2)] chain_nonnull by metis
  then have "krealloc_lookup op ?s1 = Some (False, of_nat b)"
    using krealloc_lookup_free [OF wf1 fr xs] by simp
  note eq = krealloc_free_eq [OF wf1 fr n(1) this]
  have "\<exists>s2. kmalloc os n ?s1 = Some (op + sizeof_overhead, s2) \<and> kwf os g s2"
    using kfree_kmalloc_reuse [OF wf bt op n(2)] kfree_eq [OF wf op] by auto
  then show ?thesis
    using eq kfree_eq [OF wf op] nonnull_result [OF wf op(2)] by auto
qed

end
