(* ===== verification/Kmalloc_Calloc.thy ===== *)
theory Kmalloc_Calloc
  imports Kmalloc_Freed
begin

text \<open>
  \<open>kcalloc\<close>, and the two places where the allocator does not do what it should: \<open>kcalloc\<close> hands
  the result of \<open>kmalloc\<close> to \<open>memset\<close> without looking at it, and a refused first call leaves
  \<open>pagesz\<close> set and \<open>pagebucket\<close> unset.
\<close>

section \<open>kcalloc\<close>

lemma memset_null:
  assumes "kwf os g s" and "n \<noteq> 0"
  shows "memset 0 v n (hp s) = None"
  using assms by (auto simp: memset_def mapped_def kwf_def heap_ok_def)

lemma memset_block:
  assumes wf: "kwf os g s" and op: "blk g op = Some b" and m: "m \<le> capacity (unat (pagesz s)) b"
    and m64: "m < 2 ^ 64"
  obtains h where "memset (op + sizeof_overhead) v (of_nat m) (hp s) = Some h"
    and "kwf os g (s\<lparr>hp := h\<rparr>)"
    and "\<And>i. i < m \<Longrightarrow> bytes h (op + sizeof_overhead + of_nat i) = v"
    and "\<And>y c i. blk g y = Some c \<Longrightarrow> y \<noteq> op \<Longrightarrow> i < extent (unat (pagesz s)) c \<Longrightarrow>
      bytes h (y + of_nat i) = bytes (hp s) (y + of_nat i)"
proof -
  let ?p = "op + sizeof_overhead"
  let ?h = "if m = 0 then hp s else (hp s)\<lparr>bytes := fill (bytes (hp s)) ?p v (of_nat m)\<rparr>"
  have um: "unat (of_nat m :: u64) = m" using m64 by (rule unat_of_nat64)
  have nz: "(of_nat m :: u64) = 0 \<longleftrightarrow> m = 0" using m64 by (rule of_nat_u64_0)
  have "memset ?p v (of_nat m) (hp s) = Some ?h"
    using data_mapped [OF wf op m] by (simp only: memset_def nz split: if_split) simp
  moreover have same: "heap_lo ?h = heap_lo (hp s)" "brk ?h = brk (hp s)" by simp_all
  moreover have out: "bytes ?h x = bytes (hp s) x" if "m \<le> unat (x - ?p)" for x
    using that um by (simp add: fill_def del: unsigned_of_nat)
  moreover have "bytes ?h (?p + of_nat i) = v" if "i < m" for i
  proof -
    have "unat (of_nat i :: u64) = i" using that m64 by (intro unat_of_nat64) simp
    then show ?thesis using that um by (simp add: fill_def del: unsigned_of_nat)
  qed
  ultimately show ?thesis
    using data_area_frame [OF wf op m same out] by (intro that [of ?h]) blast+
qed

lemma kcalloc_wf:
  assumes wf: "kwf os g s" and bt: "booted os s" and ok: "os_ok os"
    and room: "\<not> exhausted os s (unat (nelem * elsize))"
  shows "\<exists>p s' g'. kcalloc os nelem elsize s = Some (p, s') \<and> p \<noteq> 0 \<and> kwf os g' s' \<and>
    blk g \<subseteq>\<^sub>m blk g' \<and> same_vars s s' \<and> kept g s s' \<and>
    allocates (unat (pagesz s)) (unat (nelem * elsize)) g p g' \<and>
    (\<forall>i < unat (nelem * elsize). bytes (hp s') (p + of_nat i) = 0)"
proof -
  let ?m = "unat (nelem * elsize)" and ?pg = "unat (pagesz s)"
  obtain p s2 g2 where s2: "kmalloc os (nelem * elsize) s = Some (p, s2)" "kwf os g2 s2"
      "blk g \<subseteq>\<^sub>m blk g2" "writes_header (p - sizeof_overhead) s s2"
      "p = 0 \<longleftrightarrow> exhausted os s ?m"
      "if p = 0 then used g2 = used g else allocates ?pg ?m g p g2"
    using kmalloc_wf [OF wf bt ok] by metis
  have p: "p \<noteq> 0" using s2(5) room by simp
  then have al: "allocates ?pg ?m g p g2" using s2(6) by simp
  then obtain q c where q: "p = q + sizeof_overhead" "bucket_for ?pg ?m = Some c" "blk g2 q = Some c"
      "q \<notin> used g"
    by (auto simp: allocates_def)
  have vars: "same_vars s s2" using s2(4) by (simp add: writes_header_def)
  then have pg2: "pagesz s2 = pagesz s" by (simp add: same_vars_def)
  have mc: "?m \<le> capacity (unat (pagesz s2)) c" using q(2) pg2 by (simp add: bucket_for_Some)
  have m: "of_nat ?m = nelem * elsize" by (rule unat_eqI, rule unat_of_nat64) (use unat_lt64 in simp)
  have m64: "?m < 2 ^ 64" using unat_lt64 [of "nelem * elsize"] by simp
  obtain h where h: "memset p 0 (nelem * elsize) (hp s2) = Some h" "kwf os g2 (s2\<lparr>hp := h\<rparr>)"
      "\<And>i. i < ?m \<Longrightarrow> bytes h (p + of_nat i) = 0"
      "\<And>y c i. blk g2 y = Some c \<Longrightarrow> y \<noteq> q \<Longrightarrow> i < extent ?pg c \<Longrightarrow>
        bytes h (y + of_nat i) = bytes (hp s2) (y + of_nat i)"
    using memset_block [OF s2(2) q(3) mc m64, of 0] unfolding m pg2 q(1) by metis
  have "kcalloc os nelem elsize s = Some (p, s2\<lparr>hp := h\<rparr>)"
    using s2(1) h(1) by (simp add: kcalloc_def)
  moreover have "kept g s s2" by (rule kmalloc_kept [OF wf s2(2,3,4,6)])
  then have "kept g s (s2\<lparr>hp := h\<rparr>)"
    using h(4) q(4) s2(3) unfolding kept_def map_le_def by (fastforce simp: dom_def)
  ultimately show ?thesis
    using p h(2,3) s2(3) vars al
    by (intro exI [of _ p] exI [of _ "s2\<lparr>hp := h\<rparr>"] exI [of _ g2]) (simp add: same_vars_def)
qed

text \<open>When the request cannot be served, \<open>memset\<close> writes through the null pointer.\<close>

lemma kcalloc_fault:
  assumes wf: "kwf os g s" and bt: "booted os s" and ok: "os_ok os"
    and full: "exhausted os s (unat (nelem * elsize))" and nz: "nelem * elsize \<noteq> 0"
  shows "kcalloc os nelem elsize s = None"
proof -
  obtain p s2 g2 where s2: "kmalloc os (nelem * elsize) s = Some (p, s2)" "kwf os g2 s2"
      "p = 0 \<longleftrightarrow> exhausted os s (unat (nelem * elsize))"
    using kmalloc_wf [OF wf bt ok] by metis
  then show ?thesis using memset_null [OF s2(2) nz] full by (simp add: kcalloc_def)
qed

section \<open>A refused first call\<close>

text \<open>
  What \<open>kmalloc\<close> leaves when the system refuses to move the break: the next call takes the
  setup for done, while \<open>pagebucket\<close> is still 0.
\<close>

definition refused :: "os \<Rightarrow> heap \<Rightarrow> kstate" where
  "refused os h = (kinit h)\<lparr>pagesz := page_size os, hp := h\<lparr>calls := Suc (calls h)\<rparr>\<rparr>"

lemma kmalloc_refused:
  assumes "os_ok os" and "\<not> boots os h"
  shows "kmalloc os n (kinit h) = Some (0, refused os h)"
  using setup_refused [OF assms] by (simp add: kmalloc_def refused_def)

lemma refused_bucket:
  assumes ok: "os_ok os" and n: "unat (page_size os) - 8 < unat n" "unat n \<le> 2 * unat (page_size os) - 8"
  shows "kmalloc_bucket (refused os h) n = Some 0"
proof -
  obtain k where k: "4 \<le> k" "k \<le> 30" "unat (page_size os) = 2 ^ k"
    using ok by (auto simp: os_ok_def)
  let ?p = "page_size os"
  have ps: "pagesz (refused os h) = ?p" "pagebucket (refused os h) = 0"
    by (simp_all add: refused_def kinit_def)
  have low: "unat (int_to_long ?p - sizeof_overhead - RSLOP) = 2 ^ k - 8"
    using page_less_header(1) [OF k(3,1,2)] .
  have "unat (uint_to_long ?p + (int_to_long ?p - sizeof_overhead - RSLOP)) = 2 ^ (k - 3 + 3) + 2 ^ k - 8"
    using k by (intro large_limit) (simp_all add: k(3))
  then have high: "unat (uint_to_long ?p + (int_to_long ?p - sizeof_overhead - RSLOP)) = 2 * 2 ^ k - 8"
    using k(1) by simp
  have "\<not> n \<le> int_to_long ?p - sizeof_overhead - RSLOP"
    using n k(3) by (simp only: word_le_nat_alt low)
  moreover have "\<not> n > uint_to_long ?p + (int_to_long ?p - sizeof_overhead - RSLOP)"
    using n k(3) by (simp only: word_less_nat_alt high)
  ultimately show ?thesis
    by (simp add: kmalloc_bucket_def Let_def ps size_loop.simps)
qed

text \<open>
  A request of about a page then gets a block of bucket 0, of eight bytes with the header: the
  address returned is the head of free list 0.
\<close>

lemma after_refused:
  assumes ok: "os_ok os" and h: "start_ok h"
    and n: "unat (page_size os) - 8 < unat n" "unat n \<le> 2 * unat (page_size os) - 8"
    and gr: "grants os (Suc (calls h)) (brk h) (of_nat (unat (page_size os)))"
  shows "\<exists>s. kmalloc os n (refused os h) = Some (brk h + 8, s) \<and> nextf s ! 0 = brk h + 8"
proof -
  let ?s = "refused os h" and ?pg = "unat (page_size os)" and ?op = "brk h"
  obtain k where k: "4 \<le> k" "k \<le> 30" "?pg = 2 ^ k" "16 \<le> ?pg" "?pg \<le> 2 ^ 30"
    using page_facts [OF ok] by metis
  have pd: "paged os ?s" using k by (auto simp: paged_def refused_def kinit_def)
  have ps: "pagesz ?s = page_size os" "brk (hp ?s) = ?op" "calls (hp ?s) = Suc (calls h)"
      "nextf ?s = replicate NBUCKETS 0" "heap_lo (hp ?s) = heap_lo h"
    by (simp_all add: refused_def kinit_def)
  have set_up: "kmalloc_setup os ?s = Some (True, ?s)"
    using k(4) by (simp add: kmalloc_setup_def ps(1)) auto
  have A: "amount ?pg 0 = ?pg" "nblks_of ?pg 0 = ?pg div 8" using k(4) by (simp_all add: amount_def nblks_of_def)
  have pgb: "0 < ?pg" "?pg < 2 ^ 63" using k(4,5) by simp_all
  note sb = sbrk_granted [OF ok _ pgb, of "hp ?s", unfolded ps, OF gr]
  let ?h = "(hp ?s)\<lparr>brk := ?op + of_nat ?pg, calls := Suc (Suc (calls h)),
    bytes := fill (bytes (hp ?s)) ?op 0 (of_nat ?pg)\<rparr>"
  let ?s1 = "?s\<lparr>hp := ?h, nextf := (replicate NBUCKETS 0)[0 := ?op]\<rparr>"
  have nz: "?op \<noteq> 0" "?op \<noteq> - 1" using h unat_minus1_u64 by (auto simp: start_ok_def)
  have "2 * 8 \<le> ?pg" using k(4) by simp
  then have "2 \<le> ?pg div 8" by (simp only: less_eq_div_iff_mult_less_eq)
  then obtain j where j: "?pg div 8 = Suc (Suc j)" by (metis le_Suc_ex add_2_eq_Suc)
  have fill: "Suc (Suc j) * 8 \<le> ?pg" unfolding j [symmetric] by simp
  have "?pg div 8 < 2 ^ 31" using k(5) by simp
  then have cnt: "unat (of_nat (?pg div 8) :: u32) = Suc (Suc j)" "Suc (Suc j) < 2 ^ 31"
    unfolding j by (simp_all add: unat_of_nat32 del: of_nat_Suc)
  have "\<exists>m. carve ?op (of_nat 8) (of_nat (?pg div 8)) ?s1 = Some (?s1\<lparr>hp := (hp ?s1)\<lparr>bytes := m\<rparr>\<rparr>) \<and>
    chain (ld64 m) ?op (run ?op 8 (Suc (Suc j))) \<and>
    (\<forall>x. unat x < unat ?op \<longrightarrow> m x = bytes (hp ?s1) x)"
  proof (rule carve_spec [OF cnt])
    fix x :: u64 assume "unat ?op \<le> unat x" "unat x < unat ?op + Suc (Suc j) * 8"
    then show "bytes (hp ?s1) x = 0" using sb(5) fill by simp
  qed (use h ps(5) sb(2,3) fill in \<open>simp_all add: start_ok_def\<close>)
  then obtain m where m: "carve ?op 8 (of_nat (?pg div 8)) ?s1 = Some (?s1\<lparr>hp := ?h\<lparr>bytes := m\<rparr>\<rparr>)"
      "ld64 m ?op = ?op + 8"
    by auto
  have u0: "unat (pagesz ?s) = ?pg" using ps(1) by simp
  have "morecore os (of_nat 0) ?s = Some (?s1\<lparr>hp := ?h\<lparr>bytes := m\<rparr>\<rparr>)"
    unfolding morecore_eq [OF pd zero_less_numeral] u0 A
    using sb(1) nz(2) m(1) by (simp add: set_nextf_def ps(4) NBUCKETS_def Let_def)
  moreover have at: "nextf_at ?s 0 = Some 0" by (simp add: nextf_at_def ps(4) NBUCKETS_def)
  moreover have "unat (?op + 1) = unat ?op + 1" using sb(2) pgb unat_offset [of ?op 1] by simp
  then have "mapped (?h\<lparr>bytes := m'\<rparr>) ?op 8" "mapped (?h\<lparr>bytes := m'\<rparr>) ?op 1"
      "mapped (?h\<lparr>bytes := m'\<rparr>) (?op + 1) 1" for m'
    using h ps(5) sb(3) k(4) by (simp_all add: mapped_def start_ok_def)
  ultimately have "\<exists>s'. kmalloc_take os 0 ?s = Some (?op + 8, s') \<and> nextf s' ! 0 = ?op + 8"
    using nz(1) m(2)
    by (simp add: kmalloc_take_def nextf_at_def set_nextf_def ov_next_def rd64_def hp_update_simps
        sizeof_overhead_def NBUCKETS_def del: mapped_bytes)
  moreover have "kmalloc os n ?s = kmalloc_take os 0 ?s"
    by (simp add: kmalloc_def set_up refused_bucket [OF ok n])
  ultimately show ?thesis by simp
qed

end
