(* ===== verification/Allocator.thy ===== *)
theory Allocator
  imports C_Heap
begin

text \<open>
  What a client may expect of an allocator. The abstract state of a client is the map of its live
  objects, from addresses to contents; the calls it makes are allocations, releases and stores of
  one byte. The locale states the laws of an allocator, and its lemmas show once that any sequence
  of calls runs without fault and behaves as on the abstract objects: objects do not move, do not
  overlap and keep what was stored in them.
\<close>

section \<open>Clients\<close>

datatype 'r call = Alloc 'r | Release u64 | Store u64 nat u8

text \<open>
  A client only releases what is live and only stores into its objects: \<^term>\<open>Release\<close> and
  \<^term>\<open>Store\<close> of anything else are not made. \<open>L\<close> holds the live objects with their sizes.
\<close>

fun serve ::
    "('r \<Rightarrow> 's \<Rightarrow> (u64 \<times> 's) option) \<Rightarrow> (u64 \<Rightarrow> 's \<Rightarrow> 's option) \<Rightarrow> (u64 \<Rightarrow> u8 \<Rightarrow> 's \<Rightarrow> 's option) \<Rightarrow>
     ('r \<Rightarrow> nat) \<Rightarrow> 'r call \<Rightarrow> (u64 \<Rightarrow> nat option) \<times> 's \<Rightarrow> ((u64 \<Rightarrow> nat option) \<times> 's) option" where
  "serve alloc release poke need (Alloc r) (L, s) = do {
     (p, s) \<leftarrow> alloc r s;
     Some (if p = 0 then L else L(p \<mapsto> need r), s) }"
| "serve alloc release poke need (Release p) (L, s) =
     (if L p = None then Some (L, s) else do { s \<leftarrow> release p s; Some (L(p := None), s) })"
| "serve alloc release poke need (Store p i v) (L, s) =
     (case L p of
        Some n \<Rightarrow> if i < n then do { s \<leftarrow> poke (p + of_nat i) v s; Some (L, s) } else Some (L, s)
      | None \<Rightarrow> Some (L, s))"

fun serve_all where
  "serve_all alloc release poke need [] Ls = Some Ls"
| "serve_all alloc release poke need (c # cs) Ls = do {
     Ls \<leftarrow> serve alloc release poke need c Ls;
     serve_all alloc release poke need cs Ls }"

section \<open>Abstract objects\<close>

type_synonym objects = "u64 \<Rightarrow> u8 list option"

definition sizes :: "objects \<Rightarrow> u64 \<Rightarrow> nat option" where
  "sizes A p = map_option length (A p)"

lemma sizes_simps [simp]:
  "sizes A p = None \<longleftrightarrow> A p = None"
  "(sizes A)(p \<mapsto> length xs) = sizes (A(p \<mapsto> xs))"
  "(sizes A)(p := None) = sizes (A(p := None))"
  "sizes (\<lambda>_. None) = (\<lambda>_. None)"
  by (auto simp: sizes_def)

inductive object_step :: "('r \<Rightarrow> nat) \<Rightarrow> 'r call \<Rightarrow> objects \<Rightarrow> objects \<Rightarrow> bool"
  for need where
  refuse: "object_step need (Alloc r) A A"
| fresh: "A p = None \<Longrightarrow> p \<noteq> 0 \<Longrightarrow> length xs = need r \<Longrightarrow> object_step need (Alloc r) A (A(p \<mapsto> xs))"
| drop: "object_step need (Release p) A (A(p := None))"
| store: "A p = Some xs \<Longrightarrow> i < length xs \<Longrightarrow> object_step need (Store p i v) A (A(p \<mapsto> xs[i := v]))"
| skip: "(case A p of None \<Rightarrow> True | Some xs \<Rightarrow> length xs \<le> i) \<Longrightarrow> object_step need (Store p i v) A A"

inductive object_run :: "('r \<Rightarrow> nat) \<Rightarrow> 'r call list \<Rightarrow> objects \<Rightarrow> objects \<Rightarrow> bool" for need where
  stop: "object_run need [] A A"
| step: "object_step need c A B \<Longrightarrow> object_run need cs B C \<Longrightarrow> object_run need (c # cs) A C"

inductive_cases object_stepE: "object_step need c A B"
inductive_simps object_run_simps [simp]: "object_run need [] A B" "object_run need (c # cs) A B"

section \<open>The laws\<close>

locale allocator =
  fixes alloc :: "'r \<Rightarrow> 's \<Rightarrow> (u64 \<times> 's) option"
    and release :: "u64 \<Rightarrow> 's \<Rightarrow> 's option"
    and poke :: "u64 \<Rightarrow> u8 \<Rightarrow> 's \<Rightarrow> 's option"
    and peek :: "'s \<Rightarrow> u64 \<Rightarrow> u8"
    and need :: "'r \<Rightarrow> nat"
    and valid :: "(u64 \<Rightarrow> nat option) \<Rightarrow> 's \<Rightarrow> bool"
  assumes alloc_ok: "valid L s \<Longrightarrow> alloc r s = Some (p, s') \<Longrightarrow> L p = None \<and>
      valid (if p = 0 then L else L(p \<mapsto> need r)) s' \<and>
      (\<forall>q n i. L q = Some n \<longrightarrow> i < n \<longrightarrow> peek s' (q + of_nat i) = peek s (q + of_nat i))"
    and release_ok: "valid L s \<Longrightarrow> L p = Some n \<Longrightarrow> \<exists>s'. release p s = Some s' \<and> valid (L(p := None)) s' \<and>
      (\<forall>q n i. L q = Some n \<longrightarrow> q \<noteq> p \<longrightarrow> i < n \<longrightarrow>
         peek s' (q + of_nat i) = peek s (q + of_nat i))"
    and poke_ok: "valid L s \<Longrightarrow> L p = Some n \<Longrightarrow> i < n \<Longrightarrow>
      \<exists>s'. poke (p + of_nat i) v s = Some s' \<and> valid L s' \<and>
        (\<forall>x. peek s' x = (if x = p + of_nat i then v else peek s x))"
    and in_space: "valid L s \<Longrightarrow> L p = Some n \<Longrightarrow> p \<noteq> 0 \<and> unat p + n \<le> 2 ^ 47"
    and disjoint: "valid L s \<Longrightarrow> L p = Some n \<Longrightarrow> L q = Some m \<Longrightarrow> p \<noteq> q \<Longrightarrow>
      unat p + n \<le> unat q \<or> unat q + m \<le> unat p"
begin

definition represents :: "objects \<Rightarrow> 's \<Rightarrow> bool" where
  "represents A s \<longleftrightarrow> valid (sizes A) s \<and>
     (\<forall>p xs i. A p = Some xs \<longrightarrow> i < length xs \<longrightarrow> peek s (p + of_nat i) = xs ! i)"

text \<open>No address is a byte of two objects, or twice a byte of one.\<close>

lemma address_unique:
  assumes "valid L s" and "L p = Some n" and "L q = Some m" and "i < n" and "j < m"
    and "p + of_nat i = q + of_nat j"
  shows "p = q \<and> i = j"
proof -
  have u: "unat (p + of_nat i) = unat p + i" "unat (q + of_nat j) = unat q + j"
    using in_space [OF assms(1,2)] in_space [OF assms(1,3)] assms(4,5)
    by (auto intro!: unat_offset)
  then have eq: "unat p + i = unat q + j" using assms(6) by simp
  then have "p = q" using disjoint [OF assms(1-3)] assms(4,5) by auto
  then show ?thesis using eq by simp
qed

lemma serve_alloc_simulates:
  assumes rep: "represents A s" and runs: "alloc r s \<noteq> None"
  shows "\<exists>A' s'. serve alloc release poke need (Alloc r) (sizes A, s) = Some (sizes A', s') \<and>
    object_step need (Alloc r) A A' \<and> represents A' s'"
proof -
  have val: "valid (sizes A) s" using rep by (simp add: represents_def)
  obtain p s' where "alloc r s = Some (p, s')" using runs by auto
  then have s': "alloc r s = Some (p, s')" "sizes A p = None"
      "valid (if p = 0 then sizes A else (sizes A)(p \<mapsto> need r)) s'"
      "\<forall>q n i. sizes A q = Some n \<longrightarrow> i < n \<longrightarrow> peek s' (q + of_nat i) = peek s (q + of_nat i)"
    using alloc_ok [OF val] by blast+
  have old: "peek s' (q + of_nat i) = xs ! i" if "A q = Some xs" "i < length xs" for q xs i
    using s'(4) that rep by (simp add: represents_def sizes_def)
  show ?thesis
  proof (cases "p = 0")
    case True
    then have "represents A s'" using s'(3) old by (simp add: represents_def)
    then show ?thesis using s'(1) True
      by (intro exI [of _ A] exI [of _ s']) (simp add: object_step.refuse)
  next
    case False
    define xs where "xs = map (\<lambda>i. peek s' (p + of_nat i)) [0..<need r]"
    have len: "length xs = need r" by (simp add: xs_def)
    have val': "valid (sizes (A(p \<mapsto> xs))) s'" using s'(3) False by (simp flip: len)
    have "represents (A(p \<mapsto> xs)) s'"
      using old val' by (auto simp: represents_def xs_def)
    moreover have "object_step need (Alloc r) A (A(p \<mapsto> xs))"
      using s'(2) False len by (intro object_step.fresh) simp_all
    ultimately show ?thesis using s'(1) False len
      by (intro exI [of _ "A(p \<mapsto> xs)"] exI [of _ s']) (simp flip: len)
  qed
qed

lemma serve_release_simulates:
  assumes rep: "represents A s"
  shows "\<exists>A' s'. serve alloc release poke need (Release p) (sizes A, s) = Some (sizes A', s') \<and>
    object_step need (Release p) A A' \<and> represents A' s'"
proof (cases "A p")
  case None
  then have "A(p := None) = A" by auto
  then have "object_step need (Release p) A A" using object_step.drop [of need p A] by simp
  then show ?thesis using None rep by (intro exI [of _ A] exI [of _ s]) simp
next
  case (Some xs)
  have val: "valid (sizes A) s" using rep by (simp add: represents_def)
  have "sizes A p = Some (length xs)" using Some by (simp add: sizes_def)
  then obtain s' where s': "release p s = Some s'" "valid ((sizes A)(p := None)) s'"
      "\<forall>q n i. sizes A q = Some n \<longrightarrow> q \<noteq> p \<longrightarrow> i < n \<longrightarrow>
         peek s' (q + of_nat i) = peek s (q + of_nat i)"
    using release_ok [OF val] by blast
  have "represents (A(p := None)) s'"
    using s'(2,3) rep by (auto simp: represents_def sizes_def)
  then show ?thesis using s'(1) Some object_step.drop [of need p A]
    by (intro exI [of _ "A(p := None)"] exI [of _ s']) simp
qed

text \<open>A store changes one byte of one object.\<close>

lemma poke_represents:
  assumes rep: "represents A s" and p: "A p = Some xs" and i: "i < length xs"
    and s': "valid (sizes A) s'" "\<forall>x. peek s' x = (if x = p + of_nat i then v else peek s x)"
  shows "represents (A(p \<mapsto> xs[i := v])) s'" and "sizes (A(p \<mapsto> xs[i := v])) = sizes A"
proof -
  have val: "valid (sizes A) s" and sp: "sizes A p = Some (length xs)"
    using rep p by (simp_all add: represents_def sizes_def)
  show same: "sizes (A(p \<mapsto> xs[i := v])) = sizes A" using p by (auto simp: sizes_def)
  have "peek s' (q + of_nat j) = ys ! j"
    if "(A(p \<mapsto> xs[i := v])) q = Some ys" "j < length ys" for q ys j
  proof (cases "q = p")
    case True
    then show ?thesis
      using that p i s'(2) rep address_unique [OF val sp sp, of i j]
      by (auto simp: represents_def nth_list_update)
  next
    case False
    then have "A q = Some ys" using that by simp
    then show ?thesis
      using that s'(2) rep False address_unique [OF val _ sp, of q "length ys" j i] i
      by (auto simp: represents_def sizes_def)
  qed
  then show "represents (A(p \<mapsto> xs[i := v])) s'" using s'(1) same by (simp only: represents_def) blast
qed

lemma serve_store_simulates:
  assumes rep: "represents A s"
  shows "\<exists>A' s'. serve alloc release poke need (Store p i v) (sizes A, s) = Some (sizes A', s') \<and>
    object_step need (Store p i v) A A' \<and> represents A' s'"
proof -
  have val: "valid (sizes A) s" using rep by (simp add: represents_def)
  consider xs where "A p = Some xs" "i < length xs" | "case A p of None \<Rightarrow> True | Some xs \<Rightarrow> length xs \<le> i"
    by (cases "A p"; cases "i < length (the (A p))") (auto simp: not_less)
  then show ?thesis
  proof cases
    case (1 xs)
    have p: "sizes A p = Some (length xs)" using 1 by (simp add: sizes_def)
    obtain s' where s': "poke (p + of_nat i) v s = Some s'" "valid (sizes A) s'"
        "\<forall>x. peek s' x = (if x = p + of_nat i then v else peek s x)"
      using poke_ok [OF val p 1(2)] by blast
    have "object_step need (Store p i v) A (A(p \<mapsto> xs[i := v]))" using 1 by (rule object_step.store)
    then show ?thesis using s'(1) p 1(2) poke_represents [OF rep 1 s'(2,3)]
      by (intro exI [of _ "A(p \<mapsto> xs[i := v])"] exI [of _ s']) simp
  next
    case 2
    then have "serve alloc release poke need (Store p i v) (sizes A, s) = Some (sizes A, s)"
      by (auto simp: sizes_def split: option.splits)
    moreover have "object_step need (Store p i v) A A" using 2 by (rule object_step.skip)
    ultimately show ?thesis using rep by blast
  qed
qed

lemma serve_simulates:
  assumes "represents A s" and "\<And>r. c = Alloc r \<Longrightarrow> alloc r s \<noteq> None"
  shows "\<exists>A' s'. serve alloc release poke need c (sizes A, s) = Some (sizes A', s') \<and>
    object_step need c A A' \<and> represents A' s'"
  using serve_alloc_simulates [OF assms(1)] serve_release_simulates [OF assms(1)]
    serve_store_simulates [OF assms(1)] assms(2)
  by (cases c) blast+

text \<open>A run that does not end in an allocation without value is a run on the abstract objects.\<close>

lemma serve_all_refines:
  assumes "represents A s" and "serve_all alloc release poke need cs (sizes A, s) = Some (L, s')"
  shows "\<exists>A'. L = sizes A' \<and> object_run need cs A A' \<and> represents A' s'"
  using assms
proof (induction cs arbitrary: A s)
  case Nil
  then show ?case by auto
next
  case (Cons c cs)
  have runs: "alloc r s \<noteq> None" if "c = Alloc r" for r
    using Cons.prems(2) that by (cases "alloc r s") auto
  obtain B t where B: "serve alloc release poke need c (sizes A, s) = Some (sizes B, t)"
      "object_step need c A B" "represents B t"
    using serve_simulates [OF Cons.prems(1) runs] by blast
  then have "serve_all alloc release poke need cs (sizes B, t) = Some (L, s')"
    using Cons.prems(2) by simp
  then obtain A' where "L = sizes A'" "object_run need cs B A'" "represents A' s'"
    using Cons.IH [OF B(3)] by blast
  then show ?case using B(2) by auto
qed

text \<open>Only an allocation without value ends a run early.\<close>

lemma serve_all_stops:
  assumes "represents A s" and "serve_all alloc release poke need cs (sizes A, s) = None"
  shows "\<exists>ds r es L t. cs = ds @ Alloc r # es \<and>
    serve_all alloc release poke need ds (sizes A, s) = Some (L, t) \<and> valid L t \<and> alloc r t = None"
  using assms
proof (induction cs arbitrary: A s)
  case Nil
  then show ?case by simp
next
  case (Cons c cs)
  show ?case
  proof (cases "\<exists>r. c = Alloc r \<and> alloc r s = None")
    case True
    then show ?thesis using Cons.prems(1) by (intro exI [of _ "[]"]) (auto simp: represents_def)
  next
    case False
    then obtain B t where B: "serve alloc release poke need c (sizes A, s) = Some (sizes B, t)" "represents B t"
      using serve_simulates [OF Cons.prems(1), of c] by metis
    then have "serve_all alloc release poke need cs (sizes B, t) = None" using Cons.prems(2) by simp
    then obtain ds r es L u where "cs = ds @ Alloc r # es" "valid L u" "alloc r u = None"
        "serve_all alloc release poke need ds (sizes B, t) = Some (L, u)"
      using Cons.IH [OF B(2)] by blast
    then show ?thesis using B(1) by (intro exI [of _ "c # ds"]) auto
  qed
qed

lemma represents_apart:
  assumes "represents A s" and "A p = Some xs" and "A q = Some ys" and "p \<noteq> q"
  shows "unat p + length xs \<le> unat q \<or> unat q + length ys \<le> unat p"
  using assms disjoint [of "sizes A" s p "length xs" q "length ys"]
  by (simp add: represents_def sizes_def)

lemma represents_none: "valid (\<lambda>_. None) s \<Longrightarrow> represents (\<lambda>_. None) s"
  by (simp add: represents_def)

end

text \<open>An allocator whose allocations always return, if only with NULL.\<close>

locale total_allocator = allocator +
  assumes alloc_total: "valid L s \<Longrightarrow> alloc r s \<noteq> None"
begin

lemma serve_all_simulates:
  assumes "represents A s"
  shows "\<exists>A' s'. serve_all alloc release poke need cs (sizes A, s) = Some (sizes A', s') \<and>
    object_run need cs A A' \<and> represents A' s'"
  using assms
proof (induction cs arbitrary: A s)
  case Nil
  then show ?case by (intro exI [of _ A] exI [of _ s]) simp
next
  case (Cons c cs)
  have "valid (sizes A) s" using Cons.prems by (simp add: represents_def)
  then have "alloc r s \<noteq> None" for r by (rule alloc_total)
  then obtain B t where B: "serve alloc release poke need c (sizes A, s) = Some (sizes B, t)"
      "object_step need c A B" "represents B t"
    using serve_simulates [OF Cons.prems] by blast
  then obtain A' s' where "serve_all alloc release poke need cs (sizes B, t) = Some (sizes A', s')"
      "object_run need cs B A'" "represents A' s'"
    using Cons.IH by blast
  with B show ?case by (intro exI [of _ A'] exI [of _ s']) auto
qed

text \<open>From a state without objects every sequence of calls runs, and the live objects are apart.\<close>

lemma client_safe:
  assumes "valid (\<lambda>_. None) s"
  shows "\<exists>A s'. serve_all alloc release poke need cs (\<lambda>_. None, s) = Some (sizes A, s') \<and>
    object_run need cs (\<lambda>_. None) A \<and>
    (\<forall>p xs i. A p = Some xs \<longrightarrow> i < length xs \<longrightarrow> peek s' (p + of_nat i) = xs ! i) \<and>
    (\<forall>p q xs ys. A p = Some xs \<longrightarrow> A q = Some ys \<longrightarrow> p \<noteq> q \<longrightarrow>
       unat p + length xs \<le> unat q \<or> unat q + length ys \<le> unat p)"
proof -
  obtain A s' where A: "serve_all alloc release poke need cs (sizes (\<lambda>_. None), s) = Some (sizes A, s')"
      "object_run need cs (\<lambda>_. None) A" "represents A s'"
    using serve_all_simulates [OF represents_none [OF assms]] by blast
  then show ?thesis using represents_apart [OF A(3)]
    by (intro exI [of _ A] exI [of _ s']) (auto simp: represents_def)
qed

end

section \<open>Allocators that never return NULL\<close>

text \<open>A run in which no allocation is refused.\<close>

inductive granted_run :: "('r \<Rightarrow> nat) \<Rightarrow> 'r call list \<Rightarrow> objects \<Rightarrow> objects \<Rightarrow> bool" for need where
  stop: "granted_run need [] A A"
| step: "object_step need c A B \<Longrightarrow> (\<forall>r. c = Alloc r \<longrightarrow> B \<noteq> A) \<Longrightarrow> granted_run need cs B C \<Longrightarrow>
    granted_run need (c # cs) A C"

locale diverging_allocator = allocator +
  assumes never_null: "valid L s \<Longrightarrow> alloc r s = Some (p, s') \<Longrightarrow> p \<noteq> 0"
begin

lemma serve_grants:
  assumes "represents A s" and "serve alloc release poke need (Alloc r) (sizes A, s) = Some (sizes B, t)"
  shows "B \<noteq> A"
proof -
  have val: "valid (sizes A) s" using assms(1) by (simp add: represents_def)
  obtain p s' where p: "alloc r s = Some (p, s')" using assms(2) by (cases "alloc r s") auto
  then have "sizes A p = None" using alloc_ok [OF val] by blast
  moreover have "sizes B = (sizes A)(p \<mapsto> need r)" using assms(2) p never_null [OF val p] by simp
  ultimately have "sizes B p \<noteq> sizes A p" by (simp only: fun_upd_same) simp
  then show ?thesis by auto
qed

lemma serve_all_granted:
  assumes "represents A s" and "serve_all alloc release poke need cs (sizes A, s) = Some (L, s')"
  shows "\<exists>A'. L = sizes A' \<and> granted_run need cs A A' \<and> represents A' s'"
  using assms
proof (induction cs arbitrary: A s)
  case Nil
  then show ?case by (auto intro: granted_run.stop)
next
  case (Cons c cs)
  have runs: "alloc r s \<noteq> None" if "c = Alloc r" for r
    using Cons.prems(2) that by (cases "alloc r s") auto
  obtain B t where B: "serve alloc release poke need c (sizes A, s) = Some (sizes B, t)"
      "object_step need c A B" "represents B t"
    using serve_simulates [OF Cons.prems(1) runs] by blast
  then have "serve_all alloc release poke need cs (sizes B, t) = Some (L, s')"
    using Cons.prems(2) by simp
  then obtain A' where "L = sizes A'" "granted_run need cs B A'" "represents A' s'"
    using Cons.IH [OF B(3)] by blast
  moreover have "\<forall>r. c = Alloc r \<longrightarrow> B \<noteq> A" using serve_grants [OF Cons.prems(1)] B(1) by blast
  ultimately show ?case using granted_run.step [OF B(2)] by blast
qed

end

end
