(* ===== verification/Kmalloc_Client.thy ===== *)
theory Kmalloc_Client
  imports Kmalloc_Calloc Allocator
begin

text \<open>
  \<open>kmalloc\<close> and \<open>kfree\<close> are an allocator: the laws hold for the model from the first call on,
  for every process heap whose first move of the break is granted.
\<close>

section \<open>States with live objects\<close>

definition kpoke :: "u64 \<Rightarrow> u8 \<Rightarrow> kstate \<Rightarrow> kstate option" where
  "kpoke a v s = do { h \<leftarrow> wr8 (hp s) a v; Some (s\<lparr>hp := h\<rparr>) }"

definition kpeek :: "kstate \<Rightarrow> u64 \<Rightarrow> u8" where
  "kpeek s a = bytes (hp s) a"

text \<open>The object at \<open>p\<close> is the data area of a block in use that is large enough.\<close>

definition hosts :: "ghost \<Rightarrow> nat \<Rightarrow> (u64 \<Rightarrow> nat option) \<Rightarrow> bool" where
  "hosts g pg L \<longleftrightarrow> (\<forall>p n. L p = Some n \<longrightarrow>
     (\<exists>op b. p = op + sizeof_overhead \<and> op \<in> used g \<and> blk g op = Some b \<and> n \<le> capacity pg b))"

definition kvalid :: "os \<Rightarrow> (u64 \<Rightarrow> nat option) \<Rightarrow> kstate \<Rightarrow> bool" where
  "kvalid os L s \<longleftrightarrow> os_ok os \<and>
     ((\<exists>g. kwf os g s \<and> booted os s \<and> hosts g (unat (pagesz s)) L) \<or>
      (\<exists>h. s = kinit h \<and> start_ok h \<and> boots os h \<and> L = (\<lambda>_. None)))"

lemma hosts_none: "hosts g pg (\<lambda>_. None)"
  by (simp add: hosts_def)

lemma hostsE:
  assumes "hosts g pg L" and "L p = Some n"
  obtains op b where "p = op + sizeof_overhead" and "op \<in> used g" and "blk g op = Some b"
    and "n \<le> capacity pg b"
  using assms unfolding hosts_def by blast

lemma hosts_alloc:
  assumes "hosts g pg L" and "allocates pg n g p g'" and "blk g \<subseteq>\<^sub>m blk g'"
  shows "hosts g' pg (L(p \<mapsto> n))" and "L p = None"
proof -
  obtain op b where op: "p = op + sizeof_overhead" "bucket_for pg n = Some b" "blk g' op = Some b"
      "op \<notin> used g" "used g' = insert op (used g)"
    using assms(2) by (auto simp: allocates_def)
  show "L p = None"
  proof (rule ccontr)
    assume "L p \<noteq> None"
    then obtain m where "L p = Some m" by auto
    with assms(1) obtain op' where "p = op' + sizeof_overhead" "op' \<in> used g" by (rule hostsE)
    then show False using op(1,4) by simp
  qed
  show "hosts g' pg (L(p \<mapsto> n))"
    unfolding hosts_def
  proof (intro allI impI)
    fix q m assume q: "(L(p \<mapsto> n)) q = Some m"
    show "\<exists>op b. q = op + sizeof_overhead \<and> op \<in> used g' \<and> blk g' op = Some b \<and> m \<le> capacity pg b"
    proof (cases "q = p")
      case True
      then show ?thesis using q op by (auto simp: bucket_for_Some)
    next
      case False
      then have "L q = Some m" using q by simp
      with assms(1) obtain op' b' where "q = op' + sizeof_overhead" "op' \<in> used g"
          "blk g op' = Some b'" "m \<le> capacity pg b'"
        by (rule hostsE)
      moreover from this have "blk g' op' = Some b'" using assms(3) by (auto simp: map_le_def dom_def)
      ultimately show ?thesis using op(5) by auto
    qed
  qed
qed

lemma hosts_same:
  assumes "hosts g pg L" and "used g' = used g" and "blk g \<subseteq>\<^sub>m blk g'"
  shows "hosts g' pg L"
  using assms unfolding hosts_def by (metis domI map_le_def)

lemma hosts_free:
  assumes "hosts g pg L" and "p = op + sizeof_overhead"
  shows "hosts (free_block op g) pg (L(p := None))"
  unfolding hosts_def
proof (intro allI impI)
  fix q m assume "(L(p := None)) q = Some m"
  then have q: "q \<noteq> p" "L q = Some m" by (auto split: if_splits)
  obtain op' b where op': "q = op' + sizeof_overhead" "op' \<in> used g" "blk g op' = Some b"
      "m \<le> capacity pg b"
    using assms(1) q(2) by (rule hostsE)
  moreover have "op' \<noteq> op" using q(1) op'(1) assms(2) by auto
  ultimately show "\<exists>op' b. q = op' + sizeof_overhead \<and> op' \<in> used (free_block op g) \<and>
      blk (free_block op g) op' = Some b \<and> m \<le> capacity pg b"
    by (auto simp: free_block_def)
qed

section \<open>The laws\<close>

lemma kept_object:
  assumes kept: "kept g s s'" and h: "hosts g (unat (pagesz s)) L" and q: "L q = Some n" and i: "i < n"
  shows "bytes (hp s') (q + of_nat i) = bytes (hp s) (q + of_nat i)"
proof -
  obtain op b where op: "q = op + sizeof_overhead" "op \<in> used g" "blk g op = Some b"
      "n \<le> capacity (unat (pagesz s)) b"
    using h q by (rule hostsE)
  have "8 + i < extent (unat (pagesz s)) b"
    using op(4) i extent_capacity [of "unat (pagesz s)" b] by simp
  then have "bytes (hp s') (op + of_nat (8 + i)) = bytes (hp s) (op + of_nat (8 + i))"
    using kept op(2,3) unfolding kept_def by blast
  then show ?thesis using op(1) by (simp add: sizeof_overhead_def algebra_simps)
qed

lemma null_not_hosted:
  assumes wf: "kwf os g s" and h: "hosts g (unat (pagesz s)) L"
  shows "L 0 = None"
proof (rule ccontr)
  assume "L 0 \<noteq> None"
  then obtain n where "L 0 = Some n" by auto
  with h obtain op b where "0 = op + sizeof_overhead" "blk g op = Some b" by (metis hostsE)
  then show False using nonnull_result [OF wf] by metis
qed

lemma booted_alloc:
  assumes ok: "os_ok os" and wf: "kwf os g s" and bt: "booted os s"
    and h: "hosts g (unat (pagesz s)) L"
  shows "\<exists>p s'. kmalloc os r s = Some (p, s') \<and> L p = None \<and>
    kvalid os (if p = 0 then L else L(p \<mapsto> unat r)) s' \<and>
    (\<forall>q n i. L q = Some n \<longrightarrow> i < n \<longrightarrow> kpeek s' (q + of_nat i) = kpeek s (q + of_nat i))"
proof -
  obtain p s' g' where s': "kmalloc os r s = Some (p, s')" "kwf os g' s'" "blk g \<subseteq>\<^sub>m blk g'"
      "writes_header (p - sizeof_overhead) s s'"
      "if p = 0 then used g' = used g else allocates (unat (pagesz s)) (unat r) g p g'"
    using kmalloc_wf [OF wf bt ok] by metis
  have vars: "same_vars s s'" using s'(4) by (simp add: writes_header_def)
  then have pg: "pagesz s' = pagesz s" by (simp add: same_vars_def)
  have bt': "booted os s'" using bt vars by (rule booted_same)
  have "kept g s s'" by (rule kmalloc_kept [OF wf s'(2-5)])
  then have keeps: "\<forall>q n i. L q = Some n \<longrightarrow> i < n \<longrightarrow> kpeek s' (q + of_nat i) = kpeek s (q + of_nat i)"
    using kept_object [OF _ h] by (simp add: kpeek_def)
  show ?thesis
  proof (cases "p = 0")
    case True
    then have "hosts g' (unat (pagesz s')) L" using hosts_same [OF h] s'(3,5) pg by simp
    then have "kvalid os L s'" using ok s'(2) bt' by (auto simp: kvalid_def)
    then show ?thesis using s'(1) True null_not_hosted [OF wf h] keeps by auto
  next
    case False
    then have al: "allocates (unat (pagesz s)) (unat r) g p g'" using s'(5) by simp
    have "kvalid os (L(p \<mapsto> unat r)) s'"
      using ok s'(2) bt' hosts_alloc(1) [OF h al s'(3)] pg by (auto simp: kvalid_def)
    then show ?thesis using s'(1) False hosts_alloc(2) [OF h al s'(3)] keeps by auto
  qed
qed

lemma kvalid_alloc:
  assumes "kvalid os L s"
  shows "\<exists>p s'. kmalloc os r s = Some (p, s') \<and> L p = None \<and>
    kvalid os (if p = 0 then L else L(p \<mapsto> unat r)) s' \<and>
    (\<forall>q n i. L q = Some n \<longrightarrow> i < n \<longrightarrow> kpeek s' (q + of_nat i) = kpeek s (q + of_nat i))"
proof -
  have ok: "os_ok os" using assms by (simp add: kvalid_def)
  consider (run) g where "kwf os g s" "booted os s" "hosts g (unat (pagesz s)) L"
    | (start) h where "s = kinit h" "start_ok h" "boots os h" "L = (\<lambda>_. None)"
    using assms by (auto simp: kvalid_def)
  then show ?thesis
  proof cases
    case run
    then show ?thesis by (rule booted_alloc [OF ok])
  next
    case start
    obtain s1 where s1: "kmalloc_setup os s = Some (True, s1)" "kwf os ghost0 s1" "booted os s1"
      using setup_granted [OF ok start(2,3)] start(1) by blast
    obtain p s' where "kmalloc os r s1 = Some (p, s')"
        "kvalid os (if p = 0 then (\<lambda>_. None) else (\<lambda>_. None)(p \<mapsto> unat r)) s'"
      using booted_alloc [OF ok s1(2,3) hosts_none, of r] by blast
    then show ?thesis
      unfolding first_kmalloc [OF s1(1,3)] start(4) by (intro exI [of _ p] exI [of _ s']) simp
  qed
qed

lemma kvalid_run:
  assumes "kvalid os L s" and "L p = Some n"
  obtains g op b where "os_ok os" and "kwf os g s" and "booted os s"
    and "hosts g (unat (pagesz s)) L" and "p = op + sizeof_overhead" and "op \<in> used g"
    and "blk g op = Some b" and "n \<le> capacity (unat (pagesz s)) b"
proof -
  obtain g where g: "os_ok os" "kwf os g s" "booted os s" "hosts g (unat (pagesz s)) L"
    using assms unfolding kvalid_def by auto
  obtain op b where "p = op + sizeof_overhead" "op \<in> used g" "blk g op = Some b"
      "n \<le> capacity (unat (pagesz s)) b"
    using g(4) assms(2) by (rule hostsE)
  with g show ?thesis by (rule that)
qed

lemma kvalid_free:
  assumes "kvalid os L s" and "L p = Some n"
  shows "\<exists>s'. kfree p s = Some s' \<and> kvalid os (L(p := None)) s' \<and>
    (\<forall>q n i. L q = Some n \<longrightarrow> q \<noteq> p \<longrightarrow> i < n \<longrightarrow> kpeek s' (q + of_nat i) = kpeek s (q + of_nat i))"
proof -
  obtain g op b where run: "os_ok os" "kwf os g s" "booted os s" "hosts g (unat (pagesz s)) L"
      "p = op + sizeof_overhead" "op \<in> used g" "blk g op = Some b"
    using assms by (rule kvalid_run)
  obtain s1 where s1: "kfree (op + sizeof_overhead) s = Some s1" "kwf os (free_block op g) s1"
      "same_vars s s1"
      "\<And>y c i. blk g y = Some c \<Longrightarrow> (if y = op then 8 \<le> i \<and> i < extent (unat (pagesz s)) b
         else i < extent (unat (pagesz s)) c) \<Longrightarrow>
       bytes (hp s1) (y + of_nat i) = bytes (hp s) (y + of_nat i)"
    using kfree_used [OF run(2,6,7)] by metis
  have pg: "pagesz s1 = pagesz s" using s1(3) by (simp add: same_vars_def)
  have h: "hosts (free_block op g) (unat (pagesz s)) (L(p := None))"
    by (rule hosts_free [OF run(4,5)])
  have "kept (free_block op g) s s1" using s1(4) by (auto simp: kept_def free_block_def)
  then have "kpeek s1 (q + of_nat i) = kpeek s (q + of_nat i)"
    if "L q = Some m" "q \<noteq> p" "i < m" for q m i
    using kept_object [OF _ h, of s1 q m i] that by (simp add: kpeek_def)
  moreover have "kvalid os (L(p := None)) s1"
    using run(1) s1(2) booted_same [OF run(3) s1(3)] h pg by (auto simp: kvalid_def)
  ultimately show ?thesis using s1(1) run(5) by auto
qed

lemma kvalid_space:
  assumes "kvalid os L s" and "L p = Some n"
  shows "p \<noteq> 0 \<and> unat p + n \<le> 2 ^ 47"
proof -
  obtain g op b where run: "kwf os g s" "p = op + sizeof_overhead" "blk g op = Some b"
      "n \<le> capacity (unat (pagesz s)) b"
    using assms by (rule kvalid_run)
  have "unat p = unat op + 8"
    using wf_block(5) [OF run(1,3)] extent_ge_8 [of "unat (pagesz s)" b] unat_offset [of op 8] run(2)
    by (simp add: sizeof_overhead_def)
  then show ?thesis
    using nonnull_result [OF run(1,3)] wf_block(5) [OF run(1,3)] run(2,4)
      extent_capacity [of "unat (pagesz s)" b] by simp
qed

lemma kvalid_disjoint:
  assumes "kvalid os L s" and p: "L p = Some n" and q: "L q = Some m" and ne: "p \<noteq> q"
  shows "unat p + n \<le> unat q \<or> unat q + m \<le> unat p"
proof -
  obtain g op b where run: "kwf os g s" "hosts g (unat (pagesz s)) L" "p = op + sizeof_overhead"
      "blk g op = Some b" "n \<le> capacity (unat (pagesz s)) b"
    using assms(1,2) by (rule kvalid_run)
  obtain oq c where oq: "q = oq + sizeof_overhead" "blk g oq = Some c" "m \<le> capacity (unat (pagesz s)) c"
    using run(2) q by (rule hostsE)
  have "op \<noteq> oq" using ne run(3) oq(1) by auto
  then have "unat op + extent (unat (pagesz s)) b \<le> unat oq \<or>
      unat oq + extent (unat (pagesz s)) c \<le> unat op"
    using run(1,4) oq(2) unfolding kwf_def separate_def by blast
  moreover have "unat p = unat op + 8" "unat q = unat oq + 8"
    using wf_block(5) [OF run(1,4)] wf_block(5) [OF run(1) oq(2)] run(3) oq(1)
      extent_ge_8 [of "unat (pagesz s)" b] extent_ge_8 [of "unat (pagesz s)" c]
      unat_offset [of op 8] unat_offset [of oq 8]
    by (simp_all add: sizeof_overhead_def)
  ultimately show ?thesis
    using run(5) oq(3) extent_capacity [of "unat (pagesz s)" b] extent_capacity [of "unat (pagesz s)" c]
    by auto
qed

lemma poke_block:
  fixes v :: u8
  assumes wf: "kwf os g s" and op: "blk g op = Some b" "n \<le> capacity (unat (pagesz s)) b"
    and p: "p = op + sizeof_overhead" and i: "i < n"
  defines "s' \<equiv> s\<lparr>hp := (hp s)\<lparr>bytes := (bytes (hp s))(p + of_nat i := v)\<rparr>\<rparr>"
  shows "kpoke (p + of_nat i) v s = Some s'" and "kwf os g s'"
proof -
  let ?h = "(hp s)\<lparr>bytes := (bytes (hp s))(p + of_nat i := v)\<rparr>"
  have e: "8 + i < extent (unat (pagesz s)) b"
    using op(2) i extent_capacity [of "unat (pagesz s)" b] by simp
  have at: "p + of_nat i = op + of_nat (8 + i)" using p by (simp add: sizeof_overhead_def)
  have u: "unat (p + of_nat i) = unat op + (8 + i)"
    unfolding at using wf_block(5) [OF wf op(1)] e by (intro unat_offset) simp
  then have "mapped (hp s) (p + of_nat i) 1"
    using wf_block(2,4) [OF wf op(1)] e by (simp add: mapped_def)
  then show "kpoke (p + of_nat i) v s = Some s'" by (simp add: kpoke_def wr8_def s'_def)
  show "kwf os g s'"
    unfolding s'_def
  proof (rule wf_frame [OF wf refl])
    fix y c and j :: nat assume y: "blk g y = Some c" "j < 8"
    have "y + of_nat j \<noteq> p + of_nat i"
    proof (cases "y = op")
      case True
      have "unat (op + of_nat j) = unat op + j"
        using wf_block(5) [OF wf op(1)] y(2) e by (intro unat_offset) simp
      then show ?thesis using u y(2) True by auto
    next
      case False
      have "j < extent (unat (pagesz s)) c" using y(2) extent_ge_8 [of "unat (pagesz s)" c] by linarith
      then show ?thesis unfolding at
        using block_bytes_differ [OF wf y(1) op(1) False _ e] by blast
    qed
    then show "bytes ?h (y + of_nat j) = bytes (hp s) (y + of_nat j)" by simp
  qed simp_all
qed

lemma kvalid_poke:
  assumes "kvalid os L s" and p: "L p = Some n" and i: "i < n"
  shows "\<exists>s'. kpoke (p + of_nat i) v s = Some s' \<and> kvalid os L s' \<and>
    (\<forall>x. kpeek s' x = (if x = p + of_nat i then v else kpeek s x))"
proof -
  obtain g op b where run: "os_ok os" "kwf os g s" "booted os s" "hosts g (unat (pagesz s)) L"
      "p = op + sizeof_overhead" "op \<in> used g" "blk g op = Some b" "n \<le> capacity (unat (pagesz s)) b"
    using assms(1,2) by (rule kvalid_run)
  let ?s = "s\<lparr>hp := (hp s)\<lparr>bytes := (bytes (hp s))(p + of_nat i := v)\<rparr>\<rparr>"
  note poke = poke_block [OF run(2,7,8,5) i, of v]
  have "kvalid os L ?s"
    using run(1,3,4) poke(2) unfolding kvalid_def by (auto simp: booted_def paged_def)
  with poke(1) show ?thesis by (intro exI [of _ ?s]) (simp add: kpeek_def)
qed

lemma kvalid_alloc_law:
  assumes "kvalid os L s" and "kmalloc os r s = Some (p, s')"
  shows "L p = None \<and> kvalid os (if p = 0 then L else L(p \<mapsto> unat r)) s' \<and>
    (\<forall>q n i. L q = Some n \<longrightarrow> i < n \<longrightarrow> kpeek s' (q + of_nat i) = kpeek s (q + of_nat i))"
  using kvalid_alloc [OF assms(1), of r] assms(2) by auto

lemma kvalid_alloc_total: "kvalid os L s \<Longrightarrow> kmalloc os r s \<noteq> None"
  using kvalid_alloc [of os L s r] by auto

interpretation kmalloc_heap: total_allocator "kmalloc os" kfree kpoke kpeek unat "kvalid os" for os
proof unfold_locales
qed (fact kvalid_alloc_law kvalid_free kvalid_poke kvalid_space kvalid_disjoint kvalid_alloc_total)+

end
