(* ===== verification/Kmalloc_Demo.thy ===== *)
theory Kmalloc_Demo
  imports Kmalloc_Client
begin

text \<open>
  Concrete states of the allocator: a heap whose break needs no alignment, the state after the
  first call on it, states with a block in use and with a free list, and two systems that refuse
  to move the break. They show that the hypotheses of the theorems can be met.
\<close>

section \<open>Heaps and systems\<close>

definition demo_heap :: heap where
  "demo_heap = \<lparr>bytes = (\<lambda>_. 0), heap_lo = 0x10000, brk = 0x10ff8, calls = 0\<rparr>"

definition demo0 :: kstate where
  "demo0 = (kinit demo_heap)\<lparr>pagesz := 4096, pagebucket := 9\<rparr>"

text \<open>A heap whose break is not aligned.\<close>

definition odd_heap :: heap where
  "odd_heap = \<lparr>bytes = (\<lambda>_. 0), heap_lo = 0x10000, brk = 0x10010, calls = 0\<rparr>"

text \<open>Systems: one that only grants single pages, and one that refuses its first request.\<close>

definition pages_only :: os where
  "pages_only = \<lparr>page_size = 4096, grants = (\<lambda>i b n. n = 4096 \<and> unat b + unat n \<le> 2 ^ 47)\<rparr>"

definition slow_start :: os where
  "slow_start = \<lparr>page_size = 4096, grants = (\<lambda>i b n. i \<noteq> 0 \<and> unat b + unat n \<le> 2 ^ 47)\<rparr>"

lemma os_ok_4096: "page_size os = 4096 \<Longrightarrow> (\<And>i b n. grants os i b n \<Longrightarrow> unat b + unat n \<le> 2 ^ 47) \<Longrightarrow> os_ok os"
  unfolding os_ok_def by (auto intro!: exI [of _ 12])

lemma demo_os: "os_ok linux" "os_ok pages_only" "os_ok slow_start"
    "page_size linux = 4096" "page_size pages_only = 4096" "page_size slow_start = 4096"
  by (auto intro!: os_ok_4096 simp: linux_def pages_only_def slow_start_def)

lemma demo_start: "start_ok demo_heap" "start_ok odd_heap"
  by (simp_all add: start_ok_def demo_heap_def odd_heap_def)

lemma demo_gap: "boots linux odd_heap" "\<not> boots slow_start odd_heap"
  by (simp_all add: boots_def boot_gap_def odd_heap_def linux_def slow_start_def)

lemma demo0_paged: "page_size os = 4096 \<Longrightarrow> paged os demo0"
  unfolding paged_def by (auto simp: demo0_def intro!: exI [of _ 12])

lemma demo0_wf:
  assumes "os_ok os" and "page_size os = 4096"
  shows "kwf os ghost0 demo0" and "booted os demo0"
proof -
  have "heap_ok 4096 (hp demo0)" by (simp add: heap_ok_def demo0_def kinit_def demo_heap_def)
  then show "kwf os ghost0 demo0"
    using assms demo0_paged by (intro empty_wf) (simp_all add: demo0_def kinit_def)
  show "booted os demo0"
    unfolding booted_def using assms(2) demo0_paged by (auto simp: demo0_def intro!: exI [of _ 12])
qed

lemma demo0_page: "unat (pagesz demo0) = 4096"
  by (simp add: demo0_def)

section \<open>The first request\<close>

text \<open>Linux serves a small first request.\<close>

lemma first_served:
  assumes "bucket_for 4096 (unat n) = Some b" and "b < 20"
  obtains p s where "kmalloc linux n (kinit odd_heap) = Some (p, s)" and "p \<noteq> 0"
proof -
  obtain s1 where s1: "kmalloc_setup linux (kinit odd_heap) = Some (True, s1)" "kwf linux ghost0 s1"
      "booted linux s1" "unat (brk (hp s1)) =
        unat (brk odd_heap) + boot_gap (unat (page_size linux)) (unat (brk odd_heap))"
    using setup_granted [OF demo_os(1) demo_start(2) demo_gap(1)] by blast
  have pg: "unat (pagesz s1) = 4096" using s1(3) by (simp add: booted_def paged_def linux_def)
  have brk: "unat (brk (hp s1)) = 0x10ff8" using s1(4) by (simp add: boot_gap_def odd_heap_def linux_def)
  have "(2::nat) ^ (b + 3) < 2 ^ 23" using assms(2) by (intro power_strict_increasing) simp_all
  then have am: "amount 4096 b < 2 ^ 24" by (simp add: amount_def)
  then have "unat (of_nat (amount 4096 b) :: u64) = amount 4096 b" by (intro unat_of_nat64) simp
  then have "grants linux i (brk (hp s1)) (of_nat (amount 4096 b))" for i
    using am brk by (simp add: linux_def)
  then have "\<not> exhausted linux s1 (unat n)"
    using assms by (simp add: exhausted_def pg)
  moreover obtain p s' where "kmalloc linux n s1 = Some (p, s')" "p = 0 \<longleftrightarrow> exhausted linux s1 (unat n)"
    using kmalloc_wf [OF s1(2,3) demo_os(1)] by metis
  ultimately show ?thesis
    using first_kmalloc [OF s1(1,3), of n] by (intro that [of p s']) simp_all
qed

section \<open>States with blocks\<close>

lemma bucket_for_24: "bucket_for 4096 24 = Some 2"
  by (simp add: bucket_for_def capacity_def extent_def upt_rec)

lemma bucket_for_100: "bucket_for 4096 100 = Some 4"
  by (simp add: bucket_for_def capacity_def extent_def upt_rec)

lemma bucket_for_5000: "bucket_for 4096 5000 = Some 9"
  by (simp add: bucket_for_def capacity_def extent_def upt_rec)

lemma bucket_for_200: "bucket_for 4096 200 = Some 5"
  by (simp add: bucket_for_def capacity_def extent_def upt_rec)

text \<open>A list of 32 blocks of bucket 4, as the first request of that bucket leaves it.\<close>

lemma demo_list:
  assumes os: "os = linux \<or> os = pages_only"
  obtains g s where "kwf os g s" and "booted os s" and "pagesz s = 4096" and "realloc_srchlen s = 4"
    and "used g = {}"
    and "chain (ld64 (bytes (hp s))) (nextf s ! 4) (run 0x10ff8 128 32)"
    and "\<And>b. b \<noteq> 4 \<Longrightarrow> b < NBUCKETS \<Longrightarrow> nextf s ! b = 0"
proof -
  have ok: "os_ok os" "page_size os = 4096" using os demo_os by auto
  note wf0 = demo0_wf [OF ok]
  have p: "unat (pagesz demo0) = 4096" "pagesz demo0 = 4096" by (simp_all add: demo0_def)
  have "nextf demo0 ! 4 = 0" by (simp add: demo0_def kinit_def NBUCKETS_def)
  then obtain g s where s: "morecore os (of_nat 4) demo0 = Some s" "kwf os g s" "used g = used ghost0"
      "same_vars demo0 s"
    using morecore_wf [OF wf0(1) ok(1), of 4] by auto
  let ?h = "hp demo0"
  have A: "amount 4096 4 = 4096" "nblks_of 4096 4 = 32" by (simp_all add: amount_def nblks_of_def)
  have gr: "grants os (calls ?h) (brk ?h) (of_nat 4096)"
    using os by (auto simp: linux_def pages_only_def demo0_def kinit_def demo_heap_def)
  note sb = sbrk_granted [OF ok(1) gr]
  let ?h1 = "?h\<lparr>brk := brk ?h + of_nat 4096, calls := Suc (calls ?h),
    bytes := fill (bytes ?h) (brk ?h) 0 (of_nat 4096)\<rparr>"
  let ?s1 = "demo0\<lparr>hp := ?h1, nextf := (nextf demo0)[4 := brk ?h]\<rparr>"
  have "\<exists>m. carve (brk ?h) (of_nat 128) (of_nat 32) ?s1 = Some (?s1\<lparr>hp := (hp ?s1)\<lparr>bytes := m\<rparr>\<rparr>) \<and>
    chain (ld64 m) (brk ?h) (run (brk ?h) 128 (Suc 31)) \<and>
    (\<forall>x. unat x < unat (brk ?h) \<longrightarrow> m x = bytes (hp ?s1) x)"
  proof (rule carve_spec)
    show "bytes (hp ?s1) x = 0" if "unat (brk ?h) \<le> unat x" "unat x < unat (brk ?h) + Suc 31 * 128" for x
      using sb(5) [of x] that by simp
  qed (use sb(2,3) in \<open>auto simp: demo0_def kinit_def demo_heap_def\<close>)
  then obtain m where m: "carve (brk ?h) 128 32 ?s1 = Some (?s1\<lparr>hp := ?h1\<lparr>bytes := m\<rparr>\<rparr>)"
      "chain (ld64 m) (brk ?h) (run (brk ?h) 128 32)"
    by auto
  have b: "brk ?h = 0x10ff8" by (simp add: demo0_def kinit_def demo_heap_def)
  have pd: "paged os demo0" by (rule demo0_paged [OF ok(2)])
  have len: "4 < length (nextf demo0)" "brk ?h \<noteq> - 1"
    by (simp_all add: demo0_def kinit_def demo_heap_def NBUCKETS_def)
  have pw: "(4::nat) < 28" "of_nat (2 ^ (4 + 3)) = (128 :: u64)" by simp_all
  have "morecore os (of_nat 4) demo0 =
      (let (op, h) = sbrk os (of_nat 4096) ?h; s1 = demo0\<lparr>hp := h\<rparr>
       in if op = - 1 then Some s1
          else do { s2 \<leftarrow> set_nextf 4 op s1; carve op 128 32 s2 })"
    using morecore_eq [OF pd, of 4] pw unfolding p(1) A by (simp only: of_nat_numeral)
  then have "morecore os (of_nat 4) demo0 = Some (?s1\<lparr>hp := ?h1\<lparr>bytes := m\<rparr>\<rparr>)"
    using sb(1) m(1) len by (simp add: set_nextf_def Let_def)
  then have eq: "s = ?s1\<lparr>hp := ?h1\<lparr>bytes := m\<rparr>\<rparr>" using s(1) by simp
  show ?thesis
  proof (rule that [OF s(2) booted_same [OF wf0(2) s(4)]])
    show "pagesz s = 4096" "realloc_srchlen s = 4"
      using s(4) by (simp_all add: same_vars_def demo0_def kinit_def)
    show "used g = {}" using s(3) by (simp add: ghost0_def)
    show "chain (ld64 (bytes (hp s))) (nextf s ! 4) (run 0x10ff8 128 32)"
      using m(2) unfolding eq b by (simp add: demo0_def kinit_def NBUCKETS_def)
    show "nextf s ! c = 0" if "c \<noteq> 4" "c < NBUCKETS" for c
      using that unfolding eq by (simp add: demo0_def kinit_def)
  qed
qed

text \<open>One block of bucket 4 in use.\<close>

lemma demo_used:
  assumes os: "os = linux \<or> os = pages_only"
  obtains g s op where "kwf os g s" and "booted os s" and "pagesz s = 4096"
    and "op \<in> used g" and "blk g op = Some 4"
    and "\<And>b. b \<noteq> 4 \<Longrightarrow> b < NBUCKETS \<Longrightarrow> nextf s ! b = 0"
    and "nextf s ! 4 = 0x11078"
proof -
  obtain g s where s: "kwf os g s" "booted os s" "pagesz s = 4096"
      "chain (ld64 (bytes (hp s))) (nextf s ! 4) (run 0x10ff8 128 32)"
      "\<And>b. b \<noteq> 4 \<Longrightarrow> b < NBUCKETS \<Longrightarrow> nextf s ! b = 0"
    using demo_list [OF os] by metis
  let ?op = "nextf s ! 4"
  have "?op \<noteq> 0"
  proof
    assume "?op = 0"
    then have "run 0x10ff8 128 32 = []" using s(4) by simp
    then show False by (simp add: numeral_eq_Suc)
  qed
  note t = take_wf [OF s(1) _ refl this, simplified]
  have "run 0x10ff8 128 32 = 0x10ff8 # 0x11078 # run 0x110f8 128 30" by (simp add: numeral_eq_Suc)
  then have second: "ld64 (bytes (hp s)) ?op = 0x11078" using s(4) by simp
  have "4 < length (nextf s)" using wf_nextf_length [OF s(1)] by (simp add: NBUCKETS_def)
  note second = second this
  let ?s = "s\<lparr>nextf := (nextf s)[4 := ld64 (bytes (hp s)) ?op],
    hp := (hp s)\<lparr>bytes := (bytes (hp s))(?op := MAGIC, ?op + 1 := of_nat 4)\<rparr>\<rparr>"
  show ?thesis
  proof (rule that [of "take_block ?op g" ?s ?op])
    show "kwf os (take_block ?op g) ?s" using t(2) by simp
    show "booted os ?s" by (rule booted_same [OF s(2)]) (simp add: same_vars_def)
    show "?op \<in> used (take_block ?op g)" by (simp add: take_block_def)
    show "blk (take_block ?op g) ?op = Some 4" using t(1) by (simp add: free_of_def take_block_def)
  qed (use s(3,5) second in simp_all)
qed

text \<open>One free block of bucket 4 at the head of its list.\<close>

lemma demo_free:
  obtains g s op where "kwf linux g s" and "booted linux s" and "pagesz s = 4096"
    and "op \<in> free_of g 4" and "nextf s ! 4 = op" and "op \<noteq> 0"
proof -
  obtain g s where s: "kwf linux g s" "booted linux s" "pagesz s = 4096"
      "chain (ld64 (bytes (hp s))) (nextf s ! 4) (run 0x10ff8 128 32)"
    using demo_list [OF disjI1 [OF refl]] by metis
  have nz: "nextf s ! 4 \<noteq> 0"
  proof
    assume "nextf s ! 4 = 0"
    then have "run 0x10ff8 128 32 = []" using s(4) by simp
    then show False by (simp add: numeral_eq_Suc)
  qed
  have "nextf s ! 4 \<in> free_of g 4" using take_wf(1) [OF s(1) _ refl nz] by simp
  then show ?thesis using that [OF s(1-3) _ refl nz] by blast
qed

end
