(* ===== verification/Full_Allocator.thy ===== *)
theory Full_Allocator
  imports Allocator
begin

text \<open>
  The interface of a whole allocator: besides the calls of \<open>Allocator\<close> a client resizes its
  objects and asks for zeroed ones. The locale extends that of \<open>Allocator\<close> with the laws of the two
  operations; zeroing may fail to return, and then the law names the reason. Its lemmas show once
  that any sequence of requests behaves as on the abstract objects up to the first such failure.
\<close>

section \<open>Requests\<close>

datatype ('r, 'z) request = Call "'r call" | Resize u64 'r | Zalloc 'z

text \<open>A client resizes what is live, or NULL; \<^term>\<open>Resize\<close> of anything else is not made.\<close>

fun perform where
  "perform alloc release poke need realloc zalloc zneed (Call c) Ls = serve alloc release poke need c Ls"
| "perform alloc release poke need realloc zalloc zneed (Resize p r) (L, s) =
     (if p \<noteq> 0 \<and> L p = None then Some (L, s)
      else do {
        (q, s) \<leftarrow> realloc p r s;
        Some (if q = 0 then L(p := None) else (L(p := None))(q \<mapsto> need r), s) })"
| "perform alloc release poke need realloc zalloc zneed (Zalloc z) (L, s) = do {
     (p, s) \<leftarrow> zalloc z s;
     Some (if p = 0 then L else L(p \<mapsto> zneed z), s) }"

fun perform_all where
  "perform_all alloc release poke need realloc zalloc zneed [] Ls = Some Ls"
| "perform_all alloc release poke need realloc zalloc zneed (c # cs) Ls = do {
     Ls \<leftarrow> perform alloc release poke need realloc zalloc zneed c Ls;
     perform_all alloc release poke need realloc zalloc zneed cs Ls }"

section \<open>Abstract objects\<close>

text \<open>
  Resizing keeps what fits of the old contents, perhaps at another address, or loses the object;
  a zeroed object is all zero.
\<close>

inductive request_step ::
    "('r \<Rightarrow> nat) \<Rightarrow> ('z \<Rightarrow> nat) \<Rightarrow> ('r, 'z) request \<Rightarrow> objects \<Rightarrow> objects \<Rightarrow> bool"
  for need zneed where
  call: "object_step need c A B \<Longrightarrow> request_step need zneed (Call c) A B"
| resize: "A p = Some xs \<Longrightarrow> q = p \<or> A q = None \<Longrightarrow> q \<noteq> 0 \<Longrightarrow> length ys = need r \<Longrightarrow>
     take (length xs) ys = take (need r) xs \<Longrightarrow>
     request_step need zneed (Resize p r) A ((A(p := None))(q \<mapsto> ys))"
| fresh: "A q = None \<Longrightarrow> q \<noteq> 0 \<Longrightarrow> length ys = need r \<Longrightarrow>
     request_step need zneed (Resize 0 r) A (A(q \<mapsto> ys))"
| lose: "request_step need zneed (Resize p r) A (A(p := None))"
| zeroed: "A q = None \<Longrightarrow> q \<noteq> 0 \<Longrightarrow>
     request_step need zneed (Zalloc z) A (A(q \<mapsto> replicate (zneed z) 0))"
| refuse: "request_step need zneed (Zalloc z) A A"

inductive request_run ::
    "('r \<Rightarrow> nat) \<Rightarrow> ('z \<Rightarrow> nat) \<Rightarrow> ('r, 'z) request list \<Rightarrow> objects \<Rightarrow> objects \<Rightarrow> bool"
  for need zneed where
  stop: "request_run need zneed [] A A"
| step: "request_step need zneed c A B \<Longrightarrow> request_run need zneed cs B C \<Longrightarrow>
     request_run need zneed (c # cs) A C"

inductive_simps request_run_simps [simp]:
  "request_run need zneed [] A B" "request_run need zneed (c # cs) A B"

section \<open>The laws\<close>

locale full_allocator = total_allocator alloc release poke peek need valid
  for alloc :: "'r \<Rightarrow> 's \<Rightarrow> (u64 \<times> 's) option" and release poke peek need valid +
  fixes realloc :: "u64 \<Rightarrow> 'r \<Rightarrow> 's \<Rightarrow> (u64 \<times> 's) option"
    and zalloc :: "'z \<Rightarrow> 's \<Rightarrow> (u64 \<times> 's) option"
    and zneed :: "'z \<Rightarrow> nat"
    and fails :: "'z \<Rightarrow> 's \<Rightarrow> bool"
  assumes realloc_ok: "valid L s \<Longrightarrow> p = 0 \<or> L p \<noteq> None \<Longrightarrow>
      \<exists>q s'. realloc p r s = Some (q, s') \<and> (q = p \<or> L q = None) \<and>
        valid (if q = 0 then L(p := None) else (L(p := None))(q \<mapsto> need r)) s' \<and>
        (\<forall>x n i. L x = Some n \<longrightarrow> x \<noteq> p \<longrightarrow> i < n \<longrightarrow> peek s' (x + of_nat i) = peek s (x + of_nat i)) \<and>
        (\<forall>n i. L p = Some n \<longrightarrow> q \<noteq> 0 \<longrightarrow> i < min n (need r) \<longrightarrow>
          peek s' (q + of_nat i) = peek s (p + of_nat i))"
    and zalloc_ok: "valid L s \<Longrightarrow> zalloc z s = Some (q, s') \<Longrightarrow> L q = None \<and>
        valid (if q = 0 then L else L(q \<mapsto> zneed z)) s' \<and>
        (\<forall>x n i. L x = Some n \<longrightarrow> i < n \<longrightarrow> peek s' (x + of_nat i) = peek s (x + of_nat i)) \<and>
        (q \<noteq> 0 \<longrightarrow> (\<forall>i < zneed z. peek s' (q + of_nat i) = 0))"
    and zalloc_fails: "valid L s \<Longrightarrow> zalloc z s = None \<Longrightarrow> fails z s"
begin

abbreviation "req \<equiv> perform alloc release poke need realloc zalloc zneed"
abbreviation "reqs \<equiv> perform_all alloc release poke need realloc zalloc zneed"

lemma null_free: "valid L s \<Longrightarrow> L 0 = None"
  using in_space by (cases "L 0") blast+

text \<open>The one way the abstraction grows: an object appears, some of the others are left alone.\<close>

lemma represents_put:
  assumes rep: "represents A s" and sub: "B \<subseteq>\<^sub>m A" and val: "valid (sizes (B(q \<mapsto> ys))) s'"
    and kept: "\<And>x n i. sizes B x = Some n \<Longrightarrow> i < n \<Longrightarrow> peek s' (x + of_nat i) = peek s (x + of_nat i)"
    and new: "\<And>i. i < length ys \<Longrightarrow> peek s' (q + of_nat i) = ys ! i"
  shows "represents (B(q \<mapsto> ys)) s'"
proof -
  have "peek s' (x + of_nat i) = xs ! i" if "B x = Some xs" "i < length xs" for x xs i
  proof -
    have "A x = Some xs" using sub that(1) by (auto simp: map_le_def dom_def)
    then show ?thesis using rep kept [of x "length xs" i] that by (simp add: represents_def sizes_def)
  qed
  then show ?thesis using val new by (auto simp: represents_def)
qed

lemma represents_less:
  assumes rep: "represents A s" and val: "valid (sizes (A(p := None))) s'"
    and kept: "\<And>x n i. sizes A x = Some n \<Longrightarrow> x \<noteq> p \<Longrightarrow> i < n \<Longrightarrow>
      peek s' (x + of_nat i) = peek s (x + of_nat i)"
  shows "represents (A(p := None)) s'"
  using rep val kept by (auto simp: represents_def sizes_def)

lemma resize_simulates:
  assumes rep: "represents A s"
  shows "\<exists>A' s'. req (Resize p r) (sizes A, s) = Some (sizes A', s') \<and>
    request_step need zneed (Resize p r) A A' \<and> represents A' s'"
proof (cases "p \<noteq> 0 \<and> A p = None")
  case True
  then have "A(p := None) = A" by auto
  then have "request_step need zneed (Resize p r) A A" using request_step.lose [of need zneed p r A] by simp
  then show ?thesis using True rep by (intro exI [of _ A] exI [of _ s]) simp
next
  case False
  have val: "valid (sizes A) s" using rep by (simp add: represents_def)
  have "p = 0 \<or> sizes A p \<noteq> None" using False by auto
  then obtain q s' where s': "realloc p r s = Some (q, s')" "q = p \<or> A q = None"
      "valid (if q = 0 then (sizes A)(p := None) else ((sizes A)(p := None))(q \<mapsto> need r)) s'"
      "\<And>x n i. sizes A x = Some n \<Longrightarrow> x \<noteq> p \<Longrightarrow> i < n \<Longrightarrow> peek s' (x + of_nat i) = peek s (x + of_nat i)"
      "\<And>n i. sizes A p = Some n \<Longrightarrow> q \<noteq> 0 \<Longrightarrow> i < min n (need r) \<Longrightarrow>
        peek s' (q + of_nat i) = peek s (p + of_nat i)"
    using realloc_ok [OF val, of p r] by (simp only: sizes_simps) blast
  show ?thesis
  proof (cases "q = 0")
    case True
    then have "represents (A(p := None)) s'" using represents_less [OF rep _ s'(4)] s'(3) by simp
    then show ?thesis using False True s'(1) request_step.lose [of need zneed p r A]
      by (intro exI [of _ "A(p := None)"] exI [of _ s']) auto
  next
    case q: False
    define ys where "ys = map (\<lambda>i. peek s' (q + of_nat i)) [0..<need r]"
    let ?B = "(A(p := None))(q \<mapsto> ys)"
    have len: "length ys = need r" by (simp add: ys_def)
    have val': "valid (sizes ?B) s'" using s'(3) q by (simp flip: len)
    have "represents ?B s'"
      by (rule represents_put [OF rep _ val'])
        (use s'(4) in \<open>auto simp: ys_def map_le_def sizes_def split: if_splits\<close>)
    moreover have "request_step need zneed (Resize p r) A ?B"
    proof (cases "A p")
      case None
      then have "p = 0" "A q = None" "A(p := None) = A" using False s'(2) by auto
      then show ?thesis using q len by (simp add: request_step.fresh)
    next
      case (Some xs)
      have "peek s' (q + of_nat i) = xs ! i" if "i < length xs" "i < need r" for i
        using s'(5) [of "length xs" i] Some that q rep by (simp add: sizes_def represents_def)
      then have "take (length xs) ys = take (need r) xs"
        by (intro nth_equalityI) (auto simp: ys_def)
      with Some s'(2) q len show ?thesis by (rule request_step.resize)
    qed
    ultimately show ?thesis using False s'(1) q
      by (intro exI [of _ ?B] exI [of _ s']) (auto simp flip: len)
  qed
qed

lemma zalloc_simulates:
  assumes rep: "represents A s" and runs: "zalloc z s \<noteq> None"
  shows "\<exists>A' s'. req (Zalloc z) (sizes A, s) = Some (sizes A', s') \<and>
    request_step need zneed (Zalloc z) A A' \<and> represents A' s'"
proof -
  have val: "valid (sizes A) s" using rep by (simp add: represents_def)
  obtain q s' where z: "zalloc z s = Some (q, s')" using runs by auto
  then have s': "A q = None" "valid (if q = 0 then sizes A else (sizes A)(q \<mapsto> zneed z)) s'"
      "\<And>x n i. sizes A x = Some n \<Longrightarrow> i < n \<Longrightarrow> peek s' (x + of_nat i) = peek s (x + of_nat i)"
      "q \<noteq> 0 \<Longrightarrow> \<forall>i < zneed z. peek s' (q + of_nat i) = 0"
    using zalloc_ok [OF val z] by auto
  show ?thesis
  proof (cases "q = 0")
    case True
    then have "A(0 := None) = A" using s'(1) by auto
    then have "represents A s'" using represents_less [OF rep, of 0 s'] s'(2,3) True by simp
    then show ?thesis using True z request_step.refuse [of need zneed z A]
      by (intro exI [of _ A] exI [of _ s']) simp
  next
    case False
    let ?ys = "replicate (zneed z) 0" and ?B = "A(q \<mapsto> replicate (zneed z) 0)"
    have len: "length ?ys = zneed z" by simp
    have val': "valid (sizes ?B) s'" using s'(2) False by (simp flip: sizes_simps(2))
    have "represents ?B s'"
      by (rule represents_put [OF rep _ val']) (use s'(3,4) False in auto)
    moreover have "request_step need zneed (Zalloc z) A ?B"
      using s'(1) False by (rule request_step.zeroed)
    ultimately show ?thesis using z False
      by (intro exI [of _ ?B] exI [of _ s']) (simp flip: sizes_simps(2))
  qed
qed

lemma request_simulates:
  assumes rep: "represents A s" and runs: "\<And>z. c = Zalloc z \<Longrightarrow> zalloc z s \<noteq> None"
  shows "\<exists>A' s'. req c (sizes A, s) = Some (sizes A', s') \<and> request_step need zneed c A A' \<and>
    represents A' s'"
proof (cases c)
  case (Call d)
  have "valid (sizes A) s" using rep by (simp add: represents_def)
  then have "alloc r s \<noteq> None" for r by (rule alloc_total)
  then show ?thesis using serve_simulates [OF rep] Call request_step.call by fastforce
next
  case (Resize p r)
  then show ?thesis using resize_simulates [OF rep] by simp
next
  case (Zalloc z)
  then show ?thesis using zalloc_simulates [OF rep] runs by simp
qed

text \<open>Any sequence of requests: either all are served, or one for zeroed memory fails first.\<close>

lemma requests_refine:
  assumes "represents A s"
  shows "case reqs cs (sizes A, s) of
      Some (L, s') \<Rightarrow> \<exists>A'. L = sizes A' \<and> request_run need zneed cs A A' \<and> represents A' s'
    | None \<Rightarrow> \<exists>ds z es L t. cs = ds @ Zalloc z # es \<and> reqs ds (sizes A, s) = Some (L, t) \<and> fails z t"
  using assms
proof (induction cs arbitrary: A s)
  case Nil
  then show ?case by auto
next
  case (Cons c cs)
  show ?case
  proof (cases "\<exists>z. c = Zalloc z \<and> zalloc z s = None")
    case True
    then obtain z where z: "c = Zalloc z" "zalloc z s = None" by blast
    have "fails z s" using zalloc_fails [OF _ z(2)] Cons.prems by (auto simp: represents_def)
    then have "\<exists>ds z' es L t. c # cs = ds @ Zalloc z' # es \<and> reqs ds (sizes A, s) = Some (L, t) \<and> fails z' t"
      using z(1) by (intro exI [of _ "[]"] exI [of _ z] exI [of _ cs]) simp
    then show ?thesis using z by simp
  next
    case False
    then have "zalloc z s \<noteq> None" if "c = Zalloc z" for z using False that by auto
    then obtain B t where B: "req c (sizes A, s) = Some (sizes B, t)"
        "request_step need zneed c A B" "represents B t"
      using request_simulates [OF Cons.prems] by blast
    have front: "reqs (c # ds) (sizes A, s) = reqs ds (sizes B, t)" for ds using B(1) by simp
    show ?thesis
    proof (cases "reqs cs (sizes B, t)")
      case None
      then obtain ds z es L u where "cs = ds @ Zalloc z # es" "reqs ds (sizes B, t) = Some (L, u)"
          "fails z u"
        using Cons.IH [OF B(3)] by auto
      moreover have none: "reqs (c # cs) (sizes A, s) = None" using front None by simp
      ultimately show ?thesis using front [of ds] unfolding none option.case
        by - (rule exI [of _ "c # ds"], intro exI, simp)
    next
      case (Some Lu)
      then show ?thesis using Cons.IH [OF B(3)] B(2) front [of cs]
        by (cases Lu) (auto simp del: perform_all.simps)
    qed
  qed
qed

lemma program_safe:
  assumes "valid (\<lambda>_. None) s"
  shows "case reqs cs (\<lambda>_. None, s) of
      Some (L, s') \<Rightarrow> \<exists>A. L = sizes A \<and> request_run need zneed cs (\<lambda>_. None) A \<and>
        (\<forall>p xs i. A p = Some xs \<longrightarrow> i < length xs \<longrightarrow> peek s' (p + of_nat i) = xs ! i) \<and>
        (\<forall>p q xs ys. A p = Some xs \<longrightarrow> A q = Some ys \<longrightarrow> p \<noteq> q \<longrightarrow>
           unat p + length xs \<le> unat q \<or> unat q + length ys \<le> unat p)
    | None \<Rightarrow> \<exists>ds z es L t. cs = ds @ Zalloc z # es \<and> reqs ds (\<lambda>_. None, s) = Some (L, t) \<and> fails z t"
proof (cases "reqs cs (\<lambda>_. None, s)")
  case None
  then show ?thesis using requests_refine [OF represents_none [OF assms], of cs] by simp
next
  case (Some Ls)
  then obtain L s' where Ls: "reqs cs (\<lambda>_. None, s) = Some (L, s')" by (cases Ls) simp
  then obtain A where A: "L = sizes A" "request_run need zneed cs (\<lambda>_. None) A" "represents A s'"
    using requests_refine [OF represents_none [OF assms], of cs] by auto
  then show ?thesis using represents_apart [OF A(3)] unfolding Ls option.case prod.case
    by (intro exI [of _ A]) (auto simp: represents_def)
qed

end

end
