(* ===== verification/Kmalloc_Program.thy ===== *)
theory Kmalloc_Program
  imports Kmalloc_Client Full_Allocator
begin

text \<open>
  \<open>kmalloc\<close>, \<open>kfree\<close>, \<open>krealloc\<close> and \<open>kcalloc\<close> together are a whole allocator: the laws of
  resizing and zeroing hold for the model in every state a client can reach.
\<close>

section \<open>The operations as a client calls them\<close>

definition kzalloc :: "os \<Rightarrow> u64 \<times> u64 \<Rightarrow> kstate \<Rightarrow> (u64 \<times> kstate) option" where
  "kzalloc os = (\<lambda>(nelem, elsize). kcalloc os nelem elsize)"

definition kzneed :: "u64 \<times> u64 \<Rightarrow> nat" where
  "kzneed = (\<lambda>(nelem, elsize). unat (nelem * elsize))"

text \<open>\<open>kcalloc\<close> clears what \<open>kmalloc\<close> returned, also when that is NULL.\<close>

definition clears_null :: "os \<Rightarrow> u64 \<times> u64 \<Rightarrow> kstate \<Rightarrow> bool" where
  "clears_null os = (\<lambda>(nelem, elsize) s. nelem * elsize \<noteq> 0 \<and>
     (case kmalloc os (nelem * elsize) s of Some (p, _) \<Rightarrow> p = 0 | None \<Rightarrow> False))"

section \<open>Resizing\<close>

lemma hosts_resized:
  assumes "hosts g pg L" and "op \<in> used g" and "blk g op = Some b" and "n \<le> capacity pg b"
  shows "hosts g pg (L(op + sizeof_overhead \<mapsto> n))"
  using assms unfolding hosts_def by auto

lemma kvalid_null: "kvalid os L s \<Longrightarrow> L 0 = None"
  using kvalid_space [of os L s 0] by (cases "L 0") auto

lemma kvalid_move:
  assumes run: "os_ok os" "kwf os g s" "booted os s" "hosts g (unat (pagesz s)) L"
      "p = op + sizeof_overhead" "op \<in> used g" "blk g op = Some b" "n \<le> capacity (unat (pagesz s)) b"
    and r: "r \<noteq> 0" "bucket_for (unat (pagesz s)) (unat r) \<noteq> Some b"
  shows "\<exists>q s'. krealloc os p r s = Some (q, s') \<and> (q = p \<or> L q = None) \<and>
    kvalid os (if q = 0 then L(p := None) else (L(p := None))(q \<mapsto> unat r)) s' \<and>
    (\<forall>x n i. L x = Some n \<longrightarrow> x \<noteq> p \<longrightarrow> i < n \<longrightarrow> kpeek s' (x + of_nat i) = kpeek s (x + of_nat i)) \<and>
    (q \<noteq> 0 \<longrightarrow> (\<forall>i < min n (unat r). kpeek s' (q + of_nat i) = kpeek s (p + of_nat i)))"
proof -
  let ?pg = "unat (pagesz s)" and ?g = "free_block op g" and ?L = "L(p := None)"
  obtain q s' g' where s': "krealloc os p r s = Some (q, s')" "kwf os g' s'"
      "blk g \<subseteq>\<^sub>m blk g'" "same_vars s s'" "kept ?g s s'"
      "if q = 0 then used g' = used g - {op} else reallocates ?pg b (unat r) g op s q g' s'"
    using krealloc_wf [OF run(2,3,1,6,7) r] run(5) by auto
  have sub: "blk ?g \<subseteq>\<^sub>m blk g'" using s'(3) by (simp add: free_block_def)
  have pg: "pagesz s' = pagesz s" using s'(4) by (simp add: same_vars_def)
  have h: "hosts ?g ?pg ?L" by (rule hosts_free [OF run(4,5)])
  have "kpeek s' (x + of_nat i) = kpeek s (x + of_nat i)" if "L x = Some m" "x \<noteq> p" "i < m" for x m i
    using kept_object [OF s'(5) h, of x m i] that by (simp add: kpeek_def)
  moreover have "(q = p \<or> L q = None) \<and> kvalid os (if q = 0 then ?L else ?L(q \<mapsto> unat r)) s' \<and>
      (q \<noteq> 0 \<longrightarrow> (\<forall>i < min n (unat r). kpeek s' (q + of_nat i) = kpeek s (p + of_nat i)))"
  proof (cases "q = 0")
    case True
    then have "hosts g' ?pg ?L" using hosts_same [OF h _ sub] s'(6) by (simp add: free_block_def)
    then have "kvalid os ?L s'" using run(1) s'(2) booted_same [OF run(3) s'(4)] pg
      by (auto simp: kvalid_def)
    moreover have "kvalid os L s" using run(1-4) by (auto simp: kvalid_def)
    ultimately show ?thesis using True kvalid_null by simp
  next
    case False
    then have new: "allocates ?pg (unat r) ?g q g'"
        "\<forall>i < min (unat r) (capacity ?pg b). bytes (hp s') (q + of_nat i) = bytes (hp s) (p + of_nat i)"
      using s'(6) run(5) by (simp_all add: reallocates_def)
    have "kvalid os (?L(q \<mapsto> unat r)) s'"
      using run(1) s'(2) booted_same [OF run(3) s'(4)] hosts_alloc(1) [OF h new(1) sub] pg
      by (auto simp: kvalid_def)
    moreover have "q = p \<or> L q = None"
      using hosts_alloc(2) [OF h new(1) sub] by (auto split: if_splits)
    ultimately show ?thesis using False new(2) run(8) by (auto simp: kpeek_def)
  qed
  ultimately show ?thesis using s'(1) by blast
qed

lemma kvalid_resize:
  assumes val: "kvalid os L s" and p: "p = 0 \<or> L p \<noteq> None"
  shows "\<exists>q s'. krealloc os p r s = Some (q, s') \<and> (q = p \<or> L q = None) \<and>
    kvalid os (if q = 0 then L(p := None) else (L(p := None))(q \<mapsto> unat r)) s' \<and>
    (\<forall>x n i. L x = Some n \<longrightarrow> x \<noteq> p \<longrightarrow> i < n \<longrightarrow> kpeek s' (x + of_nat i) = kpeek s (x + of_nat i)) \<and>
    (\<forall>n i. L p = Some n \<longrightarrow> q \<noteq> 0 \<longrightarrow> i < min n (unat r) \<longrightarrow>
       kpeek s' (q + of_nat i) = kpeek s (p + of_nat i))"
proof -
  note L0 = kvalid_null [OF val]
  show ?thesis
  proof (cases "L p")
    case None
    have "p = 0" "L(p := None) = L" using None p by auto
    obtain q s' where "kmalloc os r s = Some (q, s')" "L q = None"
        "kvalid os (if q = 0 then L else L(q \<mapsto> unat r)) s'"
        "\<forall>x n i. L x = Some n \<longrightarrow> i < n \<longrightarrow> kpeek s' (x + of_nat i) = kpeek s (x + of_nat i)"
      using kvalid_alloc [OF val, of r] by blast
    then show ?thesis using \<open>p = 0\<close> \<open>L(p := None) = L\<close> None
      by (intro exI [of _ q] exI [of _ s'], cases "q = 0") (simp_all add: krealloc_def)
  next
    case (Some n)
    then have nz: "p \<noteq> 0" using L0 by auto
    obtain g op b where run: "os_ok os" "kwf os g s" "booted os s" "hosts g (unat (pagesz s)) L"
        "p = op + sizeof_overhead" "op \<in> used g" "blk g op = Some b" "n \<le> capacity (unat (pagesz s)) b"
      using val Some by (rule kvalid_run)
    consider "r = 0" | "r \<noteq> 0" "bucket_for (unat (pagesz s)) (unat r) = Some b"
      | "r \<noteq> 0" "bucket_for (unat (pagesz s)) (unat r) \<noteq> Some b"
      by blast
    then show ?thesis
    proof cases
      case 1
      then show ?thesis using kvalid_free [OF val Some] nz L0 by (auto simp: krealloc_def)
    next
      case 2
      then have eq: "krealloc os p r s = Some (p, s)"
        using krealloc_used_eq [OF run(2,6,7) 2(1)] run(5) by simp
      have "hosts g (unat (pagesz s)) (L(p \<mapsto> unat r))"
        unfolding run(5) using 2(2) by (intro hosts_resized [OF run(4,6,7)]) (simp add: bucket_for_Some)
      then have "kvalid os (L(p \<mapsto> unat r)) s" using run(1-3) by (auto simp: kvalid_def)
      then show ?thesis using eq nz by simp
    next
      case 3
      from kvalid_move [OF run 3] show ?thesis using Some by auto
    qed
  qed
qed

section \<open>Zeroed objects\<close>

lemma kvalid_memset_null:
  assumes "kvalid os L s" and "n \<noteq> 0"
  shows "memset 0 v n (hp s) = None"
proof -
  have "0 < unat (heap_lo (hp s))"
    using assms(1) by (auto simp: kvalid_def kwf_def heap_ok_def start_ok_def kinit_def unat_gt_0)
  then show ?thesis using assms(2) by (simp add: memset_def mapped_def)
qed

lemma kvalid_zalloc:
  assumes val: "kvalid os L s" and z: "kzalloc os (n, m) s = Some (q, s')"
  shows "L q = None \<and> kvalid os (if q = 0 then L else L(q \<mapsto> unat (n * m))) s' \<and>
    (\<forall>x n i. L x = Some n \<longrightarrow> i < n \<longrightarrow> kpeek s' (x + of_nat i) = kpeek s (x + of_nat i)) \<and>
    (q \<noteq> 0 \<longrightarrow> (\<forall>i < unat (n * m). kpeek s' (q + of_nat i) = 0))"
proof -
  obtain s1 where s1: "kmalloc os (n * m) s = Some (q, s1)" "L q = None"
      "kvalid os (if q = 0 then L else L(q \<mapsto> unat (n * m))) s1"
      "\<And>x k i. L x = Some k \<Longrightarrow> i < k \<Longrightarrow> kpeek s1 (x + of_nat i) = kpeek s (x + of_nat i)"
    using kvalid_alloc [OF val, of "n * m"] z
    by (auto simp: kzalloc_def kcalloc_def split: Option.bind_splits)
  obtain h where h: "memset q 0 (n * m) (hp s1) = Some h" "s' = s1\<lparr>hp := h\<rparr>"
    using z s1(1) by (auto simp: kzalloc_def kcalloc_def split: Option.bind_splits)
  show ?thesis
  proof (cases "q = 0")
    case True
    then have "n * m = 0" using kvalid_memset_null [of os L s1 "n * m" 0] h(1) s1(3) by auto
    then have "s' = s1" using h by (simp add: memset_def)
    then show ?thesis using s1 True by simp
  next
    case False
    then obtain g op b where run: "os_ok os" "kwf os g s1" "booted os s1"
        "hosts g (unat (pagesz s1)) (L(q \<mapsto> unat (n * m)))" "q = op + sizeof_overhead" "op \<in> used g"
        "blk g op = Some b" "unat (n * m) \<le> capacity (unat (pagesz s1)) b"
      using kvalid_run [of os _ s1 q "unat (n * m)"] s1(3) by (metis fun_upd_same)
    have "unat (n * m) < 2 ^ 64" using unat_lt64 [of "n * m"] by simp
    moreover have "of_nat (unat (n * m)) = n * m" by simp
    ultimately obtain h' where h': "memset q 0 (n * m) (hp s1) = Some h'" "kwf os g (s1\<lparr>hp := h'\<rparr>)"
        "\<And>i. i < unat (n * m) \<Longrightarrow> bytes h' (q + of_nat i) = 0"
        "\<And>y c i. blk g y = Some c \<Longrightarrow> y \<noteq> op \<Longrightarrow> i < extent (unat (pagesz s1)) c \<Longrightarrow>
          bytes h' (y + of_nat i) = bytes (hp s1) (y + of_nat i)"
      using memset_block [OF run(2,7,8), of 0] run(5) by metis
    have hh: "h' = h" using h(1) h'(1) by simp
    have "kvalid os (L(q \<mapsto> unat (n * m))) s'"
      using run(1,3,4) h'(2) hh h(2) unfolding kvalid_def by (auto simp: booted_def paged_def)
    moreover have "kpeek s' (x + of_nat i) = kpeek s (x + of_nat i)" if x: "L x = Some k" "i < k" for x k i
    proof -
      have "x \<noteq> q" using x(1) s1(2) by auto
      then have "(L(q \<mapsto> unat (n * m))) x = Some k" using x(1) by simp
      with run(4) obtain y c where y: "x = y + sizeof_overhead" "blk g y = Some c"
          "k \<le> capacity (unat (pagesz s1)) c"
        by (metis hostsE)
      then have "y \<noteq> op" "8 + i < extent (unat (pagesz s1)) c"
        using \<open>x \<noteq> q\<close> run(5) x(2) extent_capacity [of "unat (pagesz s1)" c] by auto
      then have "bytes h' (y + of_nat (8 + i)) = bytes (hp s1) (y + of_nat (8 + i))"
        using h'(4) y(2) by blast
      then show ?thesis using s1(4) [OF x] y(1) hh h(2)
        by (simp add: kpeek_def sizeof_overhead_def algebra_simps)
    qed
    ultimately show ?thesis using False s1(2) h'(3) hh h(2) by (simp add: kpeek_def)
  qed
qed

lemma kzalloc_clears_null:
  assumes val: "kvalid os L s" and none: "kzalloc os (n, m) s = None"
  shows "clears_null os (n, m) s"
proof -
  obtain q s1 where s1: "kmalloc os (n * m) s = Some (q, s1)"
      "kvalid os (if q = 0 then L else L(q \<mapsto> unat (n * m))) s1"
    using kvalid_alloc [OF val, of "n * m"] by blast
  have fault: "memset q 0 (n * m) (hp s1) = None"
    using none s1(1) by (auto simp: kzalloc_def kcalloc_def split: Option.bind_splits)
  have "q = 0"
  proof (rule ccontr)
    assume "q \<noteq> 0"
    then obtain g op b where "kwf os g s1" "q = op + sizeof_overhead"
        "blk g op = Some b" "unat (n * m) \<le> capacity (unat (pagesz s1)) b"
      using kvalid_run [of os _ s1 q "unat (n * m)"] s1(2) by (metis fun_upd_same)
    then show False using data_mapped [of os g s1 op b "unat (n * m)"] fault by (simp add: memset_def split: if_splits)
  qed
  moreover have "n * m \<noteq> 0" using fault by (auto simp: memset_def)
  ultimately show ?thesis using s1(1) by (simp add: clears_null_def)
qed

section \<open>The interpretation\<close>

lemma kvalid_zalloc_law:
  assumes "kvalid os L s" and "kzalloc os z s = Some (q, s')"
  shows "L q = None \<and> kvalid os (if q = 0 then L else L(q \<mapsto> kzneed z)) s' \<and>
    (\<forall>x n i. L x = Some n \<longrightarrow> i < n \<longrightarrow> kpeek s' (x + of_nat i) = kpeek s (x + of_nat i)) \<and>
    (q \<noteq> 0 \<longrightarrow> (\<forall>i < kzneed z. kpeek s' (q + of_nat i) = 0))"
proof (cases z)
  case (Pair n m)
  with kvalid_zalloc [OF assms(1), of n m] assms(2) show ?thesis
    by (simp only: kzneed_def prod.case) blast
qed

lemma kvalid_zalloc_fails: "kvalid os L s \<Longrightarrow> kzalloc os z s = None \<Longrightarrow> clears_null os z s"
  by (cases z) (simp add: kzalloc_clears_null)

interpretation kmalloc_whole: full_allocator "kmalloc os" kfree kpoke kpeek unat "kvalid os"
    "krealloc os" "kzalloc os" kzneed "clears_null os" for os
proof unfold_locales
qed (fact kvalid_resize kvalid_zalloc_law kvalid_zalloc_fails)+

end
