(* ===== verification/Kmalloc_Theorems.thy ===== *)
theory Kmalloc_Theorems
  imports Kmalloc_Demo Kmalloc_Program
begin

text \<open>
  The theorems on \<open>kmalloc.c\<close>, each with an instance on a concrete state.
\<close>

section \<open>All calls together\<close>

text \<open>From the state at program start, on every heap whose first move of the break is granted,
  every sequence of allocations, releases and stores runs without undefined behaviour and behaves
  as on abstract objects: a new object is at a fresh address, objects keep what was stored in
  them, and live objects never overlap.\<close>

theorem kmalloc_client_safe:
  assumes "os_ok os" and "start_ok h" and "boots os h"
  shows "\<exists>A s. serve_all (kmalloc os) kfree kpoke unat cs (\<lambda>_. None, kinit h) = Some (sizes A, s) \<and>
    object_run unat cs (\<lambda>_. None) A \<and>
    (\<forall>p xs i. A p = Some xs \<longrightarrow> i < length xs \<longrightarrow> bytes (hp s) (p + of_nat i) = xs ! i) \<and>
    (\<forall>p q xs ys. A p = Some xs \<longrightarrow> A q = Some ys \<longrightarrow> p \<noteq> q \<longrightarrow>
       unat p + length xs \<le> unat q \<or> unat q + length ys \<le> unat p)"
proof -
  have "kvalid os (\<lambda>_. None) (kinit h)" using assms by (auto simp: kvalid_def)
  then show ?thesis using kmalloc_heap.client_safe unfolding kpeek_def by blast
qed

lemma kmalloc_client_safe_witness:
  "\<exists>A s. serve_all (kmalloc linux) kfree kpoke unat [Alloc 100, Alloc 7, Alloc 9000] (\<lambda>_. None, kinit odd_heap) =
    Some (sizes A, s)"
  using kmalloc_client_safe [OF demo_os(1) demo_start(2) demo_gap(1)] by blast

text \<open>C1: The same with \<open>krealloc\<close> and \<open>kcalloc\<close>: when the system grants the first move of the
  break, any sequence of requests from program start either is served and behaves as on abstract
  objects, where resizing keeps what fits and \<open>kcalloc\<close> gives zeroes, or it stops at a \<open>kcalloc\<close>
  whose \<open>kmalloc\<close> returned NULL, which it clears. Then nothing else goes wrong; what happens after
  a first call that is refused is the subject of \<open>kmalloc_after_refusal\<close> in \<open>Kmalloc_Limits\<close>.\<close>

theorem kmalloc_program_safe:
  assumes "os_ok os" and "start_ok h" and "boots os h"
  shows "case perform_all (kmalloc os) kfree kpoke unat (krealloc os) (kzalloc os) kzneed cs
        (\<lambda>_. None, kinit h) of
      Some (L, s) \<Rightarrow> \<exists>A. L = sizes A \<and> request_run unat kzneed cs (\<lambda>_. None) A \<and>
        (\<forall>p xs i. A p = Some xs \<longrightarrow> i < length xs \<longrightarrow> bytes (hp s) (p + of_nat i) = xs ! i) \<and>
        (\<forall>p q xs ys. A p = Some xs \<longrightarrow> A q = Some ys \<longrightarrow> p \<noteq> q \<longrightarrow>
           unat p + length xs \<le> unat q \<or> unat q + length ys \<le> unat p)
    | None \<Rightarrow> \<exists>ds z es L s. cs = ds @ Zalloc z # es \<and>
        perform_all (kmalloc os) kfree kpoke unat (krealloc os) (kzalloc os) kzneed ds
          (\<lambda>_. None, kinit h) = Some (L, s) \<and>
        clears_null os z s"
proof -
  have "kvalid os (\<lambda>_. None) (kinit h)" using assms by (auto simp: kvalid_def)
  then show ?thesis by (rule kmalloc_whole.program_safe [unfolded kpeek_def])
qed

text \<open>A program that asks for zeroes and resizes; its \<open>kcalloc\<close> is served.\<close>

lemma kmalloc_program_safe_witness:
  "case perform_all (kmalloc linux) kfree kpoke unat (krealloc linux) (kzalloc linux) kzneed
      [Zalloc (3, 8), Resize 0 7, Call (Alloc 100), Resize 0 9000] (\<lambda>_. None, kinit odd_heap) of
    Some (L, s) \<Rightarrow> \<exists>A. L = sizes A \<and>
      request_run unat kzneed [Zalloc (3, 8), Resize 0 7, Call (Alloc (100 :: u64)), Resize 0 9000] (\<lambda>_. None) A
  | None \<Rightarrow> False"
proof -
  have "bucket_for 4096 (unat (24 :: u64)) = Some 2" using bucket_for_24 by simp
  then obtain p s where "kmalloc linux 24 (kinit odd_heap) = Some (p, s)" "p \<noteq> 0"
    by (rule first_served) simp
  then have served: "\<not> clears_null linux (3, 8) (kinit odd_heap)" by (simp add: clears_null_def)
  show ?thesis
    using kmalloc_program_safe [OF demo_os(1) demo_start(2) demo_gap(1),
        of "[Zalloc (3, 8), Resize 0 7, Call (Alloc 100), Resize 0 9000]"] served
    by (auto simp: Cons_eq_append_conv simp del: perform_all.simps(2) request_run_simps split: option.splits)
qed

section \<open>kmalloc\<close>

text \<open>C2: In every well-formed state \<open>kmalloc\<close> returns; the new state is well-formed, blocks in
  use keep their contents, and the result is NULL exactly when the request is exhausted, else the
  data area of a block that was not in use, of the smallest bucket that holds the request.\<close>

theorem kmalloc_correct:
  assumes "kwf os g s" and "booted os s" and "os_ok os"
  shows "\<exists>p s' g'. kmalloc os n s = Some (p, s') \<and> kwf os g' s' \<and> blk g \<subseteq>\<^sub>m blk g' \<and> kept g s s' \<and>
    (p = 0 \<longleftrightarrow> exhausted os s (unat n)) \<and>
    (if p = 0 then used g' = used g else allocates (unat (pagesz s)) (unat n) g p g')"
proof -
  obtain p s' g' where s': "kmalloc os n s = Some (p, s')" "kwf os g' s'" "blk g \<subseteq>\<^sub>m blk g'"
      "writes_header (p - sizeof_overhead) s s'" "p = 0 \<longleftrightarrow> exhausted os s (unat n)"
      "if p = 0 then used g' = used g else allocates (unat (pagesz s)) (unat n) g p g'"
    using kmalloc_wf [OF assms] by metis
  have "kept g s s'" by (rule kmalloc_kept [OF assms(1) s'(2,3,4,6)])
  then show ?thesis using s' by (intro exI [of _ p] exI [of _ s'] exI [of _ g']) blast
qed

lemma demo0_room: "\<not> exhausted linux demo0 100"
  using bucket_for_100
  by (simp add: exhausted_def demo0_def kinit_def NBUCKETS_def linux_def demo_heap_def amount_def)

lemma kmalloc_correct_witness: "\<exists>p s. kmalloc linux 100 demo0 = Some (p, s) \<and> p \<noteq> 0"
proof -
  obtain p s' where "kmalloc linux 100 demo0 = Some (p, s')" "p = 0 \<longleftrightarrow> exhausted linux demo0 (unat (100 :: u64))"
    using kmalloc_correct [OF demo0_wf [OF demo_os(1,4)] demo_os(1), of 100] by metis
  then show ?thesis using demo0_room by simp
qed

text \<open>C15: The size computation of \<open>kmalloc\<close>, two loops on 32- and 64-bit words, chooses the first
  bucket whose capacity covers the request, and none when even bucket 28 is too small.\<close>

theorem kmalloc_bucket_smallest:
  assumes "booted os s"
  shows "kmalloc_bucket s n = map_option of_nat (find (\<lambda>b. unat n \<le> capacity (unat (pagesz s)) b) [0..<29])"
  using kmalloc_bucket_eq [OF assms] by (simp add: bucket_for_def)

lemma kmalloc_bucket_smallest_witness: "kmalloc_bucket demo0 100 = Some 4"
proof -
  have "find (\<lambda>b. unat (100 :: u64) \<le> capacity (unat (pagesz demo0)) b) [0..<29] = Some 4"
    using bucket_for_100 by (simp add: bucket_for_def demo0_def)
  then show ?thesis using kmalloc_bucket_smallest [OF demo0_wf(2) [OF demo_os(1,4)], of 100] by simp
qed

text \<open>What \<open>kmalloc\<close> returns is aligned to the block size of its bucket, or to the page for
  blocks of a page and more, and the bytes asked for lie within the heap.\<close>

theorem kmalloc_aligned:
  assumes "kwf os g s" and "booted os s" and "os_ok os"
    and "kmalloc os n s = Some (p, s')" and "p \<noteq> 0"
  shows "\<exists>b. bucket_for (unat (pagesz s)) (unat n) = Some b \<and>
    unat p mod min (2 ^ (b + 3)) (unat (pagesz s)) = 0 \<and>
    unat (heap_lo (hp s')) + 8 \<le> unat p \<and> unat p + unat n \<le> unat (brk (hp s'))"
  by (rule kmalloc_data_area [OF assms])

lemma kmalloc_aligned_witness: "\<exists>p s. kmalloc linux 100 demo0 = Some (p, s) \<and> unat p mod 128 = 0"
proof -
  note d = demo0_wf [OF demo_os(1,4)]
  obtain p s' where p: "kmalloc linux 100 demo0 = Some (p, s')"
      "p = 0 \<longleftrightarrow> exhausted linux demo0 (unat (100 :: u64))"
    using kmalloc_wf [OF d demo_os(1), of 100] by metis
  have nz: "p \<noteq> 0" unfolding p(2) using demo0_room by simp
  obtain b where "bucket_for (unat (pagesz demo0)) (unat (100 :: u64)) = Some b"
      "unat p mod min (2 ^ (b + 3)) (unat (pagesz demo0)) = 0"
    using kmalloc_aligned [OF d demo_os(1) p(1) nz] by metis
  moreover from this have "b = 4" using bucket_for_100 unfolding demo0_page by simp
  ultimately have "unat p mod 128 = 0" unfolding demo0_page by simp
  then show ?thesis using p(1) by (intro exI conjI)
qed

text \<open>The first call moves the break so that blocks become page aligned and establishes the
  invariant, with no block, leaving the memory below the old break alone.\<close>

theorem kmalloc_first_call:
  assumes "os_ok os" and "start_ok h" and "boots os h"
  shows "\<exists>s. kmalloc_setup os (kinit h) = Some (True, s) \<and> kwf os ghost0 s \<and> booted os s \<and>
    unat (brk (hp s)) = unat (brk h) + boot_gap (unat (page_size os)) (unat (brk h)) \<and>
    (\<forall>x. unat x < unat (brk h) \<longrightarrow> bytes (hp s) x = bytes h x)"
  using setup_granted [OF assms] by blast

lemma kmalloc_first_call_witness:
  "\<exists>s. kmalloc_setup linux (kinit odd_heap) = Some (True, s) \<and> unat (brk (hp s)) = 0x10ff8"
proof -
  obtain s where s: "kmalloc_setup linux (kinit odd_heap) = Some (True, s)"
      "unat (brk (hp s)) = unat (brk odd_heap) + boot_gap (unat (page_size linux)) (unat (brk odd_heap))"
    using kmalloc_first_call [OF demo_os(1) demo_start(2) demo_gap(1)] by blast
  have "unat (brk odd_heap) + boot_gap (unat (page_size linux)) (unat (brk odd_heap)) = 0x10ff8"
    by (simp add: boot_gap_def odd_heap_def linux_def)
  then show ?thesis using s by simp
qed

text \<open>The page bucket, computed by a loop on 32-bit words, is the bucket whose block size is the
  page: for a page of \<open>2 ^ k\<close> bytes the loop ends with \<open>k - 3\<close>.\<close>

theorem page_loop_ends:
  assumes "unat psz = 2 ^ k" and "3 \<le> k" and "k \<le> 31"
  shows "page_loop psz 8 0 = Some (of_nat (k - 3))"
  using page_loop_returns [OF assms(1,3), of 8 3 0] assms(2) by simp

lemma page_loop_ends_witness: "page_loop 4096 8 0 = Some 9"
  using page_loop_ends [of 4096 12] by simp

section \<open>kfree\<close>

text \<open>C4: Freeing a block in use returns a well-formed state in which the block is free and at the
  head of its bucket's list; all data, that of the freed block included, stays as it is.\<close>

theorem kfree_correct:
  assumes "kwf os g s" and "op \<in> used g" and "blk g op = Some b"
  shows "\<exists>s'. kfree (op + sizeof_overhead) s = Some s' \<and> kwf os (free_block op g) s' \<and>
    nextf s' ! b = op \<and>
    (\<forall>y c i. blk g y = Some c \<and> 8 \<le> i \<and> i < extent (unat (pagesz s)) c \<longrightarrow>
       bytes (hp s') (y + of_nat i) = bytes (hp s) (y + of_nat i))"
proof -
  let ?s1 = "s\<lparr>hp := (hp s)\<lparr>bytes := st64 (bytes (hp s)) op (nextf s ! b)\<rparr>, nextf := (nextf s)[b := op]\<rparr>"
  have "b < length (nextf s)"
    using wf_block(1) [OF assms(1,3)] wf_nextf_length [OF assms(1)] by (simp add: NBUCKETS_def)
  moreover have "bytes (hp ?s1) (y + of_nat i) = bytes (hp s) (y + of_nat i)"
    if "blk g y = Some c" "8 \<le> i" "i < extent (unat (pagesz s)) c" for y c i
  proof -
    have "if y = op then 8 \<le> i \<and> i < extent (unat (pagesz s)) b else i < extent (unat (pagesz s)) c"
      using that assms(3) by auto
    from freed_elsewhere [OF assms(1,3) that(1) this] show ?thesis by simp
  qed
  ultimately show ?thesis
    using kfree_eq [OF assms] kfree_wf [OF assms] by (intro exI [of _ ?s1]) simp
qed

lemma kfree_correct_witness:
  "\<exists>g s op s'. kwf linux g s \<and> op \<in> used g \<and> kfree (op + sizeof_overhead) s = Some s' \<and> nextf s' ! 4 = op"
proof -
  obtain g s op where d: "kwf linux g s" "op \<in> used g" "blk g op = Some 4"
    using demo_used [OF disjI1 [OF refl]] by metis
  show ?thesis using kfree_correct [OF d] d(1,2) by blast
qed

text \<open>Freeing a block a second time, and freeing NULL, changes nothing; the size lookup of a
  free block is 0. The first byte of a free block is never the magic number.\<close>

theorem kfree_twice:
  assumes "kwf os g s" and "op \<in> free_of g b"
  shows "kfree (op + sizeof_overhead) s = Some s \<and> kfree 0 s = Some s \<and>
    kmalloc_usable_size (op + sizeof_overhead) s = Some 0"
  using kfree_free_block [OF assms] kfree_null by blast

lemma kfree_twice_witness: "\<exists>g s op. kwf linux g s \<and> op \<in> free_of g 4 \<and> kfree (op + sizeof_overhead) s = Some s"
proof -
  obtain g s op where d: "kwf linux g s" "op \<in> free_of g 4" using demo_free by metis
  show ?thesis using kfree_twice [OF d] d by blast
qed

text \<open>A freed block is the first to be reused: the next request that belongs to its bucket gets
  the same address.\<close>

theorem kfree_kmalloc_same:
  assumes "kwf os g s" and "booted os s" and "op \<in> used g" and "blk g op = Some b"
    and "bucket_for (unat (pagesz s)) (unat n) = Some b"
  shows "\<exists>s1 s2. kfree (op + sizeof_overhead) s = Some s1 \<and>
    kmalloc os n s1 = Some (op + sizeof_overhead, s2) \<and> kwf os g s2"
  by (rule kfree_kmalloc_reuse [OF assms])

lemma kfree_kmalloc_same_witness:
  "\<exists>g s op s1 s2. op \<in> used g \<and> kfree (op + sizeof_overhead) s = Some s1 \<and>
    kmalloc linux 100 s1 = Some (op + sizeof_overhead, s2) \<and> kwf linux g s2"
proof -
  obtain g s op where d: "kwf linux g s" "booted linux s" "pagesz s = 4096" "op \<in> used g" "blk g op = Some 4"
    using demo_used [OF disjI1 [OF refl]] by metis
  have "bucket_for (unat (pagesz s)) (unat (100 :: u64)) = Some 4" using d(3) bucket_for_100 by simp
  then show ?thesis using kfree_kmalloc_same [OF d(1,2,4,5)] d(4) by blast
qed

text \<open>Freeing what \<open>kmalloc\<close> just took from a non-empty list restores the whole state, lists
  and memory included.\<close>

theorem kmalloc_kfree_inverse:
  assumes "kwf os g s" and "booted os s"
    and "bucket_for (unat (pagesz s)) (unat n) = Some b" and "b < 28" and "nextf s ! b \<noteq> 0"
  shows "\<exists>p s1. kmalloc os n s = Some (p, s1) \<and> kfree p s1 = Some s"
  by (rule kmalloc_kfree_restores [OF assms])

lemma kmalloc_kfree_inverse_witness:
  "\<exists>g s p s1. kwf linux g s \<and> kmalloc linux 100 s = Some (p, s1) \<and> kfree p s1 = Some s"
proof -
  obtain g s op where d: "kwf linux g s" "booted linux s" "pagesz s = 4096" "nextf s ! 4 = op" "op \<noteq> 0"
    using demo_free by metis
  have "bucket_for (unat (pagesz s)) (unat (100 :: u64)) = Some 4" using d(3) bucket_for_100 by simp
  then show ?thesis using kmalloc_kfree_inverse [OF d(1,2), of 100 4] d by auto
qed

text \<open>\<open>kmalloc_usable_size\<close> returns the number of the block's bucket, not the number of usable
  bytes.\<close>

theorem kmalloc_usable_size_is_bucket:
  assumes "kwf os g s" and "op \<in> used g" and "blk g op = Some b"
  shows "kmalloc_usable_size (op + sizeof_overhead) s = Some (of_nat b)"
  by (rule usable_size_used [OF assms])

lemma kmalloc_usable_size_is_bucket_witness:
  "\<exists>g s op. kwf linux g s \<and> blk g op = Some 4 \<and> capacity (unat (pagesz s)) 4 = 120 \<and>
    kmalloc_usable_size (op + sizeof_overhead) s = Some 4"
proof -
  obtain g s op where d: "kwf linux g s" "pagesz s = 4096" "op \<in> used g" "blk g op = Some 4"
    using demo_used [OF disjI1 [OF refl]] by metis
  have "capacity (unat (pagesz s)) 4 = 120" using d(2) by (simp add: capacity_def extent_def)
  then show ?thesis using kmalloc_usable_size_is_bucket [OF d(1,3,4)] d(1,4) by auto
qed

section \<open>krealloc\<close>

text \<open>A block in use stays where it is, and nothing changes, exactly when \<open>kmalloc\<close> would choose
  its bucket for the new size; the arithmetic test of the code decides that question.\<close>

theorem krealloc_in_place:
  assumes "kwf os g s" and "op \<in> used g" and "blk g op = Some b" and "n \<noteq> 0"
    and "bucket_for (unat (pagesz s)) (unat n) = Some b"
  shows "krealloc os (op + sizeof_overhead) n s = Some (op + sizeof_overhead, s)"
  using krealloc_used_eq [OF assms(1-4)] assms(5) by simp

lemma krealloc_in_place_witness:
  "\<exists>g s op. kwf linux g s \<and> op \<in> used g \<and> krealloc linux (op + sizeof_overhead) 100 s = Some (op + sizeof_overhead, s)"
proof -
  obtain g s op where d: "kwf linux g s" "pagesz s = 4096" "op \<in> used g" "blk g op = Some 4"
    using demo_used [OF disjI1 [OF refl]] by metis
  have "bucket_for (unat (pagesz s)) (unat (100 :: u64)) = Some 4" using d(2) bucket_for_100 by simp
  then have "krealloc linux (op + sizeof_overhead) 100 s = Some (op + sizeof_overhead, s)"
    using krealloc_in_place [OF d(1,3,4), of 100] by simp
  then show ?thesis using d(1,3) by blast
qed

text \<open>C3: For any other size \<open>krealloc\<close> returns a block of the bucket for the new size that holds
  the old contents up to the smaller of the new size and the old capacity; all other blocks in use
  keep their contents, and the invariant holds.\<close>

theorem krealloc_moves:
  assumes "kwf os g s" and "booted os s" and "os_ok os"
    and "op \<in> used g" and "blk g op = Some b" and "n \<noteq> 0"
    and "bucket_for (unat (pagesz s)) (unat n) \<noteq> Some b"
  shows "\<exists>p s' g'. krealloc os (op + sizeof_overhead) n s = Some (p, s') \<and> kwf os g' s' \<and>
    kept (free_block op g) s s' \<and>
    (if p = 0 then used g' = used g - {op}
     else allocates (unat (pagesz s)) (unat n) (free_block op g) p g' \<and>
       (\<forall>i < min (unat n) (capacity (unat (pagesz s)) b).
          bytes (hp s') (p + of_nat i) = bytes (hp s) (op + sizeof_overhead + of_nat i)))"
  using krealloc_wf [OF assms] unfolding reallocates_def by blast

lemma krealloc_moves_witness:
  "\<exists>g s op p s'. kwf linux g s \<and> op \<in> used g \<and> krealloc linux (op + sizeof_overhead) 200 s = Some (p, s')"
proof -
  obtain g s op where d: "kwf linux g s" "booted linux s" "pagesz s = 4096" "op \<in> used g" "blk g op = Some 4"
    using demo_used [OF disjI1 [OF refl]] by metis
  have "bucket_for (unat (pagesz s)) (unat (200 :: u64)) \<noteq> Some 4" using d(3) bucket_for_200 by simp
  then obtain p s' where "krealloc linux (op + sizeof_overhead) 200 s = Some (p, s')"
    using krealloc_moves [OF d(1,2) demo_os(1) d(4,5), of 200] by fastforce
  then show ?thesis using d(1,4) by blast
qed

end
