(* ===== verification/Kmalloc_Limits.thy ===== *)
theory Kmalloc_Limits
  imports Kmalloc_Demo
begin

text \<open>
  The theorems on the less travelled paths of \<open>kmalloc.c\<close>: blocks that are reallocated after they
  were freed, \<open>kcalloc\<close>, requests the system refuses, and a refused first call.
\<close>

section \<open>krealloc of freed blocks\<close>

text \<open>\<open>findbucket\<close> finds a free block in its own bucket exactly when it is among the first
  \<open>srchlen\<close> blocks of that list, and returns -1 otherwise; it never reports another bucket.\<close>

theorem findbucket_finds:
  assumes "kwf os g s" and "op \<in> free_of g b"
    and "chain (ld64 (bytes (hp s))) (nextf s ! b) xs"
  shows "findbucket s op srchlen = Some (if op \<in> set (take (unat srchlen) xs) then of_nat b else - 1)"
  by (rule findbucket_free [OF assms])

lemma findbucket_finds_witness:
  "\<exists>g s. kwf linux g s \<and> findbucket s (nextf s ! 4) 1 = Some 4"
proof -
  obtain g s op where d: "kwf linux g s" "op \<in> free_of g 4" "nextf s ! 4 = op" "op \<noteq> 0"
    using demo_free by metis
  obtain xs where xs: "chain (ld64 (bytes (hp s))) (nextf s ! 4) xs"
    using wf_list [OF d(1), of 4] by (auto simp: NBUCKETS_def)
  then have "op \<in> set (take (unat (1 :: u32)) xs)" using d(3,4) by (cases xs) auto
  then have "findbucket s op 1 = Some 4" using findbucket_finds [OF d(1,2) xs, of 1] by simp
  then show ?thesis using d(1,3) by blast
qed

text \<open>Storage compaction: a block that was just freed stays where it is under \<open>krealloc\<close> when
  the new size belongs to its bucket, and is in use again.\<close>

theorem krealloc_after_kfree:
  assumes "kwf os g s" and "booted os s" and "os_ok os"
    and "op \<in> used g" and "blk g op = Some b"
    and "n \<noteq> 0" and "bucket_for (unat (pagesz s)) (unat n) = Some b"
  shows "\<exists>s1 s2. kfree (op + sizeof_overhead) s = Some s1 \<and>
    krealloc os (op + sizeof_overhead) n s1 = Some (op + sizeof_overhead, s2) \<and> kwf os g s2"
  by (rule kfree_krealloc_in_place [OF assms])

lemma krealloc_after_kfree_witness:
  "\<exists>g s op s1 s2. kwf linux g s \<and> kfree (op + sizeof_overhead) s = Some s1 \<and>
    krealloc linux (op + sizeof_overhead) 100 s1 = Some (op + sizeof_overhead, s2)"
proof -
  obtain g s op where d: "kwf linux g s" "booted linux s" "pagesz s = 4096" "op \<in> used g" "blk g op = Some 4"
    using demo_used [OF disjI1 [OF refl]] by metis
  have "bucket_for (unat (pagesz s)) (unat (100 :: u64)) = Some 4" using d(3) bucket_for_100 by simp
  moreover have "(100 :: u64) \<noteq> 0" by simp
  ultimately show ?thesis using krealloc_after_kfree [OF d(1,2) demo_os(1) d(4,5)] d(1) by blast
qed

text \<open>C35: A freed block that the search finds is reallocated with its contents, up to the smaller of
  the new size and its capacity; NULL comes back exactly when the request is exhausted.\<close>

theorem krealloc_freed_block:
  assumes "kwf os g s" and "booted os s" and "os_ok os" and "op \<in> free_of g b" and "n \<noteq> 0"
    and "chain (ld64 (bytes (hp s))) (nextf s ! b) xs"
    and "op \<in> set (take (unat (realloc_srchlen s)) xs)"
  shows "\<exists>p s' g'. krealloc os (op + sizeof_overhead) n s = Some (p, s') \<and> kwf os g' s' \<and>
    (p = 0 \<longleftrightarrow> exhausted os s (unat n)) \<and>
    (p \<noteq> 0 \<longrightarrow> allocates (unat (pagesz s)) (unat n) g p g' \<and>
       (\<forall>i < min (unat n) (capacity (unat (pagesz s)) b).
          bytes (hp s') (p + of_nat i) = bytes (hp s) (op + sizeof_overhead + of_nat i)))"
proof -
  have look: "krealloc_lookup op s = Some (False, of_nat b)"
    using krealloc_lookup_free [OF assms(1,4,6)] assms(7) by simp
  obtain p s' g' where "krealloc os (op + sizeof_overhead) n s = Some (p, s')" "kwf os g' s'"
      "p = 0 \<longleftrightarrow> exhausted os s (unat n)"
      "if p = 0 then used g' = used g
       else allocates (unat (pagesz s)) (unat n) g p g' \<and>
         (\<forall>i < min (unat n) (capacity (unat (pagesz s)) b).
            bytes (hp s') (p + of_nat i) = bytes (hp s) (op + sizeof_overhead + of_nat i))"
    using krealloc_found [OF assms(1-5) look] by blast
  then show ?thesis by (intro exI [of _ p] exI [of _ s'] exI [of _ g']) simp
qed

lemma demo_nth:
  assumes "i < 32"
  obtains g s xs where "kwf linux g s" and "booted linux s" and "pagesz s = 4096" and "realloc_srchlen s = 4"
    and "chain (ld64 (bytes (hp s))) (nextf s ! 4) xs" and "xs ! i \<in> free_of g 4"
    and "length xs = 32" and "distinct xs"
proof -
  obtain g s where s: "kwf linux g s" "booted linux s" "pagesz s = 4096" "realloc_srchlen s = 4"
      "chain (ld64 (bytes (hp s))) (nextf s ! 4) (run 0x10ff8 128 32)"
    using demo_list [OF disjI1 [OF refl]] by metis
  have "4 < NBUCKETS" by (simp add: NBUCKETS_def)
  then obtain ys where ys: "chain (ld64 (bytes (hp s))) (nextf s ! 4) ys" "set ys = free_of g 4" "distinct ys"
    by (rule wf_list [OF s(1)])
  have "length (run op sz n) = n" for op sz n by (induction n arbitrary: op) simp_all
  then have len: "length ys = 32" using chain_unique [OF ys(1) s(5)] by simp
  then have "ys ! i \<in> free_of g 4" using ys(2) assms nth_mem by metis
  then show ?thesis using that [OF s(1-4) ys(1)] len ys(3) by blast
qed

lemma krealloc_freed_block_witness:
  "\<exists>g s op p s'. kwf linux g s \<and> op \<in> free_of g 4 \<and> krealloc linux (op + sizeof_overhead) 200 s = Some (p, s')"
proof -
  obtain g s xs where d: "kwf linux g s" "booted linux s" "pagesz s = 4096" "realloc_srchlen s = 4"
      "chain (ld64 (bytes (hp s))) (nextf s ! 4) xs" "xs ! 2 \<in> free_of g 4" "length xs = 32" "distinct xs"
    by (rule demo_nth [of 2]) simp_all
  have "xs ! 2 \<in> set (take (unat (realloc_srchlen s)) xs)"
    using d(4,7) by (auto simp: in_set_conv_nth intro!: exI [of _ 2])
  then obtain p s' where "krealloc linux (xs ! 2 + sizeof_overhead) 200 s = Some (p, s')"
    using krealloc_freed_block [OF d(1,2) demo_os(1) d(6) _ d(5), of 200] by fastforce
  then show ?thesis using d(1,6) by blast
qed

text \<open>C36: A freed block the search misses: the code takes \<open>NBUCKETS\<close> for its bucket and computes
  \<open>1 << 33\<close> on \<open>int\<close>, so the call is undefined.\<close>

theorem krealloc_missed_block:
  assumes "kwf os g s" and "op \<in> free_of g b" and "n \<noteq> 0"
    and "chain (ld64 (bytes (hp s))) (nextf s ! b) xs"
    and "op \<notin> set (take 1 xs)" and "op \<notin> set (take (unat (realloc_srchlen s)) xs)"
  shows "krealloc os (op + sizeof_overhead) n s = None"
proof -
  have "krealloc_lookup op s = Some (False, of_nat NBUCKETS)"
    using krealloc_lookup_free [OF assms(1,2,4)] assms(5,6) by simp
  then show ?thesis by (rule krealloc_missed [OF assms(1-3)])
qed

lemma krealloc_missed_block_witness:
  "\<exists>g s op. kwf linux g s \<and> op \<in> free_of g 4 \<and> krealloc linux (op + sizeof_overhead) 100 s = None"
proof -
  obtain g s xs where d: "kwf linux g s" "booted linux s" "pagesz s = 4096" "realloc_srchlen s = 4"
      "chain (ld64 (bytes (hp s))) (nextf s ! 4) xs" "xs ! 5 \<in> free_of g 4" "length xs = 32" "distinct xs"
    by (rule demo_nth [of 5]) simp_all
  have far: "xs ! 5 \<notin> set (take k xs)" if "k \<le> 5" for k
    using that d(7,8) by (auto simp: in_set_conv_nth nth_eq_iff_index_eq)
  have "krealloc linux (xs ! 5 + sizeof_overhead) 100 s = None"
    using krealloc_missed_block [OF d(1,6) _ d(5), of 100] far d(4) by simp
  then show ?thesis using d(1,6) by blast
qed

text \<open>C34: When the new block cannot be had, \<open>krealloc\<close> returns NULL with the old block already
  freed, unlike \<open>realloc\<close>, which leaves it allocated.\<close>

theorem krealloc_failure_frees:
  assumes "kwf os g s" and "booted os s" and "os_ok os"
    and "op \<in> used g" and "blk g op = Some b" and "n \<noteq> 0"
    and "bucket_for (unat (pagesz s)) (unat n) = Some c" and "c \<noteq> b" and "nextf s ! c = 0"
    and "\<not> grants os (calls (hp s)) (brk (hp s)) (of_nat (amount (unat (pagesz s)) c))"
  shows "\<exists>s' g'. krealloc os (op + sizeof_overhead) n s = Some (0, s') \<and> kwf os g' s' \<and>
    op \<in> free_of g' b \<and> used g' = used g - {op}"
proof -
  let ?s1 = "s\<lparr>hp := (hp s)\<lparr>bytes := st64 (bytes (hp s)) op (nextf s ! b)\<rparr>, nextf := (nextf s)[b := op]\<rparr>"
  have wf1: "kwf os (free_block op g) ?s1" by (rule kfree_wf [OF assms(1,4,5)])
  have bt1: "booted os ?s1" by (rule booted_same [OF assms(2)]) (simp add: same_vars_def)
  obtain p s' g' where s': "kmalloc os n ?s1 = Some (p, s')" "kwf os g' s'"
      "blk (free_block op g) \<subseteq>\<^sub>m blk g'" "p = 0 \<longleftrightarrow> exhausted os ?s1 (unat n)"
      "if p = 0 then used g' = used (free_block op g)
       else allocates (unat (pagesz ?s1)) (unat n) (free_block op g) p g'"
    using kmalloc_wf [OF wf1 bt1 assms(3)] by metis
  have "exhausted os ?s1 (unat n)" using assms(7-10) by (simp add: exhausted_def)
  then have p: "p = 0" using s'(4) by simp
  have "krealloc os (op + sizeof_overhead) n s = Some (0, s')"
    unfolding krealloc_used_eq [OF assms(1,4-6)] kfree_eq [OF assms(1,4,5)]
    using assms(7,8) s'(1) p by simp
  moreover have "blk g' op = Some b" using s'(3) assms(5) by (auto simp: free_block_def map_le_def dom_def)
  moreover have "used g' = used g - {op}" using s'(5) p by (simp add: free_block_def)
  ultimately show ?thesis using s'(2) by (intro exI [of _ s'] exI [of _ g']) (simp add: free_of_def)
qed

lemma krealloc_failure_frees_witness:
  "\<exists>g s op s' g'. kwf pages_only g s \<and> op \<in> used g \<and>
    krealloc pages_only (op + sizeof_overhead) 5000 s = Some (0, s') \<and> op \<in> free_of g' 4 \<and> used g' = used g - {op}"
proof -
  obtain g s op where d: "kwf pages_only g s" "booted pages_only s" "pagesz s = 4096" "op \<in> used g"
      "blk g op = Some 4" "\<And>b. b \<noteq> 4 \<Longrightarrow> b < NBUCKETS \<Longrightarrow> nextf s ! b = 0"
    using demo_used [OF disjI2 [OF refl]] by metis
  have c: "bucket_for (unat (pagesz s)) (unat (5000 :: u64)) = Some 9" using d(3) bucket_for_5000 by simp
  have nf: "nextf s ! 9 = 0" using d(6) [of 9] by (simp add: NBUCKETS_def)
  have gr: "\<not> grants pages_only (calls (hp s)) (brk (hp s)) (of_nat (amount (unat (pagesz s)) 9))"
    using d(3) by (simp add: pages_only_def amount_def)
  have nz: "(5000 :: u64) \<noteq> 0" "(9 :: nat) \<noteq> 4" by simp_all
  show ?thesis
    using krealloc_failure_frees [OF d(1,2) demo_os(2) d(4,5) nz(1) c nz(2) nf gr] d(1,4) by blast
qed

section \<open>kcalloc\<close>

text \<open>C37: When the request can be served, \<open>kcalloc\<close> returns a block for \<open>nelem * elsize\<close> bytes, the
  product taken on 64 bits, all of them zero, and leaves the other blocks in use alone.\<close>

theorem kcalloc_zeroed:
  assumes "kwf os g s" and "booted os s" and "os_ok os"
    and "\<not> exhausted os s (unat (nelem * elsize))"
  shows "\<exists>p s' g'. kcalloc os nelem elsize s = Some (p, s') \<and> p \<noteq> 0 \<and> kwf os g' s' \<and> kept g s s' \<and>
    allocates (unat (pagesz s)) (unat (nelem * elsize)) g p g' \<and>
    (\<forall>i < unat (nelem * elsize). bytes (hp s') (p + of_nat i) = 0)"
  using kcalloc_wf [OF assms] by blast

lemma kcalloc_zeroed_witness:
  "\<exists>p s'. kcalloc linux 4 25 demo0 = Some (p, s') \<and> p \<noteq> 0 \<and> bytes (hp s') (p + 99) = 0"
proof -
  have "unat ((4 :: u64) * 25) = 100" by simp
  moreover have "\<not> exhausted linux demo0 100"
    using bucket_for_100
    by (simp add: exhausted_def demo0_def kinit_def NBUCKETS_def linux_def demo_heap_def amount_def)
  ultimately obtain p s' where p: "kcalloc linux 4 25 demo0 = Some (p, s')" "p \<noteq> 0"
      "\<forall>i < 100. bytes (hp s') (p + of_nat i) = 0"
    using kcalloc_zeroed [OF demo0_wf [OF demo_os(1,4)] demo_os(1), of 4 25] by metis
  have "bytes (hp s') (p + of_nat 99) = 0" using p(3) by (simp del: of_nat_numeral)
  then have "bytes (hp s') (p + 99) = 0" by simp
  then show ?thesis using p(1,2) by blast
qed

text \<open>When the request cannot be served, \<open>kcalloc\<close> does not return NULL: it writes through it.\<close>

theorem kcalloc_null_write:
  assumes "kwf os g s" and "booted os s" and "os_ok os"
    and "exhausted os s (unat (nelem * elsize))" and "nelem * elsize \<noteq> 0"
  shows "kcalloc os nelem elsize s = None"
  by (rule kcalloc_fault [OF assms])

lemma kcalloc_null_write_witness: "kcalloc pages_only 1 5000 demo0 = None"
proof -
  have "unat ((1 :: u64) * 5000) = 5000" by simp
  moreover have "exhausted pages_only demo0 5000"
    using bucket_for_5000
    by (simp add: exhausted_def demo0_def kinit_def NBUCKETS_def pages_only_def demo_heap_def amount_def)
  ultimately show ?thesis
    using kcalloc_null_write [OF demo0_wf [OF demo_os(2,5)] demo_os(2), of 1 5000] by simp
qed

section \<open>A refused first call\<close>

text \<open>C38: When the system refuses the first move of the break, \<open>kmalloc\<close> returns NULL but keeps the
  page size, so that no later call sets \<open>pagebucket\<close>. A later request of about a page is then
  served from bucket 0, whose blocks have no data area: the address returned is that of the next
  block of free list 0, which the caller will overwrite.\<close>

theorem kmalloc_after_refusal:
  assumes "os_ok os" and "start_ok h" and "\<not> boots os h"
    and "unat (page_size os) - 8 < unat n" and "unat n \<le> 2 * unat (page_size os) - 8"
    and "grants os (Suc (calls h)) (brk h) (of_nat (unat (page_size os)))"
  shows "\<exists>s1 s2. kmalloc os n (kinit h) = Some (0, s1) \<and>
    kmalloc os n s1 = Some (brk h + 8, s2) \<and> nextf s2 ! 0 = brk h + 8"
  using kmalloc_refused [OF assms(1,3)] after_refused [OF assms(1,2,4-6)] by blast

lemma kmalloc_after_refusal_witness:
  "\<exists>s1 s2. kmalloc slow_start 8000 (kinit odd_heap) = Some (0, s1) \<and>
    kmalloc slow_start 8000 s1 = Some (0x10018, s2) \<and> nextf s2 ! 0 = 0x10018"
proof -
  have "grants slow_start (Suc (calls odd_heap)) (brk odd_heap) (of_nat (unat (page_size slow_start)))"
    by (simp add: slow_start_def odd_heap_def)
  moreover have "unat (page_size slow_start) = 4096" by (simp add: slow_start_def)
  moreover have "brk odd_heap + 8 = 0x10018" by (simp add: odd_heap_def)
  ultimately show ?thesis
    using kmalloc_after_refusal [OF demo_os(3) demo_start(2) demo_gap(2), of 8000] by simp
qed

end
