(* ===== verification/Kmalloc_Main.thy ===== *)
theory Kmalloc_Main
  imports Kmalloc_Demo
begin

text \<open>
  The test program \<open>original/tests/main.c\<close>: it allocates two objects of the size of a header, uses
  the first as a header of its own and prints its fields.
\<close>

section \<open>The program\<close>

text \<open>
  \<open>main\<close> with the list of the four values printed: \<open>buckets[2]\<close>, \<open>ov->next\<close>, the magic byte and
  the index. The union of the program is laid out as that of the allocator, so the accesses to its
  fields are the same.
\<close>

definition kmalloc_main :: "os \<Rightarrow> kstate \<Rightarrow> (u64 list \<times> kstate) option" where
  "kmalloc_main os s = do {
     (ov, s) \<leftarrow> kmalloc os sizeof_overhead s;
     (nx, s) \<leftarrow> kmalloc os sizeof_overhead s;
     s \<leftarrow> set_ov_next ov nx s;
     bucket2 \<leftarrow> ov_next s ov;
     s \<leftarrow> set_ov_magic ov 0xef s;
     s \<leftarrow> set_ov_index ov 2 s;
     nx \<leftarrow> ov_next s ov;
     magic \<leftarrow> ov_magic s ov;
     ix \<leftarrow> ov_index s ov;
     Some ([bucket2, nx, ucast magic, ucast ix], s)
   }"

section \<open>What it prints\<close>

text \<open>Two bytes stored over the low end of a cell.\<close>

lemma ld64_low_bytes:
  "ld64 (m(a := x, a + 1 := y)) a = (ld64 m a AND NOT 0xffff) OR ucast x OR push_bit 8 (ucast y)"
proof (rule bit_word_eqI)
  fix n
  assume "n < LENGTH(64)"
  then have n: "n < 64" by simp
  have off: "(of_nat k :: u64) = 0 \<longleftrightarrow> k = 0" "(of_nat k :: u64) = 1 \<longleftrightarrow> k = 1" if "k < 8" for k
    using that unat_of_nat64 [of k] by (auto simp: word_unat_eq_iff)
  have k: "n div 8 < 8" using n by linarith
  have mask: "bit (NOT 0xffff :: u64) n \<longleftrightarrow> 16 \<le> n"
    using bit_mask_iff [of 16 n, where 'a = "64 word"] n
    by (subst bit_not_iff) (auto simp: mask_eq_exp_minus_1)
  have bits: "bit (ld64 (m(a := x, a + 1 := y)) a) n =
      bit (if n div 8 = 1 then y else if n div 8 = 0 then x else m (a + of_nat (n div 8))) (n mod 8)"
    using n off [OF k] by (simp add: ld64_def bit_ld_bytes)
  have "bit ((ld64 m a AND NOT 0xffff) OR ucast x OR push_bit 8 (ucast y)) n \<longleftrightarrow>
      (bit (ld64 m a) n \<and> 16 \<le> n) \<or> bit x n \<or> (8 \<le> n \<and> bit y (n - 8))"
    using n mask by (auto simp only: bit_or_iff bit_and_iff bit_ucast_iff bit_push_bit_iff
        dest: bit_imp_le_length) (auto dest: bit_imp_le_length)
  note bits = bits this
  have "bit (ld64 m a) n = bit (m (a + of_nat (n div 8))) (n mod 8)"
    using n by (simp add: ld64_def bit_ld_bytes)
  note bits = bits this
  consider "n < 8" | "8 \<le> n" "n < 16" | "16 \<le> n" by linarith
  then show "bit (ld64 (m(a := x, a + 1 := y)) a) n =
      bit ((ld64 m a AND NOT 0xffff) OR ucast x OR push_bit 8 (ucast y)) n"
  proof cases
    case 1
    then have "n div 8 = 0" "n mod 8 = n" by simp_all
    then show ?thesis using bits 1 by simp
  next
    case 2
    then have "n div 8 = 1" "n mod 8 = n - 8" by (simp_all add: div_nat_eqI le_mod_geq)
    moreover have "\<not> bit x n" using 2 by (auto dest: bit_imp_le_length)
    ultimately show ?thesis using bits 2 by simp
  next
    case 3
    then have "n div 8 \<noteq> 0" "n div 8 \<noteq> 1" by linarith+
    moreover have "\<not> bit x n" "\<not> bit y (n - 8)" using 3 by (auto dest: bit_imp_le_length)
    ultimately show ?thesis using bits 3 by simp
  qed
qed

text \<open>C33: From program start, when the first move of the break is granted, \<open>main\<close> prints what the second call returned, then the same with its
  two low bytes replaced by the magic number and the index, which lie over the link, then these
  two; when the first call returns NULL it writes through it.\<close>

theorem kmalloc_main_prints:
  assumes "os_ok os" and "start_ok h" and "boots os h"
    and "kmalloc os sizeof_overhead (kinit h) = Some (ov, s1)"
    and "kmalloc os sizeof_overhead s1 = Some (nx, s2)"
  shows "map_option fst (kmalloc_main os (kinit h)) =
    (if ov = 0 then None else Some [nx, (nx AND NOT 0xffff) OR 0x02ef, 0xef, 2])"
proof -
  obtain s where s: "kmalloc_setup os (kinit h) = Some (True, s)" "kwf os ghost0 s" "booted os s"
    using setup_granted [OF assms(1-3)] by blast
  have k1: "kmalloc os sizeof_overhead s = Some (ov, s1)"
    using first_kmalloc [OF s(1,3)] assms(4) by simp
  obtain g where g: "kwf os g s1" "writes_header (ov - sizeof_overhead) s s1"
    using kmalloc_wf [OF s(2,3) assms(1), of sizeof_overhead] k1 by auto
  have "booted os s1" using booted_same [OF s(3)] g(2) by (simp add: writes_header_def)
  then obtain g2 where g2: "kwf os g2 s2" "writes_header (nx - sizeof_overhead) s1 s2"
    using kmalloc_wf [OF g(1) _ assms(1), of sizeof_overhead] assms(5) by auto
  show ?thesis
  proof (cases "ov = 0")
    case True
    have "0 < unat (heap_lo (hp s2))" using g2(1) by (simp add: kwf_def heap_ok_def)
    then show ?thesis
      using assms(4,5) True by (simp add: kmalloc_main_def hp_update_simps mapped_def)
  next
    case False
    have "unat (heap_lo (hp s1)) + 8 \<le> unat ov" "unat ov + 8 \<le> unat (brk (hp s1))"
      using kmalloc_data_area [OF s(2,3) assms(1) k1 False] by (auto simp: sizeof_overhead_def)
    then have m: "unat (heap_lo (hp s2)) \<le> unat ov" "unat ov + 8 \<le> unat (brk (hp s2))"
      using g2(2) by (auto simp: writes_header_def)
    moreover have "unat (ov + 1) = unat ov + 1"
      using m(2) unat_lt64 [of "brk (hp s2)"] unat_offset [of ov 1] by simp
    ultimately have "mapped (hp s2) ov 8" "mapped (hp s2) ov 1" "mapped (hp s2) (ov + 1) 1"
      by (simp_all add: mapped_def)
    then show ?thesis
      using assms(4,5) False
      by (simp add: kmalloc_main_def hp_update_simps ov_next_def ov_magic_def ov_index_def rd64_def rd8_def
          ld64_st64_same ld64_low_bytes push_bit_eq_mult)
  qed
qed

lemma kmalloc_main_prints_witness:
  "\<exists>ov s1 nx. kmalloc linux sizeof_overhead (kinit odd_heap) = Some (ov, s1) \<and>
    map_option fst (kmalloc_main linux (kinit odd_heap)) =
      (if ov = 0 then None else Some [nx, (nx AND NOT 0xffff) OR 0x02ef, 0xef, 2])"
proof -
  note start = demo_os(1) demo_start(2) demo_gap(1)
  obtain s where s: "kmalloc_setup linux (kinit odd_heap) = Some (True, s)" "kwf linux ghost0 s" "booted linux s"
    using setup_granted [OF start] by blast
  obtain ov s1 g where k1: "kmalloc linux sizeof_overhead s = Some (ov, s1)" "kwf linux g s1"
      "writes_header (ov - sizeof_overhead) s s1"
    using kmalloc_wf [OF s(2,3) start(1)] by metis
  have "booted linux s1" using booted_same [OF s(3)] k1(3) by (simp add: writes_header_def)
  then obtain nx s2 where k2: "kmalloc linux sizeof_overhead s1 = Some (nx, s2)"
    using kmalloc_wf [OF k1(2) _ start(1)] by metis
  have "kmalloc linux sizeof_overhead (kinit odd_heap) = Some (ov, s1)"
    using first_kmalloc [OF s(1,3)] k1(1) by simp
  then show ?thesis using kmalloc_main_prints [OF start _ k2] by blast
qed

end
