(* ===== verification/Kmalloc_Stats.thy ===== *)
theory Kmalloc_Stats
  imports Kmalloc_Demo Kmalloc_Program
begin

text \<open>
  \<open>kmalloc.c\<close> compiled with \<open>MSTATS\<close>: the counters \<open>nmalloc\<close>, the statements that keep them, the
  four operations with these statements, and \<open>mstats\<close>, which prints the counters with the lengths of
  the free lists.
\<close>

section \<open>The counters\<close>

record mstate =
  kst :: kstate
  nmalloc :: "u32 list"

definition ms_init :: "heap \<Rightarrow> mstate" where
  "ms_init h = \<lparr>kst = kinit h, nmalloc = replicate NBUCKETS 0\<rparr>"

text \<open>\<open>nmalloc[i]++\<close> and \<open>nmalloc[i]--\<close> on \<open>unsigned\<close>.\<close>

definition count :: "nat \<Rightarrow> u32 \<Rightarrow> mstate \<Rightarrow> mstate option" where
  "count i d m =
     (if i < length (nmalloc m) then Some (m\<lparr>nmalloc := (nmalloc m)[i := nmalloc m ! i + d]\<rparr>) else None)"

definition ms_kmalloc :: "os \<Rightarrow> u64 \<Rightarrow> mstate \<Rightarrow> (u64 \<times> mstate) option" where
  "ms_kmalloc os nbytes m = do {
     (ok, s) \<leftarrow> kmalloc_setup os (kst m);
     if \<not> ok then Some (0, m\<lparr>kst := s\<rparr>)
     else (case kmalloc_bucket s nbytes of
             None \<Rightarrow> Some (0, m\<lparr>kst := s\<rparr>)
           | Some bucket \<Rightarrow> do {
               (p, s) \<leftarrow> kmalloc_take os bucket s;
               if p = 0 then Some (0, m\<lparr>kst := s\<rparr>)
               else do { m \<leftarrow> count (unat bucket) 1 (m\<lparr>kst := s\<rparr>); Some (p, m) }
             })
   }"

definition ms_kfree :: "u64 \<Rightarrow> mstate \<Rightarrow> mstate option" where
  "ms_kfree cp m =
     (if cp = 0 then Some m
      else do {
        let s = kst m;
        let op = cp - sizeof_overhead;
        magic \<leftarrow> ov_magic s op;
        if magic \<noteq> MAGIC then Some m
        else do {
          size \<leftarrow> ov_index s op;
          h \<leftarrow> nextf_at s (unat size);
          s \<leftarrow> set_ov_next op h s;
          s \<leftarrow> set_nextf (unat size) op s;
          count (unat size) (- 1) (m\<lparr>kst := s\<rparr>)
        }
      })"

text \<open>\<open>krealloc\<close> and \<open>kcalloc\<close> have no statement of their own: they call the two.\<close>

definition ms_krealloc :: "os \<Rightarrow> u64 \<Rightarrow> u64 \<Rightarrow> mstate \<Rightarrow> (u64 \<times> mstate) option" where
  "ms_krealloc os cp nbytes m =
     (if cp = 0 then ms_kmalloc os nbytes m
      else if nbytes = 0 then do { m \<leftarrow> ms_kfree cp m; Some (0, m) }
      else do {
        (was_alloced, i) \<leftarrow> krealloc_lookup (cp - sizeof_overhead) (kst m);
        onb \<leftarrow> krealloc_onb i (kst m);
        keep \<leftarrow> (if was_alloced
                 then do { low \<leftarrow> krealloc_low i (kst m); Some (nbytes \<le> onb \<and> nbytes > low) }
                 else Some False);
        if keep then Some (cp, m)
        else do {
          m \<leftarrow> (if was_alloced then ms_kfree cp m else Some m);
          (res, m) \<leftarrow> ms_kmalloc os nbytes m;
          if res = 0 then Some (0, m)
          else if cp \<noteq> res then do {
            h \<leftarrow> bcopy cp res (if nbytes < onb then nbytes else onb) (hp (kst m));
            Some (res, m\<lparr>kst := (kst m)\<lparr>hp := h\<rparr>\<rparr>)
          } else Some (res, m)
        }
      })"

definition ms_kcalloc :: "os \<Rightarrow> u64 \<Rightarrow> u64 \<Rightarrow> mstate \<Rightarrow> (u64 \<times> mstate) option" where
  "ms_kcalloc os nelem elsize m = do {
     (ptr, m) \<leftarrow> ms_kmalloc os (nelem * elsize) m;
     h \<leftarrow> memset ptr 0 (nelem * elsize) (hp (kst m));
     Some (ptr, m\<lparr>kst := (kst m)\<lparr>hp := h\<rparr>\<rparr>)
   }"

section \<open>mstats\<close>

text \<open>
  The numbers \<open>mstats\<close> prints: the lengths of the free lists, the counters, and the three totals.
  \<open>j * (1 << (i + 3))\<close> is a product of \<open>int\<close>, and overflow is undefined; the totals of the used
  blocks are \<open>unsigned\<close>.
\<close>

definition int_mult :: "u32 \<Rightarrow> u32 \<Rightarrow> u32 option" where
  "int_mult a b =
     (if - (2 ^ 31) \<le> sint a * sint b \<and> sint a * sint b < 2 ^ 31 then Some (a * b) else None)"

definition int_plus :: "u32 \<Rightarrow> u32 \<Rightarrow> u32 option" where
  "int_plus a b =
     (if - (2 ^ 31) \<le> sint a + sint b \<and> sint a + sint b < 2 ^ 31 then Some (a + b) else None)"

partial_function (option) ms_length :: "kstate \<Rightarrow> u64 \<Rightarrow> u32 \<Rightarrow> u32 option" where
  "ms_length s p j =
     (if p \<noteq> 0
      then Option.bind (ov_next s p) (\<lambda>nx. Option.bind (int_plus j 1) (ms_length s nx))
      else Some j)"

fun ms_free :: "kstate \<Rightarrow> nat list \<Rightarrow> u32 \<Rightarrow> (u32 list \<times> u32) option" where
  "ms_free s [] totfree = Some ([], totfree)"
| "ms_free s (i # is) totfree = do {
     p \<leftarrow> nextf_at s i;
     j \<leftarrow> ms_length s p 0;
     one \<leftarrow> int_shl1 (i + 3);
     bytes \<leftarrow> int_mult j one;
     totfree \<leftarrow> int_plus totfree bytes;
     (js, totfree) \<leftarrow> ms_free s is totfree;
     Some (j # js, totfree)
   }"

fun ms_used :: "u32 list \<Rightarrow> nat list \<Rightarrow> u32 \<Rightarrow> (u32 list \<times> u32) option" where
  "ms_used cnt [] totused = Some ([], totused)"
| "ms_used cnt (i # is) totused = do {
     n \<leftarrow> (if i < length cnt then Some (cnt ! i) else None);
     one \<leftarrow> int_shl1 (i + 3);
     (ns, totused) \<leftarrow> ms_used cnt is (totused + n * one);
     Some (n # ns, totused)
   }"

definition mstats :: "mstate \<Rightarrow> (u32 list \<times> u32 list \<times> u32 list) option" where
  "mstats m = do {
     (js, totfree) \<leftarrow> ms_free (kst m) [0..<NBUCKETS] 0;
     (ns, totused) \<leftarrow> ms_used (nmalloc m) [0..<NBUCKETS] 0;
     total \<leftarrow> int_plus totused totfree;
     Some (js, ns, [totused, totfree, total])
   }"

text \<open>\<open>mstats\<close> has undefined behaviour in every state: for the last bucket it shifts 1 by 32.\<close>

theorem mstats_undefined: "mstats m = None"
proof -
  have "ms_free s is t = None" if "29 \<in> set is" for s "is" t
    using that by (induction s "is" t rule: ms_free.induct) (auto simp: int_shl1_def split: bind_splits)
  then show ?thesis by (simp add: mstats_def NBUCKETS_def)
qed

section \<open>The length of a list\<close>

lemma int_plus_1:
  assumes "j < 2 ^ 31"
  shows "int_plus (of_nat j) 1 = (if j + 1 < 2 ^ 31 then Some (of_nat (j + 1)) else None)"
proof -
  have "sint (of_nat j :: u32) = int j"
    using assms sint_small32 [of "of_nat j"] by (simp add: unat_of_nat32)
  moreover have "int j + 1 < 2 ^ 31 \<longleftrightarrow> int (j + 1) < int (2 ^ 31)" by simp
  then have "int j + 1 < 2 ^ 31 \<longleftrightarrow> j + 1 < 2 ^ 31" by (simp only: of_nat_less_iff)
  ultimately show ?thesis by (simp add: int_plus_def add.commute)
qed

lemma ms_length_chain:
  assumes "chain (ld64 (bytes (hp s))) p xs" and "\<And>x. x \<in> set xs \<Longrightarrow> mapped (hp s) x 8"
    and "j < 2 ^ 31"
  shows "ms_length s p (of_nat j) =
    (if j + length xs < 2 ^ 31 then Some (of_nat (j + length xs)) else None)"
  using assms
proof (induction xs arbitrary: p j)
  case Nil
  then show ?case by (subst ms_length.simps) simp
next
  case (Cons x xs)
  have p: "p = x" "x \<noteq> 0" "chain (ld64 (bytes (hp s))) (ld64 (bytes (hp s)) x) xs"
    using Cons.prems(1) by simp_all
  have nx: "ov_next s x = Some (ld64 (bytes (hp s)) x)"
    using Cons.prems(2) by (simp add: ov_next_def rd64_def)
  show ?case
  proof (cases "j + 1 < 2 ^ 31")
    case True
    have "ms_length s (ld64 (bytes (hp s)) x) (of_nat (j + 1)) =
        (if j + 1 + length xs < 2 ^ 31 then Some (of_nat (j + 1 + length xs)) else None)"
      using Cons.IH [OF p(3) _ True] Cons.prems(2) by simp
    then show ?thesis
      using p(1,2) nx int_plus_1 [OF Cons.prems(3)] True by (subst ms_length.simps) (simp add: ac_simps)
  next
    case False
    then show ?thesis
      using p(1,2) nx int_plus_1 [OF Cons.prems(3)] by (subst ms_length.simps) simp
  qed
qed

text \<open>The number \<open>mstats\<close> computes for a bucket is that of its free blocks; only when there are
  \<open>2 ^ 31\<close> or more of them does the counter overflow.\<close>

theorem mstats_counts_free:
  assumes "kwf os g s" and "b < NBUCKETS"
  shows "ms_length s (nextf s ! b) 0 =
    (if card (free_of g b) < 2 ^ 31 then Some (of_nat (card (free_of g b))) else None)"
proof -
  obtain xs where xs: "chain (ld64 (bytes (hp s))) (nextf s ! b) xs" "set xs = free_of g b" "distinct xs"
    using wf_list [OF assms] .
  have "mapped (hp s) x 8" if "x \<in> set xs" for x
    using that wf_header_mapped(1) [OF assms(1)] xs(2) by (auto simp: free_of_def)
  then show ?thesis
    using ms_length_chain [OF xs(1), of 0] distinct_card [OF xs(3)] xs(2) by simp
qed

lemma mstats_counts_free_witness: "ms_length demo0 (nextf demo0 ! 4) 0 = Some 0"
  using mstats_counts_free [OF demo0_wf(1) [OF demo_os(1,4)], of 4]
  by (simp add: NBUCKETS_def free_of_def ghost0_def)

section \<open>The counters count\<close>

definition counted :: "ghost \<Rightarrow> mstate \<Rightarrow> bool" where
  "counted g m \<longleftrightarrow> finite (used g) \<and> length (nmalloc m) = NBUCKETS \<and>
     (\<forall>b < NBUCKETS. nmalloc m ! b = of_nat (card {op \<in> used g. blk g op = Some b}))"

lemma ms_kmalloc_counted:
  assumes wf: "kwf os g (kst m)" and bt: "booted os (kst m)" and ok: "os_ok os" and c: "counted g m"
  obtains p m' g' where "ms_kmalloc os n m = Some (p, m')" and "kwf os g' (kst m')"
    and "booted os (kst m')" and "counted g' m'" and "blk g \<subseteq>\<^sub>m blk g'"
    and "same_vars (kst m) (kst m')"
    and "if p = 0 then used g' = used g else allocates (unat (pagesz (kst m))) (unat n) g p g'"
proof -
  obtain p s' g' where k: "kmalloc os n (kst m) = Some (p, s')" "kwf os g' s'" "blk g \<subseteq>\<^sub>m blk g'"
      "writes_header (p - sizeof_overhead) (kst m) s'"
      "if p = 0 then used g' = used g else allocates (unat (pagesz (kst m))) (unat n) g p g'"
    using kmalloc_wf [OF wf bt ok, of n] by metis
  have sv: "same_vars (kst m) s'" using k(4) by (simp add: writes_header_def)
  note bt' = booted_same [OF bt sv]
  have old: "blk g' op = blk g op" if u: "op \<in> used g" for op
  proof -
    obtain b where "blk g op = Some b" using wf_used_header [OF wf u] by metis
    then show ?thesis using k(3) by (auto simp: map_le_def dom_def)
  qed
  note [simp] = kmalloc_setup_booted [OF bt] kmalloc_bucket_eq [OF bt]
  show ?thesis
  proof (cases "p = 0")
    case True
    have "ms_kmalloc os n m = Some (0, m\<lparr>kst := s'\<rparr>)"
      using k(1) True by (auto simp: ms_kmalloc_def kmalloc_def split: option.splits)
    moreover have "{op \<in> used g'. blk g' op = Some b} = {op \<in> used g. blk g op = Some b}" for b
      using k(5) True old by auto
    ultimately show ?thesis
      using k(2,3,5) True bt' sv c by (intro that [of 0 "m\<lparr>kst := s'\<rparr>" g']) (simp_all add: counted_def)
  next
    case False
    then obtain op b where op: "p = op + sizeof_overhead" "bucket_for (unat (pagesz (kst m))) (unat n) = Some b"
        "blk g' op = Some b" "op \<notin> used g" "used g' = insert op (used g)"
      using k(5) by (auto simp: allocates_def)
    have b: "b < NBUCKETS" using op(2) by (simp add: bucket_for_Some NBUCKETS_def)
    then have "unat (of_nat b :: u32) = b" by (intro unat_of_nat32) (simp add: NBUCKETS_def)
    then have ms: "ms_kmalloc os n m =
        Some (p, m\<lparr>kst := s', nmalloc := (nmalloc m)[b := nmalloc m ! b + 1]\<rparr>)"
      using k(1) False op(2) b c by (simp add: ms_kmalloc_def kmalloc_def count_def counted_def)
    have "{x \<in> used g'. blk g' x = Some d} =
        (if d = b then insert op {x \<in> used g. blk g x = Some d} else {x \<in> used g. blk g x = Some d})" for d
      using op(3,5) old by auto
    then have "counted g' (m\<lparr>kst := s', nmalloc := (nmalloc m)[b := nmalloc m ! b + 1]\<rparr>)"
      using c op(4,5) b by (auto simp: counted_def nth_list_update)
    then show ?thesis using k(2,3,5) bt' sv by (intro that [OF ms, of g']) auto
  qed
qed

lemma ms_kfree_counted:
  assumes wf: "kwf os g (kst m)" and bt: "booted os (kst m)" and c: "counted g m" and op: "op \<in> used g"
  obtains m' where "ms_kfree (op + sizeof_overhead) m = Some m'" and "kwf os (free_block op g) (kst m')"
    and "booted os (kst m')" and "counted (free_block op g) m'" and "same_vars (kst m) (kst m')"
proof -
  obtain b where b: "blk g op = Some b" "bytes (hp (kst m)) op = MAGIC"
      "bytes (hp (kst m)) (op + 1) = of_nat b"
    using wf_used_header [OF wf op] by metis
  obtain s' where s': "kfree (op + sizeof_overhead) (kst m) = Some s'" "kwf os (free_block op g) s'"
      "same_vars (kst m) s'"
    using kfree_used [OF wf op b(1)] by metis
  have lt: "b < NBUCKETS" using wf_block(1) [OF wf b(1)] by (simp add: NBUCKETS_def)
  then have u: "unat (of_nat b :: u8) = b"
    by (simp add: unat_of_nat take_bit_nat_eq_self NBUCKETS_def)
  note mp = wf_header_mapped [OF wf b(1)]
  have ms: "ms_kfree (op + sizeof_overhead) m =
      Some (m\<lparr>kst := s', nmalloc := (nmalloc m)[b := nmalloc m ! b + - 1]\<rparr>)"
    using s'(1) nonnull_result [OF wf b(1)] mp b u lt c
    by (auto simp: ms_kfree_def kfree_def count_def counted_def ov_magic_def ov_index_def rd8_def Let_def
        split: bind_splits)
  let ?U = "{x \<in> used g. blk g x = Some b}"
  have fin: "finite ?U" "op \<in> ?U" using c op b(1) by (simp_all add: counted_def)
  have eq: "{x \<in> used (free_block op g). blk (free_block op g) x = Some d} =
      (if d = b then ?U - {op} else {x \<in> used g. blk g x = Some d})" for d
    using b(1) by (auto simp: free_block_def)
  have "0 < card ?U" using fin by (auto simp: card_gt_0_iff)
  then have "of_nat (card ?U - 1) = (of_nat (card ?U) - 1 :: u32)" by (simp add: of_nat_diff)
  then have "counted (free_block op g) (m\<lparr>kst := s', nmalloc := (nmalloc m)[b := nmalloc m ! b + - 1]\<rparr>)"
    using c lt fin unfolding counted_def eq by (auto simp: nth_list_update card_Diff_singleton free_block_def)
  then show ?thesis
    using s'(2,3) booted_same [OF bt s'(3)] by (intro that [OF ms]) simp_all
qed

lemma ms_krealloc_used_eq:
  assumes wf: "kwf os g (kst m)" and op: "op \<in> used g" "blk g op = Some b" and n: "n \<noteq> 0"
  shows "ms_krealloc os (op + sizeof_overhead) n m =
    (if bucket_for (unat (pagesz (kst m))) (unat n) = Some b then Some (op + sizeof_overhead, m)
     else do {
       m1 \<leftarrow> ms_kfree (op + sizeof_overhead) m;
       (res, m2) \<leftarrow> ms_kmalloc os n m1;
       if res = 0 then Some (0, m2)
       else if op + sizeof_overhead \<noteq> res then do {
         h \<leftarrow> bcopy (op + sizeof_overhead) res
           (of_nat (min (unat n) (capacity (unat (pagesz (kst m))) b))) (hp (kst m2));
         Some (res, m2\<lparr>kst := (kst m2)\<lparr>hp := h\<rparr>\<rparr>)
       } else Some (res, m2) })"
proof -
  have pd: "paged os (kst m)" using wf by (simp add: kwf_def)
  have b: "b < 28" using wf_block(1) [OF wf op(2)] .
  note tests = krealloc_tests [OF wf op(2) n]
  have nz: "(op + sizeof_overhead = 0) = False" "(n = 0) = False"
    using nonnull_result [OF wf op(2)] n by simp_all
  have cp: "op + sizeof_overhead - sizeof_overhead = op" by simp
  show ?thesis
    by (simp only: ms_krealloc_def nz cp krealloc_lookup_used [OF wf op] krealloc_onb_eq [OF pd b]
        krealloc_low_eq [OF pd b] tests Option.bind.simps prod.case if_True if_False)
qed

section \<open>Programs\<close>

text \<open>
  The states a program reaches from its start, with the objects it holds and their sizes: it
  allocates, frees and resizes with the four operations and stores into what it holds. It frees and
  resizes only what it holds, and NULL.
\<close>

inductive ms_run :: "os \<Rightarrow> heap \<Rightarrow> (u64 \<Rightarrow> nat option) \<Rightarrow> mstate \<Rightarrow> bool" for os h where
  start: "ms_run os h (\<lambda>_. None) (ms_init h)"
| alloc: "ms_run os h L m \<Longrightarrow> ms_kmalloc os n m = Some (p, m') \<Longrightarrow>
    ms_run os h (if p = 0 then L else L(p \<mapsto> unat n)) m'"
| zeroed: "ms_run os h L m \<Longrightarrow> ms_kcalloc os k n m = Some (p, m') \<Longrightarrow>
    ms_run os h (if p = 0 then L else L(p \<mapsto> unat (k * n))) m'"
| resize: "ms_run os h L m \<Longrightarrow> p = 0 \<or> L p \<noteq> None \<Longrightarrow> ms_krealloc os p n m = Some (q, m') \<Longrightarrow>
    ms_run os h (if q = 0 then L(p := None) else (L(p := None))(q \<mapsto> unat n)) m'"
| release: "ms_run os h L m \<Longrightarrow> p = 0 \<or> L p \<noteq> None \<Longrightarrow> ms_kfree p m = Some m' \<Longrightarrow>
    ms_run os h (L(p := None)) m'"
| store: "ms_run os h L m \<Longrightarrow> L p = Some n \<Longrightarrow> i < n \<Longrightarrow> kpoke (p + of_nat i) v (kst m) = Some s \<Longrightarrow>
    ms_run os h L (m\<lparr>kst := s\<rparr>)"

text \<open>The objects held are the data areas of the blocks in use, all of them.\<close>

definition ms_inv :: "os \<Rightarrow> (u64 \<Rightarrow> nat option) \<Rightarrow> ghost \<Rightarrow> mstate \<Rightarrow> bool" where
  "ms_inv os L g m \<longleftrightarrow> kwf os g (kst m) \<and> booted os (kst m) \<and> counted g m \<and>
     hosts g (unat (pagesz (kst m))) L \<and> dom L = (\<lambda>op. op + sizeof_overhead) ` used g"

lemma ms_inv_bytes:
  assumes "ms_inv os L g m" and "kwf os g ((kst m)\<lparr>hp := h\<rparr>)"
  shows "ms_inv os L g (m\<lparr>kst := (kst m)\<lparr>hp := h\<rparr>\<rparr>)"
  using assms booted_same [of os "kst m" "(kst m)\<lparr>hp := h\<rparr>"]
  by (simp add: ms_inv_def counted_def same_vars_def)

lemma ms_inv_alloc:
  assumes "os_ok os" and inv: "ms_inv os L g m" and k: "ms_kmalloc os n m = Some (p, m')"
  obtains g' where "ms_inv os (if p = 0 then L else L(p \<mapsto> unat n)) g' m'" and "blk g \<subseteq>\<^sub>m blk g'"
    and "pagesz (kst m') = pagesz (kst m)"
    and "p \<noteq> 0 \<Longrightarrow> allocates (unat (pagesz (kst m))) (unat n) g p g'"
proof -
  let ?pg = "unat (pagesz (kst m))"
  have g: "kwf os g (kst m)" "booted os (kst m)" "counted g m" "hosts g ?pg L"
      "dom L = (\<lambda>op. op + sizeof_overhead) ` used g"
    using inv by (simp_all add: ms_inv_def)
  obtain q m1 g' where q: "ms_kmalloc os n m = Some (q, m1)"
    and m1: "kwf os g' (kst m1)" "booted os (kst m1)" "counted g' m1" "blk g \<subseteq>\<^sub>m blk g'"
      "same_vars (kst m) (kst m1)"
      "if q = 0 then used g' = used g else allocates ?pg (unat n) g q g'"
    using g(1,2) assms(1) g(3) by (rule ms_kmalloc_counted)
  have same: "q = p" "m1 = m'" using q k by simp_all
  have pg: "pagesz (kst m1) = pagesz (kst m)" using m1(5) by (simp add: same_vars_def)
  have "hosts g' ?pg (if q = 0 then L else L(q \<mapsto> unat n))"
    using m1(4,6) hosts_same [OF g(4)] hosts_alloc(1) [OF g(4)] by simp
  moreover have "dom (if q = 0 then L else L(q \<mapsto> unat n)) = (\<lambda>op. op + sizeof_overhead) ` used g'"
    using m1(6) g(5) by (auto simp: allocates_def split: if_splits)
  ultimately show ?thesis
    using m1 pg unfolding same by (intro that) (simp_all add: ms_inv_def)
qed

lemma ms_inv_release:
  assumes inv: "ms_inv os L g m" and op: "op \<in> used g" and k: "ms_kfree (op + sizeof_overhead) m = Some m'"
  shows "ms_inv os (L(op + sizeof_overhead := None)) (free_block op g) m'"
    and "pagesz (kst m') = pagesz (kst m)"
proof -
  have g: "kwf os g (kst m)" "booted os (kst m)" "counted g m" "hosts g (unat (pagesz (kst m))) L"
      "dom L = (\<lambda>op. op + sizeof_overhead) ` used g"
    using inv by (simp_all add: ms_inv_def)
  obtain m1 where m1: "ms_kfree (op + sizeof_overhead) m = Some m1" "kwf os (free_block op g) (kst m1)"
      "booted os (kst m1)" "counted (free_block op g) m1" "same_vars (kst m) (kst m1)"
    using g(1,2,3) op by (rule ms_kfree_counted)
  have same: "m1 = m'" using m1(1) k by simp
  show pg: "pagesz (kst m') = pagesz (kst m)" using m1(5) unfolding same by (simp add: same_vars_def)
  have "dom (L(op + sizeof_overhead := None)) = (\<lambda>op. op + sizeof_overhead) ` used (free_block op g)"
    using g(5) by (auto simp: free_block_def)
  then show "ms_inv os (L(op + sizeof_overhead := None)) (free_block op g) m'"
    using m1 hosts_free [OF g(4) refl] pg unfolding same by (simp add: ms_inv_def)
qed

lemma ms_inv_object:
  assumes "ms_inv os L g m" and "L p = Some n"
  obtains op b where "p = op + sizeof_overhead" and "op \<in> used g" and "blk g op = Some b"
    and "n \<le> capacity (unat (pagesz (kst m))) b"
  using assms hostsE by (metis ms_inv_def)

lemma ms_inv_zeroed:
  assumes ok: "os_ok os" and inv: "ms_inv os L g m" and k: "ms_kcalloc os k n m = Some (p, m')"
  shows "\<exists>g'. ms_inv os (if p = 0 then L else L(p \<mapsto> unat (k * n))) g' m'"
proof -
  obtain m1 h where m1: "ms_kmalloc os (k * n) m = Some (p, m1)"
    and h: "memset p 0 (k * n) (hp (kst m1)) = Some h" "m' = m1\<lparr>kst := (kst m1)\<lparr>hp := h\<rparr>\<rparr>"
    using k by (auto simp: ms_kcalloc_def split: bind_splits)
  obtain g1 where g1: "ms_inv os (if p = 0 then L else L(p \<mapsto> unat (k * n))) g1 m1"
    using ms_inv_alloc [OF ok inv m1] by metis
  have wf: "kwf os g1 (kst m1)" using g1 by (simp add: ms_inv_def)
  have "kwf os g1 ((kst m1)\<lparr>hp := h\<rparr>)"
  proof (cases "p = 0")
    case True
    then have "k * n = 0" using h(1) memset_null [OF wf, of "k * n" 0] by auto
    then have "h = hp (kst m1)" using h(1) by (simp add: memset_def)
    then show ?thesis using wf by simp
  next
    case False
    then have "ms_inv os (L(p \<mapsto> unat (k * n))) g1 m1" using g1 by simp
    then obtain op b where op: "p = op + sizeof_overhead" "blk g1 op = Some b"
        "unat (k * n) \<le> capacity (unat (pagesz (kst m1))) b"
      using ms_inv_object [of os _ g1 m1 p "unat (k * n)"] by (metis fun_upd_same)
    have "unat (k * n) < 2 ^ 64" using unat_lt64 [of "k * n"] by simp
    then obtain h' where "memset p 0 (of_nat (unat (k * n))) (hp (kst m1)) = Some h'"
        "kwf os g1 ((kst m1)\<lparr>hp := h'\<rparr>)"
      unfolding op(1) by (rule memset_block [OF wf op(2,3), of 0])
    then show ?thesis using h(1) by simp
  qed
  then show ?thesis using ms_inv_bytes [OF g1] h(2) by blast
qed

lemma ms_inv_null:
  assumes "ms_inv os L g m"
  shows "L 0 = None"
proof (cases "L 0")
  case (Some n)
  then obtain op b where op: "0 = op + sizeof_overhead" "blk g op = Some b"
    using ms_inv_object [OF assms] by metis
  have "kwf os g (kst m)" using assms by (simp add: ms_inv_def)
  from nonnull_result [OF this op(2)] op(1) show ?thesis by simp
qed

text \<open>A block that does not fit is freed, another one allocated, and the data copied.\<close>

lemma ms_inv_move:
  assumes ok: "os_ok os" and inv: "ms_inv os L g m" and op: "op \<in> used g" "blk g op = Some b"
    and n: "n \<noteq> 0" and moves: "bucket_for (unat (pagesz (kst m))) (unat n) \<noteq> Some b"
    and k: "ms_krealloc os (op + sizeof_overhead) n m = Some (q, m')"
  shows "\<exists>g'. ms_inv os (if q = 0 then L(op + sizeof_overhead := None)
    else (L(op + sizeof_overhead := None))(q \<mapsto> unat n)) g' m'"
proof -
  let ?p = "op + sizeof_overhead" and ?pg = "unat (pagesz (kst m))"
  let ?len = "min (unat n) (capacity ?pg b)"
  have wf: "kwf os g (kst m)" using inv by (simp add: ms_inv_def)
  obtain m1 m2 where m1: "ms_kfree ?p m = Some m1" and m2: "ms_kmalloc os n m1 = Some (q, m2)"
    and fin: "m' = m2 \<or> q \<noteq> 0 \<and> (\<exists>h. bcopy ?p q (of_nat ?len) (hp (kst m2)) = Some h \<and>
      m' = m2\<lparr>kst := (kst m2)\<lparr>hp := h\<rparr>\<rparr>)"
    using k unfolding ms_krealloc_used_eq [OF wf op n] using moves by (auto split: bind_splits if_splits)
  note rel = ms_inv_release [OF inv op(1) m1]
  obtain g2 where g2: "ms_inv os (if q = 0 then L(?p := None) else (L(?p := None))(q \<mapsto> unat n)) g2 m2"
      "blk (free_block op g) \<subseteq>\<^sub>m blk g2" "pagesz (kst m2) = pagesz (kst m1)"
      "q \<noteq> 0 \<Longrightarrow> allocates (unat (pagesz (kst m1))) (unat n) (free_block op g) q g2"
    using ms_inv_alloc [OF ok rel(1) m2] by metis
  from fin show ?thesis
  proof (elim disjE conjE exE)
    assume "m' = m2"
    then show ?thesis using g2(1) by blast
  next
    fix h assume q: "q \<noteq> 0" and h: "bcopy ?p q (of_nat ?len) (hp (kst m2)) = Some h"
      "m' = m2\<lparr>kst := (kst m2)\<lparr>hp := h\<rparr>\<rparr>"
    have wf2: "kwf os g2 (kst m2)" using g2(1) by (simp add: ms_inv_def)
    have b2: "blk g2 op = Some b" using op(2) g2(2) by (auto simp: free_block_def map_le_def dom_def)
    have len: "?len \<le> capacity (unat (pagesz (kst m2))) b" "?len \<le> unat n"
      unfolding g2(3) rel(2) by simp_all
    have al: "allocates (unat (pagesz (kst m2))) (unat n) (free_block op g) q g2"
      using g2(4) [OF q] unfolding g2(3) .
    obtain h' where "bcopy ?p q (of_nat ?len) (hp (kst m2)) = Some h'" "kwf os g2 ((kst m2)\<lparr>hp := h'\<rparr>)"
      by (rule krealloc_moved [OF wf2 al b2 len])
    then have "kwf os g2 ((kst m2)\<lparr>hp := h\<rparr>)" using h(1) by simp
    then show ?thesis using ms_inv_bytes [OF g2(1)] h(2) by blast
  qed
qed

lemma ms_inv_resize:
  assumes ok: "os_ok os" and inv: "ms_inv os L g m" and p: "p = 0 \<or> L p \<noteq> None"
    and k: "ms_krealloc os p n m = Some (q, m')"
  shows "\<exists>g'. ms_inv os (if q = 0 then L(p := None) else (L(p := None))(q \<mapsto> unat n)) g' m'"
proof (cases "p = 0")
  case True
  then have "L(p := None) = L" using ms_inv_null [OF inv] by auto
  moreover have "ms_kmalloc os n m = Some (q, m')" using k True by (simp add: ms_krealloc_def)
  ultimately show ?thesis using ms_inv_alloc [OF ok inv] by metis
next
  case False
  then obtain l where "L p = Some l" using p by blast
  then obtain op b where op: "p = op + sizeof_overhead" "op \<in> used g" "blk g op = Some b"
    using ms_inv_object [OF inv] by metis
  note g = inv [unfolded ms_inv_def]
  consider "n = 0" | "n \<noteq> 0" "bucket_for (unat (pagesz (kst m))) (unat n) = Some b"
    | "n \<noteq> 0" "bucket_for (unat (pagesz (kst m))) (unat n) \<noteq> Some b"
    by blast
  then show ?thesis
  proof cases
    case 1
    then have "ms_kfree p m = Some m'" "q = 0"
      using k False by (auto simp: ms_krealloc_def split: bind_splits)
    then show ?thesis using ms_inv_release(1) [OF inv op(2)] op(1) by auto
  next
    case 2
    then have "q = p" "m' = m"
      using k g unfolding op(1) by (simp_all add: ms_krealloc_used_eq [OF _ op(2,3)])
    moreover have "hosts g (unat (pagesz (kst m))) (L(p \<mapsto> unat n))"
      unfolding op(1) using 2(2) g by (intro hosts_resized [OF _ op(2,3)]) (simp_all add: bucket_for_Some)
    moreover have "dom (L(p \<mapsto> unat n)) = dom L" using \<open>L p = Some l\<close> by auto
    ultimately have "ms_inv os (L(p \<mapsto> unat n)) g m'" using g unfolding ms_inv_def by simp
    then show ?thesis using False \<open>q = p\<close> by auto
  next
    case 3
    from ms_inv_move [OF ok inv op(2,3) 3] k show ?thesis unfolding op(1) by blast
  qed
qed

lemma ms_inv_store:
  assumes inv: "ms_inv os L g m" and "L p = Some n" and "i < n"
    and k: "kpoke (p + of_nat i) v (kst m) = Some s"
  shows "ms_inv os L g (m\<lparr>kst := s\<rparr>)"
proof -
  obtain op b where op: "p = op + sizeof_overhead" "blk g op = Some b"
      "n \<le> capacity (unat (pagesz (kst m))) b"
    using ms_inv_object [OF inv assms(2)] by metis
  have wf: "kwf os g (kst m)" using inv by (simp add: ms_inv_def)
  note poke = poke_block [OF wf op(2,3,1) assms(3), of v]
  have "s = (kst m)\<lparr>hp := (hp (kst m))\<lparr>bytes := (bytes (hp (kst m)))(p + of_nat i := v)\<rparr>\<rparr>"
    using poke(1) k by simp
  then show ?thesis using ms_inv_bytes [OF inv poke(2)] by simp
qed

lemma counted_init:
  assumes "nmalloc m = replicate NBUCKETS 0"
  shows "counted ghost0 m"
  using assms by (simp add: counted_def ghost0_def)

text \<open>The first call runs on the state its set-up establishes.\<close>

lemma ms_kmalloc_first:
  assumes "kmalloc_setup os (kst m) = Some (True, s)" and "booted os s"
  shows "ms_kmalloc os n m = ms_kmalloc os n (m\<lparr>kst := s\<rparr>)"
  using assms(1) kmalloc_setup_booted [OF assms(2)]
  by (simp add: ms_kmalloc_def cong: if_cong split: option.split)

text \<open>What a program finds: nothing yet, or the invariant.\<close>

definition ms_found :: "os \<Rightarrow> heap \<Rightarrow> (u64 \<Rightarrow> nat option) \<Rightarrow> mstate \<Rightarrow> bool" where
  "ms_found os h L m \<longleftrightarrow> L = (\<lambda>_. None) \<and> m = ms_init h \<or> (\<exists>g. ms_inv os L g m)"

lemma ms_found_ready:
  assumes "os_ok os" and "start_ok h" and "boots os h" and "ms_found os h L m"
  obtains g m0 where "ms_inv os L g m0" and "\<And>n. ms_kmalloc os n m = ms_kmalloc os n m0"
proof (cases "\<exists>g. ms_inv os L g m")
  case True
  then show ?thesis using that by blast
next
  case False
  then have m: "L = (\<lambda>_. None)" "m = ms_init h" using assms(4) by (auto simp: ms_found_def)
  obtain s where s: "kmalloc_setup os (kinit h) = Some (True, s)" "kwf os ghost0 s" "booted os s"
    using setup_granted [OF assms(1-3)] by blast
  let ?m = "m\<lparr>kst := s\<rparr>"
  have "counted ghost0 ?m" using m(2) by (intro counted_init) (simp add: ms_init_def)
  then have "ms_inv os L ghost0 ?m"
    using s(2,3) m(1) hosts_none by (simp add: ms_inv_def) (simp add: ghost0_def)
  moreover have "kmalloc_setup os (kst m) = Some (True, s)" using s(1) m(2) by (simp add: ms_init_def)
  then have "ms_kmalloc os n m = ms_kmalloc os n ?m" for n using ms_kmalloc_first s(3) by metis
  ultimately show ?thesis by (rule that)
qed

lemma ms_run_found:
  assumes st: "os_ok os" "start_ok h" "boots os h" and "ms_run os h L m"
  shows "ms_found os h L m"
  using assms(4)
proof induction
  case start
  then show ?case by (simp add: ms_found_def)
next
  case (alloc L m n p m')
  obtain g m0 where m0: "ms_inv os L g m0" "\<And>n. ms_kmalloc os n m = ms_kmalloc os n m0"
    using ms_found_ready [OF st alloc.IH] by blast
  then have "ms_kmalloc os n m0 = Some (p, m')" using alloc.hyps(2) by simp
  then show ?case using ms_inv_alloc [OF st(1) m0(1)] unfolding ms_found_def by metis
next
  case (zeroed L m k n p m')
  obtain g m0 where m0: "ms_inv os L g m0" "\<And>n. ms_kmalloc os n m = ms_kmalloc os n m0"
    using ms_found_ready [OF st zeroed.IH] by blast
  then have "ms_kcalloc os k n m0 = Some (p, m')" using zeroed.hyps(2) by (simp add: ms_kcalloc_def)
  then show ?case using ms_inv_zeroed [OF st(1) m0(1)] unfolding ms_found_def by blast
next
  case (resize L m p n q m')
  show ?case
  proof (cases "p = 0")
    case True
    obtain g m0 where m0: "ms_inv os L g m0" "\<And>n. ms_kmalloc os n m = ms_kmalloc os n m0"
      using ms_found_ready [OF st resize.IH] by blast
    then have "ms_krealloc os p n m0 = Some (q, m')" using resize.hyps(3) True by (simp add: ms_krealloc_def)
    then show ?thesis using ms_inv_resize [OF st(1) m0(1) resize.hyps(2)] unfolding ms_found_def by blast
  next
    case False
    then obtain g where "ms_inv os L g m" using resize.IH resize.hyps(2) by (auto simp: ms_found_def)
    then show ?thesis using ms_inv_resize [where L = L and p = p, OF st(1) _ resize.hyps(2,3)] unfolding ms_found_def by blast
  qed
next
  case (release L m p m')
  show ?case
  proof (cases "L p")
    case None
    then have "m' = m" "L(p := None) = L" using release.hyps by (auto simp: ms_kfree_def)
    then show ?thesis using release.IH by simp
  next
    case (Some n)
    then obtain g where g: "ms_inv os L g m" using release.IH by (auto simp: ms_found_def)
    obtain op where op: "p = op + sizeof_overhead" "op \<in> used g"
      using ms_inv_object [OF g Some] by metis
    then show ?thesis using ms_inv_release(1) [OF g op(2)] release.hyps(3) unfolding ms_found_def by blast
  qed
next
  case (store L m p n i v s)
  then obtain g where "ms_inv os L g m" by (auto simp: ms_found_def)
  then show ?case using ms_inv_store [where L = L and p = p, OF _ store.hyps(2-4)] unfolding ms_found_def by blast
qed

text \<open>C14: In every state a program reaches with the four operations and its own stores, the counter of
  each bucket is the number of the blocks the program holds whose header names that bucket. The
  first move of the break is taken to be granted.\<close>

theorem nmalloc_counts_used:
  assumes "os_ok os" and "start_ok h" and "boots os h" and "ms_run os h L m" and "b < NBUCKETS"
  shows "nmalloc m ! b = of_nat (card {p \<in> dom L. ov_magic (kst m) (p - sizeof_overhead) = Some MAGIC \<and>
    ov_index (kst m) (p - sizeof_overhead) = Some (of_nat b)})"
proof (cases "\<exists>g. ms_inv os L g m")
  case False
  then have "L = (\<lambda>_. None)" "m = ms_init h"
    using ms_run_found [OF assms(1-4)] by (auto simp: ms_found_def)
  then show ?thesis using assms(5) by (simp add: ms_init_def)
next
  case True
  then obtain g where g: "kwf os g (kst m)" "counted g m" "dom L = (\<lambda>op. op + sizeof_overhead) ` used g"
    by (auto simp: ms_inv_def)
  have hd: "ov_magic (kst m) op = Some MAGIC \<and>
      (ov_index (kst m) op = Some (of_nat b) \<longleftrightarrow> blk g op = Some b)" if u: "op \<in> used g" for op
  proof -
    obtain c where c: "blk g op = Some c" "bytes (hp (kst m)) op = MAGIC"
        "bytes (hp (kst m)) (op + 1) = of_nat c"
      using wf_used_header [OF g(1) u] by metis
    have "(of_nat c :: u8) = of_nat b \<longleftrightarrow> c = b"
      using wf_block(1) [OF g(1) c(1)] assms(5)
      by (auto simp: word_unat_eq_iff unat_of_nat take_bit_nat_eq_self NBUCKETS_def)
    then show ?thesis using c wf_header_mapped [OF g(1) c(1)] by (simp add: ov_magic_def ov_index_def rd8_def)
  qed
  have "{p \<in> dom L. ov_magic (kst m) (p - sizeof_overhead) = Some MAGIC \<and>
      ov_index (kst m) (p - sizeof_overhead) = Some (of_nat b)} =
    (\<lambda>op. op + sizeof_overhead) ` {op \<in> used g. blk g op = Some b}"
    unfolding g(3) using hd by auto
  moreover have "inj_on (\<lambda>op. op + sizeof_overhead) X" for X :: "u64 set" by (rule inj_onI) simp
  ultimately show ?thesis using g(2) assms(5) by (simp add: card_image counted_def)
qed

lemma ms_kmalloc_result: "ms_kmalloc os n m = Some (p, m') \<Longrightarrow> kmalloc os n (kst m) = Some (p, kst m')"
  by (auto simp: ms_kmalloc_def kmalloc_def count_def split: bind_splits option.splits if_splits)

text \<open>A block from \<open>krealloc\<close>, and a store into it.\<close>

lemma nmalloc_counts_used_witness:
  "\<exists>p m s. ms_krealloc linux 0 24 (ms_init odd_heap) = Some (p, m) \<and> p \<noteq> 0 \<and>
    kpoke (p + 3) 7 (kst m) = Some s \<and>
    nmalloc m ! 2 = of_nat (card {q. q = p \<and> ov_magic s (q - sizeof_overhead) = Some MAGIC \<and>
      ov_index s (q - sizeof_overhead) = Some 2})"
proof -
  note st = demo_os(1) demo_start(2) demo_gap(1)
  have "ms_found linux odd_heap (\<lambda>_. None) (ms_init odd_heap)" by (simp add: ms_found_def)
  then obtain g m0 where m0: "ms_inv linux (\<lambda>_. None) g m0"
      "\<And>n. ms_kmalloc linux n (ms_init odd_heap) = ms_kmalloc linux n m0"
    using ms_found_ready [OF st] by blast
  have "kwf linux g (kst m0)" "booted linux (kst m0)" "counted g m0" using m0(1) by (simp_all add: ms_inv_def)
  then obtain p m where k: "ms_kmalloc linux 24 (ms_init odd_heap) = Some (p, m)"
    using ms_kmalloc_counted [OF _ _ st(1), of g m0 24] m0(2) by metis
  have "bucket_for 4096 (unat (24 :: u64)) = Some 2" using bucket_for_24 by simp
  then have nz: "p \<noteq> 0"
    using first_served ms_kmalloc_result [OF k] by (fastforce simp: ms_init_def)
  let ?L = "(\<lambda>_. None)(p \<mapsto> unat (24 :: u64))"
  have r: "ms_run linux odd_heap ?L m" using ms_run.alloc [OF ms_run.start k] nz by simp
  have "?L p \<noteq> None" by simp
  then have "?L \<noteq> (\<lambda>_. None)" by metis
  then obtain h where h: "ms_inv linux ?L h m"
    using ms_run_found [OF st r] unfolding ms_found_def by blast
  obtain op b where op: "p = op + sizeof_overhead" "blk h op = Some b"
      "unat (24 :: u64) \<le> capacity (unat (pagesz (kst m))) b"
    using ms_inv_object [OF h, of p "unat (24 :: u64)"] by (metis fun_upd_same)
  have "kwf linux h (kst m)" using h by (simp add: ms_inv_def)
  from poke_block(1) [OF this op(2,3,1), of 3 7] obtain s where s: "kpoke (p + of_nat 3) 7 (kst m) = Some s"
    by auto
  have "ms_run linux odd_heap ?L (m\<lparr>kst := s\<rparr>)" by (rule ms_run.store [OF r _ _ s], simp) simp
  from nmalloc_counts_used [OF st this, of 2]
  have "nmalloc m ! 2 = of_nat (card {q. q = p \<and> ov_magic s (q - sizeof_overhead) = Some MAGIC \<and>
      ov_index s (q - sizeof_overhead) = Some 2})"
    by (simp add: NBUCKETS_def)
  then show ?thesis using k nz s by (intro exI [of _ p] exI [of _ m] exI [of _ s]) (simp add: ms_krealloc_def)
qed

end
