(* ===== verification/Kmalloc_Rust.thy ===== *)
theory Kmalloc_Rust
  imports Kmalloc "HOL-Library.Signed_Division"
begin

text \<open>
  The port of the allocator to Rust in \<open>kmalloc/src\<close>: \<open>kmalloc.rs\<close> without \<open>RCHECK\<close> and
  \<open>MSTATS\<close>, \<open>kassert.rs\<close>, and the global allocator of \<open>lib.rs\<close>, on the same state and heap as the
  C original. \<open>chk\<close> tells the profile: with overflow checks arithmetic that overflows panics,
  without them it wraps. An operation has the value \<^term>\<open>None\<close> when it panics, accesses memory
  outside the heap or does not return.
\<close>

section \<open>Arithmetic\<close>

definition in_i32 :: "int \<Rightarrow> bool" where
  "in_i32 x \<longleftrightarrow> - (2 ^ 31) \<le> x \<and> x < 2 ^ 31"

definition guarded :: "bool \<Rightarrow> bool \<Rightarrow> 'a \<Rightarrow> 'a option" where
  "guarded chk ok x = (if chk \<and> \<not> ok then None else Some x)"

definition i32_add :: "bool \<Rightarrow> u32 \<Rightarrow> u32 \<Rightarrow> u32 option" where
  "i32_add chk a b = guarded chk (in_i32 (sint a + sint b)) (a + b)"

definition i32_sub :: "bool \<Rightarrow> u32 \<Rightarrow> u32 \<Rightarrow> u32 option" where
  "i32_sub chk a b = guarded chk (in_i32 (sint a - sint b)) (a - b)"

definition u32_add :: "bool \<Rightarrow> u32 \<Rightarrow> u32 \<Rightarrow> u32 option" where
  "u32_add chk a b = guarded chk (unat a + unat b < 2 ^ 32) (a + b)"

definition u32_sub :: "bool \<Rightarrow> u32 \<Rightarrow> u32 \<Rightarrow> u32 option" where
  "u32_sub chk a b = guarded chk (unat b \<le> unat a) (a - b)"

definition usize_add :: "bool \<Rightarrow> u64 \<Rightarrow> u64 \<Rightarrow> u64 option" where
  "usize_add chk a b = guarded chk (unat a + unat b < 2 ^ 64) (a + b)"

definition usize_sub :: "bool \<Rightarrow> u64 \<Rightarrow> u64 \<Rightarrow> u64 option" where
  "usize_sub chk a b = guarded chk (unat b \<le> unat a) (a - b)"

definition usize_mul :: "bool \<Rightarrow> u64 \<Rightarrow> u64 \<Rightarrow> u64 option" where
  "usize_mul chk a b = guarded chk (unat a * unat b < 2 ^ 64) (a * b)"

text \<open>\<open>1 << k\<close> for a \<open>k\<close> of type \<open>i32\<close>: unchecked, only its low five bits count.\<close>

definition shl1 :: "bool \<Rightarrow> u32 \<Rightarrow> u32 option" where
  "shl1 chk k = guarded chk (unat k < 32) (push_bit (unat k mod 32) 1)"

text \<open>Division of \<open>i32\<close>: panics for a zero divisor and for the one quotient that is too large.\<close>

definition i32_div :: "u32 \<Rightarrow> u32 \<Rightarrow> u32 option" where
  "i32_div a b = (if b = 0 \<or> \<not> in_i32 (sint a sdiv sint b) then None
     else Some (word_of_int (sint a sdiv sint b)))"

named_theorems rust_arith

declare i32_add_def [rust_arith] i32_sub_def [rust_arith] u32_add_def [rust_arith]
  u32_sub_def [rust_arith] usize_add_def [rust_arith] usize_sub_def [rust_arith]
  usize_mul_def [rust_arith] guarded_def [rust_arith]

section \<open>Constants and assertions\<close>

definition PAGE_SIZE :: u32 where
  "PAGE_SIZE = 4096"

definition OVERHEAD :: u32 where
  "OVERHEAD = 8"

definition REALLOC_SRCHLEN :: u32 where
  "REALLOC_SRCHLEN = 4"

definition rs_init :: "heap \<Rightarrow> kstate" where
  "rs_init h = \<lparr>nextf = replicate NBUCKETS 0, pagesz = 0, pagebucket = - 1,
     realloc_srchlen = REALLOC_SRCHLEN, hp = h\<rparr>"

text \<open>\<open>DEBUG\<close> is the cargo feature \<open>debug\<close>, which the manifest does not declare.\<close>

definition DEBUG :: bool where
  "DEBUG = False"

definition kassert :: "bool option \<Rightarrow> unit option" where
  "kassert check =
     (if DEBUG then do { c \<leftarrow> check; if c then Some () else None } else Some ())"

text \<open>\<open>NEXTF[i as usize]\<close> for an \<open>i\<close> of type \<open>i32\<close>.\<close>

definition index :: "u32 \<Rightarrow> nat" where
  "index i = unat (int_to_long i)"

section \<open>kmalloc\<close>

partial_function (option) rs_page_loop :: "bool \<Rightarrow> u32 \<Rightarrow> u32 \<Rightarrow> u32 \<Rightarrow> u32 option" where
  "rs_page_loop chk psz amt bucket =
     (if psz > amt then
        Option.bind (i32_add chk bucket 1) (rs_page_loop chk psz (push_bit 1 amt))
      else Some bucket)"

definition rs_setup :: "bool \<Rightarrow> os \<Rightarrow> kstate \<Rightarrow> (bool \<times> kstate) option" where
  "rs_setup chk os s =
     (if pagesz s = 0 then do {
        let s = s\<lparr>pagesz := PAGE_SIZE\<rparr>;
        let n = PAGE_SIZE;
        let overhead = fst (sbrk os 0 (hp s));
        rest \<leftarrow> i32_sub chk n OVERHEAD;
        mask \<leftarrow> i32_sub chk n 1;
        n \<leftarrow> i32_sub chk rest (ucast overhead AND mask);
        n \<leftarrow> (if n <s 0 then i32_add chk n (pagesz s) else Some n);
        let (interm, h) = (if 0 <s n then sbrk os (int_to_long n) (hp s) else (0, hp s));
        let s = s\<lparr>hp := h\<rparr>;
        if interm = - 1 then Some (False, s)
        else do {
          bucket \<leftarrow> rs_page_loop chk (pagesz s) 8 0;
          Some (True, s\<lparr>pagebucket := bucket\<rparr>)
        }
      } else Some (True, s))"

text \<open>The inner \<^term>\<open>None\<close> is the return of a null pointer.\<close>

function rs_size_loop :: "bool \<Rightarrow> u64 \<Rightarrow> u32 \<Rightarrow> u32 \<Rightarrow> u32 \<Rightarrow> u32 option option" where
  "rs_size_loop chk nbytes n amt bucket =
     Option.bind (i32_add chk amt n) (\<lambda>top.
     if nbytes > int_to_long top then
       (if push_bit 1 amt = 0 then Some None
        else Option.bind (i32_add chk bucket 1) (rs_size_loop chk nbytes n (push_bit 1 amt)))
     else Some (Some bucket))"
  by pat_completeness auto
termination
  by (relation "measure (\<lambda>(chk, nbytes, n, amt, bucket). shifts_left amt)")
    (simp_all add: shifts_left_decreases [simplified])

declare rs_size_loop.simps [simp del]

definition rs_bucket :: "bool \<Rightarrow> kstate \<Rightarrow> u64 \<Rightarrow> u32 option option" where
  "rs_bucket chk s nbytes = do {
     n \<leftarrow> i32_sub chk (pagesz s) OVERHEAD;
     if nbytes \<le> int_to_long n then rs_size_loop chk nbytes (- OVERHEAD) 8 0
     else rs_size_loop chk nbytes n (pagesz s) (pagebucket s)
   }"

text \<open>
  The loop of \<open>morecore\<close>, after the first \<open>nblks -= 1\<close>. The next block is computed from the address
  cut to 32 bits and extended again.
\<close>

function rs_carve :: "bool \<Rightarrow> u64 \<Rightarrow> u32 \<Rightarrow> u32 \<Rightarrow> kstate \<Rightarrow> kstate option" where
  "rs_carve chk overhead sz nblks s =
     (if 0 <s nblks then
        Option.bind (i32_add chk (ucast overhead) sz) (\<lambda>to.
        Option.bind (set_ov_next overhead (int_to_long to) s) (\<lambda>s.
        rs_carve chk (int_to_long to) sz (nblks - 1) s))
      else Some s)"
  by pat_completeness auto
termination
proof (relation "measure (\<lambda>(chk, op, sz, nblks, s). unat nblks)", goal_cases)
  case 1
  then show ?case by simp
next
  case (2 chk op sz nblks s to s')
  then have "nblks \<noteq> 0" by auto
  then show ?case by (simp add: unat_minus_one unat_gt_0)
qed

declare rs_carve.simps [simp del]

definition rs_morecore :: "bool \<Rightarrow> os \<Rightarrow> u32 \<Rightarrow> kstate \<Rightarrow> kstate option" where
  "rs_morecore chk os bucket s = do {
     k \<leftarrow> i32_add chk bucket 3;
     sz \<leftarrow> shl1 chk k;
     _ \<leftarrow> kassert (Some (0 <s sz));
     (amt, nblks) \<leftarrow>
       (if sz <s pagesz s then do { nblks \<leftarrow> i32_div (pagesz s) sz; Some (pagesz s, nblks) }
        else do { amt \<leftarrow> i32_add chk sz (pagesz s); Some (amt, 1) });
     let (overhead, h) = sbrk os (int_to_long amt) (hp s);
     let s = s\<lparr>hp := h\<rparr>;
     if overhead = - 1 then Some s
     else do {
       s \<leftarrow> set_nextf (index bucket) overhead s;
       nblks \<leftarrow> i32_sub chk nblks 1;
       rs_carve chk overhead sz nblks s
     }
   }"

definition rs_take :: "bool \<Rightarrow> os \<Rightarrow> u32 \<Rightarrow> kstate \<Rightarrow> (u64 \<times> kstate) option" where
  "rs_take chk os bucket s = do {
     overhead \<leftarrow> nextf_at s (index bucket);
     s \<leftarrow> (if overhead = 0 then rs_morecore chk os bucket s else Some s);
     overhead \<leftarrow> nextf_at s (index bucket);
     if overhead = 0 then Some (0, s)
     else do {
       nx \<leftarrow> ov_next s overhead;
       s \<leftarrow> set_nextf (index bucket) nx s;
       s \<leftarrow> set_ov_magic overhead MAGIC s;
       s \<leftarrow> set_ov_index overhead (ucast bucket) s;
       p \<leftarrow> usize_add chk overhead (uint_to_long OVERHEAD);
       Some (p, s)
     }
   }"

definition rs_kmalloc :: "bool \<Rightarrow> os \<Rightarrow> u64 \<Rightarrow> kstate \<Rightarrow> (u64 \<times> kstate) option" where
  "rs_kmalloc chk os nbytes s = do {
     (ok, s) \<leftarrow> rs_setup chk os s;
     if \<not> ok then Some (0, s)
     else do {
       found \<leftarrow> rs_bucket chk s nbytes;
       (case found of
          None \<Rightarrow> Some (0, s)
        | Some bucket \<Rightarrow> rs_take chk os bucket s)
     }
   }"

definition rs_kcalloc :: "bool \<Rightarrow> os \<Rightarrow> u64 \<Rightarrow> u64 \<Rightarrow> kstate \<Rightarrow> (u64 \<times> kstate) option" where
  "rs_kcalloc chk os nelem elsize s = do {
     n \<leftarrow> usize_mul chk nelem elsize;
     (ptr, s) \<leftarrow> rs_kmalloc chk os n s;
     h \<leftarrow> memset ptr 0 n (hp s);
     Some (ptr, s\<lparr>hp := h\<rparr>)
   }"

section \<open>kfree and the size lookup\<close>

definition rs_kfree :: "bool \<Rightarrow> u64 \<Rightarrow> kstate \<Rightarrow> kstate option" where
  "rs_kfree chk cp s =
     (if cp = 0 then Some s
      else do {
        overhead \<leftarrow> usize_sub chk cp (uint_to_long OVERHEAD);
        _ \<leftarrow> kassert (map_option (\<lambda>m. m = MAGIC) (ov_magic s overhead));
        size \<leftarrow> ov_index s overhead;
        _ \<leftarrow> kassert (Some (unat size < NBUCKETS));
        h \<leftarrow> nextf_at s (unat size);
        s \<leftarrow> set_ov_next overhead h s;
        set_nextf (unat size) overhead s
      })"

definition rs_kmalloc_usable_size :: "bool \<Rightarrow> u64 \<Rightarrow> kstate \<Rightarrow> u64 option" where
  "rs_kmalloc_usable_size chk cp s =
     (if cp = 0 then Some 0
      else do {
        overhead \<leftarrow> usize_sub chk cp (uint_to_long OVERHEAD);
        _ \<leftarrow> kassert (map_option (\<lambda>m. m = MAGIC) (ov_magic s overhead));
        ix \<leftarrow> ov_index s overhead;
        Some (ucast ix)
      })"

section \<open>realloc\<close>

text \<open>The inner loop of \<open>findbucket\<close>: \<open>p\<close> never moves on. True when the block is found.\<close>

partial_function (option) rs_find_loop :: "bool \<Rightarrow> u64 \<Rightarrow> u32 \<Rightarrow> u64 \<Rightarrow> u32 \<Rightarrow> bool option" where
  "rs_find_loop chk freep srchlen p j =
     (if (if p = 0 \<or> j = 0 then 0 else 1) = int_to_long srchlen then Some False
      else if p = freep then Some True
      else Option.bind (i32_add chk j 1) (rs_find_loop chk freep srchlen p))"

fun rs_findbucket_in :: "bool \<Rightarrow> kstate \<Rightarrow> u64 \<Rightarrow> u32 \<Rightarrow> nat list \<Rightarrow> u32 option" where
  "rs_findbucket_in chk s freep srchlen [] = Some (- 1)"
| "rs_findbucket_in chk s freep srchlen (i # is) = do {
     p \<leftarrow> nextf_at s i;
     found \<leftarrow> rs_find_loop chk freep srchlen p 0;
     if found then Some (of_nat i) else rs_findbucket_in chk s freep srchlen is
   }"

definition rs_findbucket :: "bool \<Rightarrow> kstate \<Rightarrow> u64 \<Rightarrow> u32 \<Rightarrow> u32 option" where
  "rs_findbucket chk s freep srchlen = rs_findbucket_in chk s freep srchlen [0..<NBUCKETS]"

definition rs_lookup :: "bool \<Rightarrow> u64 \<Rightarrow> kstate \<Rightarrow> (bool \<times> u32) option" where
  "rs_lookup chk overhead s = do {
     magic \<leftarrow> ov_magic s overhead;
     if magic = MAGIC then do { ix \<leftarrow> ov_index s overhead; Some (True, ucast ix) }
     else do {
       i \<leftarrow> rs_findbucket chk s overhead 1;
       temp \<leftarrow> rs_findbucket chk s overhead REALLOC_SRCHLEN;
       Some (False, if i <s 0 \<and> temp <s 0 then of_nat NBUCKETS else i)
     }
   }"

definition rs_onb :: "bool \<Rightarrow> u32 \<Rightarrow> kstate \<Rightarrow> u32 option" where
  "rs_onb chk i s = do {
     k \<leftarrow> i32_add chk i 3;
     onb \<leftarrow> shl1 chk k;
     if onb < pagesz s then u32_sub chk onb OVERHEAD
     else do { d \<leftarrow> u32_sub chk (pagesz s) OVERHEAD; u32_add chk onb d }
   }"

definition rs_low :: "bool \<Rightarrow> u32 \<Rightarrow> kstate \<Rightarrow> u32 option" where
  "rs_low chk i s =
     (if 0 <s i then do {
        k \<leftarrow> i32_add chk i 2;
        i \<leftarrow> shl1 chk k;
        if i <s pagesz s then i32_sub chk i OVERHEAD
        else do { d \<leftarrow> i32_sub chk (pagesz s) OVERHEAD; i32_add chk i d }
      } else Some i)"

text \<open>\<open>memcpy\<close> is \<open>bcopy\<close> on ranges that must not overlap.\<close>

definition memcpy :: "u64 \<Rightarrow> u64 \<Rightarrow> u64 \<Rightarrow> heap \<Rightarrow> heap option" where
  "memcpy dst src n h =
     (if unat dst + unat n \<le> unat src \<or> unat src + unat n \<le> unat dst \<or> n = 0
      then bcopy src dst n h else None)"

definition rs_realloc :: "bool \<Rightarrow> os \<Rightarrow> u64 \<Rightarrow> u64 \<Rightarrow> kstate \<Rightarrow> (u64 \<times> kstate) option" where
  "rs_realloc chk os cp nbytes s =
     (if cp = 0 then rs_kmalloc chk os nbytes s
      else if nbytes = 0 then do { s \<leftarrow> rs_kfree chk cp s; Some (0, s) }
      else do {
        overhead \<leftarrow> usize_sub chk cp (uint_to_long OVERHEAD);
        (was_alloced, i) \<leftarrow> rs_lookup chk overhead s;
        onb \<leftarrow> rs_onb chk i s;
        keep \<leftarrow> (if was_alloced
                 then do { low \<leftarrow> rs_low chk i s;
                           Some (nbytes \<le> uint_to_long onb \<and> nbytes > int_to_long low) }
                 else Some False);
        if keep then Some (cp, s)
        else do {
          s \<leftarrow> (if was_alloced then rs_kfree chk cp s else Some s);
          (res, s) \<leftarrow> rs_kmalloc chk os nbytes s;
          if res = 0 then Some (0, s)
          else if cp \<noteq> res then do {
            h \<leftarrow> memcpy res cp
              (if nbytes < uint_to_long onb then nbytes else uint_to_long onb) (hp s);
            Some (res, s\<lparr>hp := h\<rparr>)
          } else Some (res, s)
        }
      })"

section \<open>The global allocator\<close>

record rs_layout =
  lsize :: u64
  lalign :: u64

text \<open>\<open>handle_alloc_error\<close> does not return.\<close>

definition global_alloc :: "bool \<Rightarrow> os \<Rightarrow> rs_layout \<Rightarrow> kstate \<Rightarrow> (u64 \<times> kstate) option" where
  "global_alloc chk os l s = do {
     (ptr, s) \<leftarrow> rs_kmalloc chk os (lsize l) s;
     if ptr = 0 then None else Some (ptr, s)
   }"

definition global_dealloc :: "bool \<Rightarrow> u64 \<Rightarrow> rs_layout \<Rightarrow> kstate \<Rightarrow> kstate option" where
  "global_dealloc chk ptr l s = rs_kfree chk ptr s"

end
