(* ===== verification/Kmalloc_Rust_Arith.thy ===== *)
theory Kmalloc_Rust_Arith
  imports Kmalloc_Rust Kmalloc_Boot
begin

text \<open>
  The arithmetic of the Rust port in terms of integers, and the parts of its \<open>kmalloc\<close> that only
  compute: the first call, the size computation and the list heads agree with the C original on
  pages of 4096 bytes.
\<close>

section \<open>Words of integers\<close>

abbreviation i32 :: "int \<Rightarrow> u32" where
  "i32 k \<equiv> word_of_int k"

lemma sint_i32: "in_i32 k \<Longrightarrow> sint (i32 k) = k"
  by (simp add: in_i32_def signed_of_int signed_take_bit_int_eq_self)

lemma of_nat_i32: "of_nat n = i32 (int n)"
  by simp

lemma i32_to_long: "in_i32 k \<Longrightarrow> int_to_long (i32 k) = word_of_int k"
  by (simp only: scast_eq sint_i32)

lemma i32_add_eq:
  assumes "in_i32 a" and "in_i32 b" and "in_i32 (a + b)"
  shows "i32_add chk (i32 a) (i32 b) = Some (i32 (a + b))"
  using assms by (simp only: i32_add_def guarded_def sint_i32 of_int_add) simp

lemma i32_sub_eq:
  assumes "in_i32 a" and "in_i32 b" and "in_i32 (a - b)"
  shows "i32_sub chk (i32 a) (i32 b) = Some (i32 (a - b))"
  using assms by (simp only: i32_sub_def guarded_def sint_i32 of_int_diff) simp

lemma i32_less: "in_i32 a \<Longrightarrow> in_i32 b \<Longrightarrow> i32 a <s i32 b \<longleftrightarrow> a < b"
  by (simp only: word_sless_alt sint_i32)

lemma i32_numeral: "i32 (numeral k) = numeral k" "i32 0 = 0" "i32 1 = 1"
  by simp_all

lemma index_of_nat: "b < 2 ^ 31 \<Longrightarrow> index (of_nat b) = b"
  by (simp only: index_def) (simp add: unat_int_to_long unat_of_nat32)

lemma PAGE_SIZE_i32: "PAGE_SIZE = i32 4096"
  by (simp add: PAGE_SIZE_def)

lemma OVERHEAD_i32: "OVERHEAD = i32 8"
  by (simp add: OVERHEAD_def)

lemma OVERHEAD_long: "uint_to_long OVERHEAD = sizeof_overhead"
  by (simp add: OVERHEAD_def sizeof_overhead_def)

section \<open>Page size of 4096\<close>

lemma rs_page_loop_4096: "rs_page_loop chk 4096 8 0 = Some 9"
  by (subst rs_page_loop.simps, simp add: i32_add_def guarded_def in_i32_def)+

lemma low_bits:
  fixes a :: u64
  shows "(ucast a :: u32) AND i32 4095 = i32 (int (unat a mod 4096))"
proof (rule unat_eqI)
  have "(ucast a :: u32) AND i32 4095 = take_bit 12 (ucast a)"
    by (simp add: take_bit_eq_mask mask_eq_exp_minus_1)
  then have "unat ((ucast a :: u32) AND i32 4095) = take_bit 12 (unat (ucast a :: u32))"
    by (simp only: unsigned_take_bit_eq)
  also have "\<dots> = unat a mod 4096"
    by (simp add: unsigned_ucast_eq take_bit_take_bit) (simp add: take_bit_eq_mod)
  also have "\<dots> = unat (i32 (int (unat a mod 4096)))"
    by (simp only: of_nat_i32 [symmetric]) (simp add: unat_of_nat32 less_trans [of _ 4096])
  finally show "unat ((ucast a :: u32) AND i32 4095) = unat (i32 (int (unat a mod 4096)))" .
qed

text \<open>The distance to the next page boundary but for a header, with 32 instead of 64 bits.\<close>

lemma rs_gap:
  fixes a :: u64
  shows "do { rest \<leftarrow> i32_sub chk PAGE_SIZE OVERHEAD; mask \<leftarrow> i32_sub chk PAGE_SIZE 1;
       n \<leftarrow> i32_sub chk rest (ucast a AND mask);
       if n <s 0 then i32_add chk n PAGE_SIZE else Some n }
     = Some (i32 (int (boot_gap 4096 (unat a))))"
proof -
  define r where "r = int (unat a mod 4096)"
  have r: "0 \<le> r" "r < 4096" unfolding r_def by simp_all
  have gap: "int (boot_gap 4096 (unat a)) = (if r \<le> 4088 then 4088 - r else 8184 - r)"
    using r unfolding r_def by (auto simp: boot_gap_def)
  have rng: "in_i32 4096" "in_i32 8" "in_i32 1" "in_i32 4088" "in_i32 r" "in_i32 (4088 - r)" "in_i32 0"
      "in_i32 (4096 - 1)" "in_i32 (4096 - 8)" "in_i32 (4088 - r + 4096)"
    using r by (simp_all add: in_i32_def)
  have c: "i32_sub chk PAGE_SIZE OVERHEAD = Some (i32 4088)" "i32_sub chk PAGE_SIZE 1 = Some (i32 4095)"
    using i32_sub_eq [OF rng(1,2,9), of chk] i32_sub_eq [OF rng(1,3,8), of chk]
    by (simp_all add: PAGE_SIZE_i32 OVERHEAD_i32)
  have m: "(ucast a :: u32) AND 4095 = i32 r"
    using low_bits [of a] unfolding r_def by simp
  have "i32 (4088 - r) <s i32 0 \<longleftrightarrow> 4088 - r < 0" using rng by (intro i32_less)
  moreover have "i32_add chk (i32 (4088 - r)) PAGE_SIZE = Some (i32 (8184 - r))"
    using i32_add_eq [OF rng(6,1,10), of chk] unfolding PAGE_SIZE_i32 by (simp add: algebra_simps)
  moreover have "i32_sub chk (i32 4088) (i32 r) = Some (i32 (4088 - r))"
    by (rule i32_sub_eq [OF rng(4,5,6)])
  ultimately show ?thesis
    unfolding gap using r by (simp add: c m)
qed

text \<open>The first call: the same state as that of the original, when the move of the break is granted.\<close>

lemma rs_setup_start:
  assumes ok: "os_ok os" and pg: "page_size os = 4096"
    and start: "kmalloc_setup os (kinit h) = Some (True, s)"
  shows "rs_setup chk os (rs_init h) = Some (True, s)"
proof -
  let ?N = "boot_gap 4096 (unat (brk h))"
  have N: "?N < 4096" by (rule boot_gap_aligns) simp
  have zero: "fst (sbrk os 0 h) = brk h" by (simp add: sbrk_def)
  have pos: "i32 0 <s i32 (int ?N) \<longleftrightarrow> ?N \<noteq> 0"
    using N by (subst i32_less) (simp_all add: in_i32_def)
  have long: "int_to_long (i32 (int ?N)) = of_nat ?N"
    using N by (subst i32_to_long) (simp_all add: in_i32_def)
  have page: "unat (page_size os) = 4096" using pg by simp
  have loop: "page_loop 4096 8 0 = Some 9" using page_loop_returns [of 4096 12 8 3 0] by simp
  obtain r h' where rh: "(if ?N \<noteq> 0 then sbrk os (of_nat ?N) h else (0, h)) = (r, h')"
    by (cases "if ?N \<noteq> 0 then sbrk os (of_nat ?N) h else (0, h)")
  have s: "r \<noteq> - 1" "s = (kinit h)\<lparr>pagesz := 4096, hp := h', pagebucket := 9\<rparr>"
    using start unfolding setup_eq [OF ok] page rh by (auto simp: Let_def pg loop split: if_splits)
  have "rs_setup chk os (rs_init h) =
      do { n \<leftarrow> Some (i32 (int ?N));
           let (interm, h') = (if 0 <s n then sbrk os (int_to_long n) h else (0, h));
           let s = (rs_init h)\<lparr>pagesz := PAGE_SIZE, hp := h'\<rparr>;
           if interm = - 1 then Some (False, s)
           else do { bucket \<leftarrow> rs_page_loop chk (pagesz s) 8 0;
                     Some (True, s\<lparr>pagebucket := bucket\<rparr>) } }"
    unfolding rs_gap [of chk "brk h", symmetric]
    by (simp add: rs_setup_def rs_init_def zero Let_def cong: if_cong)
  also have "\<dots> = Some (True, s)"
    using pos s rh
    by (cases "?N = 0") (simp_all add: long [unfolded of_int_of_nat_eq] rs_page_loop_4096 PAGE_SIZE_def
        rs_init_def kinit_def REALLOC_SRCHLEN_def)
  finally show ?thesis .
qed

lemma rs_setup_booted: "pagesz s \<noteq> 0 \<Longrightarrow> rs_setup chk os s = Some (True, s)"
  by (simp add: rs_setup_def)

section \<open>The size computation\<close>

text \<open>One turn of the loop while \<open>amt\<close> has its sign bit clear.\<close>

lemma rs_size_loop_turn:
  assumes "c \<le> 27" and "N = - 8 \<or> N = 4088"
  defines "amt \<equiv> of_nat (2 ^ (c + 3)) :: u32"
  shows "rs_size_loop chk nbytes (i32 N) amt bucket =
    (if nbytes > uint_to_long amt + word_of_int N
     then Option.bind (i32_add chk bucket 1) (rs_size_loop chk nbytes (i32 N) (push_bit 1 amt))
     else Some (Some bucket))"
    and "push_bit 1 amt = of_nat (2 ^ (Suc c + 3))" and "push_bit 1 amt \<noteq> 0"
    and "unat (uint_to_long amt + word_of_int N) = nat (2 ^ (c + 3) + N)"
proof -
  have pw: "(2::int) ^ (c + 3) \<le> 2 ^ 30" "(2::nat) ^ (c + 3) \<le> 2 ^ 30" "(0::int) < 2 ^ (c + 3)"
      "(8::int) \<le> 2 ^ (c + 3)"
    using assms(1) power_increasing [of "c + 3" 30 "2::int"] power_increasing [of "c + 3" 30 "2::nat"]
      power_increasing [of 3 "c + 3" "2::int"] by simp_all
  have Nb: "- 8 \<le> N" "N \<le> 4088" using assms(2) by auto
  have rng: "in_i32 (2 ^ (c + 3))" "in_i32 N" "in_i32 (2 ^ (c + 3) + N)"
    using pw Nb by (simp_all add: in_i32_def)
  have amt: "amt = i32 (2 ^ (c + 3))" by (simp add: amt_def)
  have long: "uint_to_long amt = word_of_int (2 ^ (c + 3))"
  proof (rule unat_eqI)
    have "unat (uint_to_long amt) = 2 ^ (c + 3)"
      using pw(2) unfolding unat_uint_to_long amt_def by (subst unat_of_nat32) simp_all
    moreover have "unat (word_of_int (2 ^ (c + 3)) :: u64) = 2 ^ (c + 3)"
      using pw(2) unat_of_nat64 [of "2 ^ (c + 3)"] by simp
    ultimately show "unat (uint_to_long amt) = unat (word_of_int (2 ^ (c + 3)) :: u64)" by simp
  qed
  then have sum: "uint_to_long amt + word_of_int N = word_of_int (2 ^ (c + 3) + N)" by simp
  have "nat (2 ^ (c + 3) + N) < 2 ^ 64" using pw assms(2) by auto
  then have "unat (of_nat (nat (2 ^ (c + 3) + N)) :: u64) = nat (2 ^ (c + 3) + N)"
    by (rule unat_of_nat64)
  moreover have "0 \<le> 2 ^ (c + 3) + N" using pw assms(2) by linarith
  ultimately show "unat (uint_to_long amt + word_of_int N) = nat (2 ^ (c + 3) + N)"
    unfolding sum by simp
  show dbl: "push_bit 1 amt = of_nat (2 ^ (Suc c + 3))" by (simp add: amt_def power_add)
  have "unat (of_nat (2 ^ (Suc c + 3)) :: u32) = 2 ^ (Suc c + 3)"
    using pw(2) by (subst unat_of_nat32) (simp_all add: power_add)
  then show nz: "push_bit 1 amt \<noteq> 0" unfolding dbl by (metis power_not_zero unat_0 zero_neq_numeral)
  have "i32_add chk amt (i32 N) = Some (i32 (2 ^ (c + 3) + N))"
    unfolding amt by (rule i32_add_eq [OF rng])
  moreover have "int_to_long (i32 (2 ^ (c + 3) + N)) = uint_to_long amt + word_of_int N"
    unfolding sum by (rule i32_to_long [OF rng(3)])
  ultimately show "rs_size_loop chk nbytes (i32 N) amt bucket =
    (if nbytes > uint_to_long amt + word_of_int N
     then Option.bind (i32_add chk bucket 1) (rs_size_loop chk nbytes (i32 N) (push_bit 1 amt))
     else Some (Some bucket))"
    using nz by (subst rs_size_loop.simps) simp
qed

text \<open>The loop agrees with the original for requests that a bucket up to 27 serves.\<close>

lemma rs_size_loop_eq:
  assumes "b \<le> 27" and N: "N = - 8 \<or> N = 4088" and lim: "int (unat nbytes) \<le> 2 ^ 30 + N"
  shows "rs_size_loop chk nbytes (i32 N) (of_nat (2 ^ (b + 3))) (of_nat b) =
    Some (size_loop nbytes (word_of_int N) (of_nat (2 ^ (b + 3))) (of_nat b))"
  using assms(1)
proof (induction "27 - b" arbitrary: b)
  case 0
  then have b: "b = 27" by simp
  note t = rs_size_loop_turn [OF 0(2) N]
  have "unat nbytes \<le> nat (2 ^ 30 + N)" using lim by linarith
  then have "\<not> nbytes > uint_to_long (of_nat (2 ^ (b + 3))) + word_of_int N"
    unfolding word_less_nat_alt t(4) by (simp add: b)
  then show ?case using t(1) by (subst size_loop.simps) simp
next
  case (Suc d)
  note t = rs_size_loop_turn [OF Suc.prems N]
  let ?amt = "of_nat (2 ^ (b + 3)) :: u32"
  have "in_i32 (int b)" "in_i32 1" "in_i32 (int b + 1)" using Suc.prems by (simp_all add: in_i32_def)
  then have b1: "i32_add chk (of_nat b) 1 = Some (of_nat (Suc b))"
    using i32_add_eq [of "int b" 1 chk] by (simp add: add.commute)
  have IH: "rs_size_loop chk nbytes (i32 N) (push_bit 1 ?amt) (of_nat (Suc b)) =
      Some (size_loop nbytes (word_of_int N) (push_bit 1 ?amt) (of_nat (Suc b)))"
    unfolding t(2) using Suc by (intro Suc.hyps(1)) simp_all
  have "size_loop nbytes (word_of_int N) ?amt (of_nat b) =
      (if nbytes > uint_to_long ?amt + word_of_int N
       then size_loop nbytes (word_of_int N) (push_bit 1 ?amt) (of_nat (Suc b)) else Some (of_nat b))"
    using t(3) by (subst size_loop.simps) (simp add: Let_def add.commute)
  then show ?case unfolding t(1) b1
    by (cases "nbytes > uint_to_long ?amt + word_of_int N")
      (simp_all only: IH bind.bind_lunit if_True if_False)
qed

text \<open>The largest request that is not for bucket 28.\<close>

definition rs_limit :: nat where
  "rs_limit = 2 ^ 30 + 4088"

lemma rs_bucket_eq:
  assumes "pagesz s = 4096" and "pagebucket s = 9" and "unat nbytes \<le> rs_limit"
  shows "rs_bucket chk s nbytes = Some (kmalloc_bucket s nbytes)"
proof -
  have n: "i32_sub chk (pagesz s) OVERHEAD = Some (i32 4088)"
    using i32_sub_eq [of 4096 8 chk] assms(1) by (simp add: in_i32_def OVERHEAD_i32)
  have long: "int_to_long (i32 4088) = 4088" by (subst i32_to_long) (simp_all add: in_i32_def)
  have c: "int_to_long (pagesz s) - sizeof_overhead - RSLOP = 4088"
    using assms(1) by (simp add: sizeof_overhead_def RSLOP_def)
  show ?thesis
  proof (cases "nbytes \<le> 4088")
    case True
    then have "unat nbytes \<le> 4088" by (simp add: word_le_nat_alt)
    then have "int (unat nbytes) \<le> int 4088" by (simp only: of_nat_le_iff)
    then have "int (unat nbytes) \<le> 2 ^ 30 + - 8" by (rule order_trans) simp
    from rs_size_loop_eq [of 0 "- 8", OF _ _ this, of chk] True show ?thesis
      unfolding rs_bucket_def n kmalloc_bucket_def Let_def c
      by (simp add: OVERHEAD_def long sizeof_overhead_def RSLOP_def)
  next
    case False
    have "int (unat nbytes) \<le> int rs_limit" using assms(3) by (simp only: of_nat_le_iff)
    then have "int (unat nbytes) \<le> 2 ^ 30 + 4088" by (rule order_trans) (simp add: rs_limit_def)
    from rs_size_loop_eq [of 9 4088, OF _ _ this, of chk] False show ?thesis
      unfolding rs_bucket_def n kmalloc_bucket_def Let_def c
      by (simp add: long assms(1,2))
  qed
qed

end
