(* ===== verification/Kmalloc_Rust_Heap.thy ===== *)
theory Kmalloc_Rust_Heap
  imports Kmalloc_Rust_Arith Kmalloc_Client
begin

text \<open>
  The operations of the Rust port that touch memory. On a heap below \<open>2 ^ 31\<close>, where cutting an
  address to 32 bits loses nothing, they are those of the C original for requests up to
  \<open>rs_limit\<close>; so the port is an allocator there.
\<close>

section \<open>Low heaps\<close>

definition low_os :: "os \<Rightarrow> bool" where
  "low_os os \<longleftrightarrow> page_size os = 4096 \<and> (\<forall>i b n. grants os i b n \<longrightarrow> unat b + unat n \<le> 2 ^ 31)"

lemma low_os_ok: "low_os os \<Longrightarrow> os_ok os"
  unfolding low_os_def os_ok_def by (fastforce intro!: exI [of _ 12])

lemma in_i32_nat:
  assumes "n < 2 ^ 31"
  shows "in_i32 (int n)"
proof -
  have "int n < int (2 ^ 31)" using assms by (simp only: of_nat_less_iff)
  then show ?thesis by (simp add: in_i32_def)
qed

lemma next_block:
  fixes op :: u64
  assumes "unat op + sz < 2 ^ 31"
  shows "i32_add chk (ucast op) (of_nat sz) = Some (i32 (int (unat op + sz)))"
    and "int_to_long (i32 (int (unat op + sz))) = op + of_nat sz"
proof -
  have rng: "in_i32 (int (unat op))" "in_i32 (int sz)" "in_i32 (int (unat op) + int sz)"
    using assms in_i32_nat [of "unat op"] in_i32_nat [of sz] in_i32_nat [of "unat op + sz"]
    by (simp_all only: of_nat_add)
  have "i32 (int (unat op)) = of_nat (unat op)" by (rule of_nat_i32 [symmetric])
  then have "(ucast op :: u32) = i32 (int (unat op))" by (simp only: of_nat_unat)
  then show "i32_add chk (ucast op) (of_nat sz) = Some (i32 (int (unat op + sz)))"
    using i32_add_eq [OF rng, of chk] by simp
  have "int_to_long (i32 (int (unat op + sz))) = word_of_int (int (unat op + sz))"
    using rng(3) by (intro i32_to_long) simp
  then show "int_to_long (i32 (int (unat op + sz))) = op + of_nat sz" by simp
qed

lemma rs_carve_eq:
  assumes "0 < n" and "n < 2 ^ 31" and "unat op + n * sz \<le> 2 ^ 31" and "0 < sz"
  shows "rs_carve chk op (of_nat sz) (of_nat n - 1) s = carve op (of_nat sz) (of_nat n) s"
  using assms(1-3)
proof (induction "n - 1" arbitrary: n op s)
  case 0
  then have "n = 1" by simp
  then show ?case by (subst rs_carve.simps, subst carve.simps) simp
next
  case (Suc k)
  then have n: "n = Suc (Suc k)" by simp
  have m: "of_nat n - 1 = (of_nat (Suc k) :: u32)" unfolding n by simp
  have pos: "0 <s (of_nat (Suc k) :: u32)"
    using Suc.prems(2) n by (subst sless_unat32) (simp_all add: unat_of_nat32 del: of_nat_Suc)
  have "unat op + (sz + Suc k * sz) \<le> 2 ^ 31" using Suc.prems(3) n by simp
  then have lt: "unat op + sz < 2 ^ 31" using assms(4) by simp
  note nb = next_block [OF lt]
  have at: "unat (op + of_nat sz) = unat op + sz" using lt by (intro unat_offset) simp
  have IH: "rs_carve chk (op + of_nat sz) (of_nat sz) (of_nat (Suc k) - 1) s' =
      carve (op + of_nat sz) (of_nat sz) (of_nat (Suc k)) s'" for s'
    using Suc.prems n at by (intro Suc.hyps(1)) simp_all
  then have IH: "rs_carve chk (op + of_nat sz) (of_nat sz) (of_nat (Suc k) - 1) =
      carve (op + of_nat sz) (of_nat sz) (of_nat (Suc k))" by (rule ext)
  have "rs_carve chk op (of_nat sz) (of_nat (Suc k)) s =
      Option.bind (set_ov_next op (op + of_nat sz) s)
        (rs_carve chk (op + of_nat sz) (of_nat sz) (of_nat (Suc k) - 1))"
    by (subst rs_carve.simps) (simp only: pos nb if_True bind.bind_lunit)
  moreover have "carve op (of_nat sz) (of_nat n) s =
      Option.bind (set_ov_next op (op + of_nat sz) s) (carve (op + of_nat sz) (of_nat sz) (of_nat (Suc k)))"
    by (subst carve.simps) (simp only: m pos Let_def if_True)
  ultimately show ?case unfolding m by (simp only: IH)
qed

lemma of_nat_word_of_int: "(of_nat n :: 'a::len word) = word_of_int (int n)"
  by simp

text \<open>What \<open>rs_morecore\<close> computes for a bucket: as the original, all within an \<open>i32\<close>.\<close>

lemma rs_block_size:
  assumes "b < 28"
  shows "Option.bind (i32_add chk (of_nat b) 3) (shl1 chk) = Some (of_nat (2 ^ (b + 3)))"
    and "in_i32 (2 ^ (b + 3))"
proof -
  have "in_i32 (int b)" "in_i32 3" "in_i32 (int b + 3)" using assms by (simp_all add: in_i32_def)
  then have "i32_add chk (of_nat b) 3 = Some (of_nat (b + 3))"
    using i32_add_eq [of "int b" 3 chk] by simp
  moreover have "unat (of_nat (b + 3) :: u32) = b + 3" using assms by (intro unat_of_nat32) simp
  then have "shl1 chk (of_nat (b + 3)) = Some (of_nat (2 ^ (b + 3)))"
    using assms by (simp add: shl1_def guarded_def push_bit_eq_mult del: of_nat_add)
  ultimately show "Option.bind (i32_add chk (of_nat b) 3) (shl1 chk) = Some (of_nat (2 ^ (b + 3)))"
    by simp
  have "(2::nat) ^ (b + 3) \<le> 2 ^ 30" using assms by (intro power_increasing) simp_all
  then have "in_i32 (int (2 ^ (b + 3)))" by (intro in_i32_nat) simp
  then show "in_i32 (2 ^ (b + 3))" by simp
qed

lemma rs_morecore_sizes:
  assumes "b < 28"
  defines "sz \<equiv> of_nat (2 ^ (b + 3)) :: u32"
  shows "(if sz <s 4096 then do { nblks \<leftarrow> i32_div 4096 sz; Some (4096, nblks) }
          else do { amt \<leftarrow> i32_add chk sz 4096; Some (amt, 1) }) =
    Some (of_nat (amount 4096 b), of_nat (nblks_of 4096 b))"
    and "int_to_long (of_nat (amount 4096 b) :: u32) = of_nat (amount 4096 b)"
proof -
  have le: "(2::nat) ^ (b + 3) \<le> 2 ^ 30" using assms(1) by (intro power_increasing) simp_all
  have sz: "sz = i32 (2 ^ (b + 3))" by (simp add: sz_def)
  note r = rs_block_size(2) [OF assms(1)]
  have p: "in_i32 4096" "in_i32 (2 ^ (b + 3) + 4096)"
    using le in_i32_nat [of 4096] in_i32_nat [of "2 ^ (b + 3) + 4096"] by simp_all
  have "(2::int) ^ (b + 3) < 4096 \<longleftrightarrow> int (2 ^ (b + 3)) < int 4096" by simp
  then have "(2::int) ^ (b + 3) < 4096 \<longleftrightarrow> (2::nat) ^ (b + 3) < 4096" by (simp only: of_nat_less_iff)
  then have less: "sz <s 4096 \<longleftrightarrow> (2::nat) ^ (b + 3) < 4096"
    unfolding sz using i32_less [OF r p(1)] by simp
  have "i32_add chk sz 4096 = Some (of_nat (2 ^ (b + 3) + 4096))"
    unfolding sz using i32_add_eq [OF r p, of chk] by simp
  moreover have "i32_div 4096 sz = Some (of_nat (4096 div 2 ^ (b + 3)))" if "(2::nat) ^ (b + 3) < 4096"
  proof -
    have nz: "sz \<noteq> 0"
    proof -
      have "unat sz = 2 ^ (b + 3)" using le unfolding sz_def by (subst unat_of_nat32) simp_all
      then show ?thesis by auto
    qed
    have "sint (4096 :: u32) sdiv sint sz = int (4096 div 2 ^ (b + 3))"
      unfolding sz sint_i32 [OF r] by (simp add: signed_divide_int_def zdiv_int)
    moreover have "4096 div 2 ^ (b + 3) < (2 ^ 31 :: nat)"
      by (rule le_less_trans [OF div_le_dividend]) simp
    then have "in_i32 (int (4096 div 2 ^ (b + 3)))" by (rule in_i32_nat)
    ultimately show ?thesis using nz by (simp add: i32_div_def)
  qed
  ultimately show "(if sz <s 4096 then do { nblks \<leftarrow> i32_div 4096 sz; Some (4096, nblks) }
          else do { amt \<leftarrow> i32_add chk sz 4096; Some (amt, 1) }) =
    Some (of_nat (amount 4096 b), of_nat (nblks_of 4096 b))"
    unfolding less by (simp add: amount_def nblks_of_def)
  have "amount 4096 b \<le> 2 ^ 30 + 4096" using le by (simp add: amount_def)
  then show "int_to_long (of_nat (amount 4096 b) :: u32) = of_nat (amount 4096 b)"
    by (subst int_to_long_of_nat) (simp_all add: unat_of_nat32)
qed

section \<open>The operations\<close>

lemma booted_4096:
  assumes "booted os s" and "page_size os = 4096"
  shows "pagesz s = 4096" and "pagebucket s = 9" and "paged os s"
proof -
  show "paged os s" using assms(1) by (simp add: booted_def)
  then show pg: "pagesz s = 4096" using assms(2) by (simp add: paged_def)
  obtain k where "(4096 :: nat) = 2 ^ k" "pagebucket s = of_nat (k - 3)"
    using assms(1) pg by (auto simp: booted_def)
  moreover have "k = 12" using calculation(1) power_inject_exp [of "2::nat" 12 k] by simp
  ultimately show "pagebucket s = 9" by simp
qed

lemma rs_morecore_split:
  assumes pg: "pagesz s = 4096" and b: "b < 28"
  shows "rs_morecore chk os (of_nat b) s =
    (let (op, h) = sbrk os (of_nat (amount 4096 b)) (hp s); s1 = s\<lparr>hp := h\<rparr>
     in if op = - 1 then Some s1
        else do { s2 \<leftarrow> set_nextf b op s1; n \<leftarrow> i32_sub chk (of_nat (nblks_of 4096 b)) 1;
                  rs_carve chk op (of_nat (2 ^ (b + 3))) n s2 })"
proof -
  have ix: "index (of_nat b) = b" using b by (simp add: index_of_nat)
  have "rs_morecore chk os (of_nat b) s =
      Option.bind (Option.bind (i32_add chk (of_nat b) 3) (shl1 chk)) (\<lambda>sz.
      Option.bind (if sz <s 4096 then do { nblks \<leftarrow> i32_div 4096 sz; Some (4096, nblks) }
          else do { amt \<leftarrow> i32_add chk sz 4096; Some (amt, 1) }) (\<lambda>(amt, nblks).
      let (op, h) = sbrk os (int_to_long amt) (hp s); s1 = s\<lparr>hp := h\<rparr>
      in if op = - 1 then Some s1
         else do { s2 \<leftarrow> set_nextf b op s1; nblks \<leftarrow> i32_sub chk nblks 1; rs_carve chk op sz nblks s2 }))"
    unfolding rs_morecore_def kassert_def DEBUG_def pg ix by simp
  then show ?thesis
    by (simp only: rs_block_size(1) [OF b] rs_morecore_sizes [OF b] bind.bind_lunit prod.case)
qed

lemma rs_morecore_eq:
  assumes low: "low_os os" and bt: "paged os s" and b: "b < 28"
  shows "rs_morecore chk os (of_nat b) s = morecore os (of_nat b) s"
proof -
  have pg: "pagesz s = 4096" using bt low by (simp add: paged_def low_os_def)
  then have u: "unat (pagesz s) = 4096" by simp
  let ?A = "amount 4096 b" and ?n = "nblks_of 4096 b"
  obtain m where m: "?n = Suc m" using nblks_pos [of 4096 12 b] by auto
  have fill: "?n * 2 ^ (b + 3) \<le> ?A" using nblks_fill(1) [of 4096 12 b] by (simp add: amount_def)
  have "(2::nat) ^ (b + 3) \<le> 2 ^ 30" using b by (intro power_increasing) simp_all
  then have A: "0 < ?A" "?A \<le> 2 ^ 30 + 4096" by (simp_all add: amount_def)
  have "?n \<le> 4096" by (simp add: nblks_of_def)
  then have nb: "i32_sub chk (of_nat ?n) 1 = Some (of_nat ?n - 1)"
    using i32_sub_eq [of "int ?n" 1 chk] m by (simp add: in_i32_def)
  have carve: "rs_carve chk op (of_nat (2 ^ (b + 3))) (of_nat ?n - 1) =
      carve op (of_nat (2 ^ (b + 3))) (of_nat ?n)"
    if "sbrk os (of_nat ?A) (hp s) = (op, h)" "op \<noteq> - 1" for op h
  proof (rule ext)
    fix s'

    have "unat (of_nat ?A :: u64) = ?A" using A by (intro unat_of_nat64) simp
    moreover have "grants os (calls (hp s)) (brk (hp s)) (of_nat ?A)" "op = brk (hp s)"
      using that A by (auto simp: sbrk_def of_nat_u64_0 split: if_splits)
    ultimately have "unat op + ?A \<le> 2 ^ 31" using low unfolding low_os_def by metis
    then show "rs_carve chk op (of_nat (2 ^ (b + 3))) (of_nat ?n - 1) s' =
        carve op (of_nat (2 ^ (b + 3))) (of_nat ?n) s'"
      using fill m \<open>?n \<le> 4096\<close> by (intro rs_carve_eq) simp_all
  qed
  show ?thesis
    unfolding rs_morecore_split [OF pg b] morecore_eq [OF bt b] u nb
    using carve by (auto simp: Let_def split: prod.split)
qed

lemma header_no_overflow:
  assumes "ov_next s op = Some nx"
  shows "usize_add chk op (uint_to_long OVERHEAD) = Some (op + sizeof_overhead)"
proof -
  have "unat op + 8 \<le> unat (brk (hp s))"
    using assms by (simp add: ov_next_def rd64_def mapped_def split: if_splits)
  then have "unat op + 8 < 2 ^ 64" using unat_lt64 [of "brk (hp s)"] by simp
  then show ?thesis by (simp add: usize_add_def guarded_def OVERHEAD_def sizeof_overhead_def)
qed

lemma rs_take_eq:
  assumes "low_os os" and "paged os s" and "b < 28"
  shows "rs_take chk os (of_nat b) s = kmalloc_take os (of_nat b) s"
proof -
  have ix: "index (of_nat b) = b" "unat (of_nat b :: u32) = b"
    using assms(3) by (simp_all add: index_of_nat unat_of_nat32)
  show ?thesis
    unfolding rs_take_def kmalloc_take_def ix rs_morecore_eq [OF assms]
    by (auto simp: header_no_overflow intro!: Option.bind_cong [OF refl])
qed

text \<open>Requests up to \<open>rs_limit\<close> are for buckets up to 27.\<close>

lemma rs_limit_bucket:
  assumes "n \<le> rs_limit"
  shows "\<exists>b<28. bucket_for 4096 n = Some b"
proof -
  have "n \<le> capacity 4096 27" using assms by (simp add: rs_limit_def capacity_def extent_def)
  moreover have "bucket_for 4096 n \<noteq> None"
    using calculation by (auto simp: bucket_for_None not_less intro!: exI [of _ 27])
  then obtain b where b: "bucket_for 4096 n = Some b" by blast
  moreover have "b < 28"
  proof (rule ccontr)
    assume "\<not> b < 28"
    then show False using b calculation(1) by (auto simp: bucket_for_Some dest!: spec [of _ 27])
  qed
  ultimately show ?thesis by blast
qed

lemma rs_kmalloc_eq:
  assumes low: "low_os os" and bt: "booted os s" and n: "unat n \<le> rs_limit"
  shows "rs_kmalloc chk os n s = kmalloc os n s"
proof -
  have "page_size os = 4096" using low by (simp add: low_os_def)
  note pg = booted_4096 [OF bt this]
  obtain b where b: "b < 28" "bucket_for 4096 (unat n) = Some b"
    using rs_limit_bucket [OF n] by blast
  have "kmalloc_bucket s n = Some (of_nat b)"
    using kmalloc_bucket_eq [OF bt, of n] b(2) pg(1) by simp
  then show ?thesis
    using rs_bucket_eq [OF pg(1,2) n, of chk] rs_take_eq [OF low pg(3) b(1), of chk]
      kmalloc_setup_booted [OF bt] rs_setup_booted [of s chk os] pg(1)
    by (simp add: rs_kmalloc_def kmalloc_def)
qed

lemma rs_kmalloc_start:
  assumes low: "low_os os" and "start_ok h" and "boots os h" and n: "unat n \<le> rs_limit"
  shows "rs_kmalloc chk os n (rs_init h) = kmalloc os n (kinit h)"
proof -
  note ok = low_os_ok [OF low]
  obtain s where s: "kmalloc_setup os (kinit h) = Some (True, s)" "booted os s"
    using setup_granted [OF ok assms(2,3)] by blast
  have pg: "page_size os = 4096" using low by (simp add: low_os_def)
  have nz: "pagesz s \<noteq> 0" using s(2) pg by (auto simp: booted_def paged_def)
  have "rs_kmalloc chk os n (rs_init h) = rs_kmalloc chk os n s"
    using rs_setup_start [OF ok pg s(1), of chk] rs_setup_booted [OF nz, of chk os]
    by (simp add: rs_kmalloc_def)
  also have "\<dots> = kmalloc os n s" by (rule rs_kmalloc_eq [OF low s(2) n])
  also have "\<dots> = kmalloc os n (kinit h)" by (rule first_kmalloc [OF s(1,2), symmetric])
  finally show ?thesis .
qed

lemma rs_header:
  assumes wf: "kwf os g s" and b: "blk g op = Some b"
  shows "usize_sub chk (op + sizeof_overhead) (uint_to_long OVERHEAD) = Some op"
proof -
  have "unat op + 8 \<le> 2 ^ 47"
    using wf_block(5) [OF wf b] extent_ge_8 [of "unat (pagesz s)" b] by linarith
  then have "unat (op + sizeof_overhead) = unat op + 8"
    using unat_offset [of op 8] by (simp add: sizeof_overhead_def)
  then show ?thesis
    unfolding OVERHEAD_long by (simp add: usize_sub_def guarded_def sizeof_overhead_def)
qed

text \<open>Without its check of the magic number \<open>kfree\<close> is that of the original on blocks in use.\<close>

lemma rs_kfree_eq:
  assumes wf: "kwf os g s" and op: "op \<in> used g"
  shows "rs_kfree chk (op + sizeof_overhead) s = kfree (op + sizeof_overhead) s"
proof -
  obtain b where b: "blk g op = Some b" "bytes (hp s) op = MAGIC"
    using wf_used_header [OF wf op] by metis
  note rs_header [OF wf b(1), of chk]
  moreover have "ov_magic s op = Some MAGIC"
    using b(2) wf_header_mapped(2) [OF wf b(1)] by (simp add: ov_magic_def rd8_def)
  ultimately show ?thesis
    by (simp add: rs_kfree_def kfree_def kassert_def DEBUG_def Let_def)
qed

section \<open>The port as an allocator\<close>

text \<open>
  Clients whose requests fit 30 bits, which is below \<open>rs_limit\<close>: from the start the states are
  those of the original.
\<close>

definition rs_alloc :: "bool \<Rightarrow> os \<Rightarrow> 30 word \<Rightarrow> kstate \<Rightarrow> (u64 \<times> kstate) option" where
  "rs_alloc chk os r s = rs_kmalloc chk os (ucast r) s"

definition rs_valid :: "os \<Rightarrow> (u64 \<Rightarrow> nat option) \<Rightarrow> kstate \<Rightarrow> bool" where
  "rs_valid os L s \<longleftrightarrow> low_os os \<and>
     ((\<exists>g. kwf os g s \<and> booted os s \<and> hosts g (unat (pagesz s)) L) \<or>
      (\<exists>h. s = rs_init h \<and> start_ok h \<and> boots os h \<and> L = (\<lambda>_. None)))"

lemma unat_request: "unat (ucast (r :: 30 word) :: u64) = unat r"
  and request_limit: "unat (ucast (r :: 30 word) :: u64) \<le> rs_limit"
proof -
  have r: "unat r < 2 ^ 30" using unsigned_less [of r] by simp
  then have "unat r < 2 ^ 64" by simp
  then show "unat (ucast r :: u64) = unat r"
    by (simp add: unsigned_ucast_eq take_bit_nat_eq_self)
  then show "unat (ucast r :: u64) \<le> rs_limit" using r by (simp add: rs_limit_def)
qed

text \<open>A valid state of the port is one of the original, but for the start.\<close>

lemma rs_valid_cases:
  assumes "rs_valid os L s"
  obtains s0 where "low_os os" and "kvalid os L s0" and "s = s0 \<or> L = (\<lambda>_. None)"
    and "\<And>chk r. rs_alloc chk os r s = kmalloc os (ucast r) s0"
    and "\<And>a. kpeek s a = kpeek s0 a"
proof -
  have low: "low_os os" using assms by (simp add: rs_valid_def)
  consider (run) g where "kwf os g s" "booted os s" "hosts g (unat (pagesz s)) L"
    | (start) h where "s = rs_init h" "start_ok h" "boots os h" "L = (\<lambda>_. None)"
    using assms by (auto simp: rs_valid_def)
  then show ?thesis
  proof cases
    case run
    then have "kvalid os L s" using low_os_ok [OF low] by (auto simp: kvalid_def)
    moreover have "rs_alloc chk os r s = kmalloc os (ucast r) s" for chk r
      unfolding rs_alloc_def by (rule rs_kmalloc_eq [OF low run(2) request_limit])
    ultimately show ?thesis using low by (intro that) simp_all
  next
    case start
    then have "kvalid os L (kinit h)" using low_os_ok [OF low] by (auto simp: kvalid_def)
    moreover have "rs_alloc chk os r s = kmalloc os (ucast r) (kinit h)" for chk r
      unfolding rs_alloc_def start(1) by (rule rs_kmalloc_start [OF low start(2,3) request_limit])
    moreover have "kpeek s a = kpeek (kinit h) a" for a
      unfolding start(1) by (simp add: kpeek_def rs_init_def kinit_def)
    ultimately show ?thesis using low start(4) by (intro that) simp_all
  qed
qed

lemma rs_valid_kmalloc:
  assumes low: "low_os os" and v: "kvalid os L s" and s': "kmalloc os r s = Some (p, s')"
  shows "rs_valid os (if p = 0 then L else L(p \<mapsto> unat r)) s'"
proof -
  consider (run) g where "kwf os g s" "booted os s" "hosts g (unat (pagesz s)) L"
    | (start) h where "s = kinit h" "start_ok h" "boots os h" "L = (\<lambda>_. None)"
    using v by (auto simp: kvalid_def)
  then obtain t g where t: "kmalloc os r t = Some (p, s')" "kwf os g t" "booted os t"
      "hosts g (unat (pagesz t)) L"
  proof cases
    case run
    then show ?thesis using s' that by blast
  next
    case start
    obtain s1 where "kmalloc_setup os s = Some (True, s1)" "kwf os ghost0 s1" "booted os s1"
      using setup_granted [OF low_os_ok [OF low] start(2,3)] start(1) by blast
    then show ?thesis using first_kmalloc [of os s s1 r] s' hosts_none start(4) by (metis that)
  qed
  obtain g' where g': "kwf os g' s'" "blk g \<subseteq>\<^sub>m blk g'" "writes_header (p - sizeof_overhead) t s'"
      "if p = 0 then used g' = used g else allocates (unat (pagesz t)) (unat r) g p g'"
    using kmalloc_wf [OF t(2,3) low_os_ok [OF low], of r] t(1) by auto
  have vars: "same_vars t s'" using g'(3) by (simp add: writes_header_def)
  then have "hosts g' (unat (pagesz s')) (if p = 0 then L else L(p \<mapsto> unat r))"
    using hosts_same [OF t(4)] hosts_alloc(1) [OF t(4)] g'(2,4) by (auto simp: same_vars_def)
  then show ?thesis using low g'(1) booted_same [OF t(3) vars] by (auto simp: rs_valid_def)
qed

lemma rs_valid_alloc:
  assumes "rs_valid os L s" and "rs_alloc chk os r s = Some (p, s')"
  shows "L p = None \<and> rs_valid os (if p = 0 then L else L(p \<mapsto> unat r)) s' \<and>
    (\<forall>q n i. L q = Some n \<longrightarrow> i < n \<longrightarrow> kpeek s' (q + of_nat i) = kpeek s (q + of_nat i))"
proof -
  obtain s0 where s0: "low_os os" "kvalid os L s0"
      "rs_alloc chk os r s = kmalloc os (ucast r) s0" "\<And>a. kpeek s a = kpeek s0 a"
    using assms(1) by (rule rs_valid_cases) blast
  have k: "kmalloc os (ucast r) s0 = Some (p, s')" using assms(2) s0(3) by simp
  show ?thesis
    using kvalid_alloc_law [OF s0(2) k] rs_valid_kmalloc [OF s0(1,2) k]
    unfolding s0(4) unat_request by blast
qed

lemma rs_valid_total: "rs_valid os L s \<Longrightarrow> rs_alloc chk os r s \<noteq> None"
  using kvalid_alloc_total by (metis rs_valid_cases)

lemma rs_valid_object:
  assumes "rs_valid os L s" and "L p = Some n"
  shows "low_os os" and "kvalid os L s"
  using assms low_os_ok by (auto simp: rs_valid_def kvalid_def)

lemma kvalid_rs_valid:
  assumes "low_os os" and "kvalid os L s" and "pagesz s \<noteq> 0"
  shows "rs_valid os L s"
  using assms by (auto simp: rs_valid_def kvalid_def kinit_def)

lemma kvalid_booted: "kvalid os L s \<Longrightarrow> L p = Some n \<Longrightarrow> booted os s"
  by (auto simp: kvalid_def)

lemma booted_page: "booted os s \<Longrightarrow> pagesz s \<noteq> 0"
  by (auto simp: booted_def paged_def)

lemma rs_valid_free:
  assumes "rs_valid os L s" and p: "L p = Some n"
  shows "\<exists>s'. rs_kfree chk p s = Some s' \<and> rs_valid os (L(p := None)) s' \<and>
    (\<forall>q n i. L q = Some n \<longrightarrow> q \<noteq> p \<longrightarrow> i < n \<longrightarrow> kpeek s' (q + of_nat i) = kpeek s (q + of_nat i))"
proof -
  note v = rs_valid_object [OF assms]
  obtain g op where g: "kwf os g s" "p = op + sizeof_overhead" "op \<in> used g"
    using kvalid_run [OF v(2) p] by metis
  have eq: "rs_kfree chk p s = kfree p s" unfolding g(2) by (rule rs_kfree_eq [OF g(1,3)])
  obtain s' where s': "kfree p s = Some s'" "kvalid os (L(p := None)) s'"
      "\<forall>q n i. L q = Some n \<longrightarrow> q \<noteq> p \<longrightarrow> i < n \<longrightarrow> kpeek s' (q + of_nat i) = kpeek s (q + of_nat i)"
    using kvalid_free [OF v(2) p] by blast
  obtain b where "blk g op = Some b" using wf_used_header [OF g(1,3)] by metis
  then have "same_vars s s'" using kfree_used [OF g(1,3)] s'(1) g(2) by auto
  then have "pagesz s' = pagesz s" by (simp add: same_vars_def)
  then have "pagesz s' \<noteq> 0" using booted_page [OF kvalid_booted [OF v(2) p]] by simp
  then show ?thesis using eq s' kvalid_rs_valid [OF v(1) s'(2)] by auto
qed

lemma rs_valid_poke:
  assumes "rs_valid os L s" and p: "L p = Some n" and "i < n"
  shows "\<exists>s'. kpoke (p + of_nat i) v s = Some s' \<and> rs_valid os L s' \<and>
    (\<forall>x. kpeek s' x = (if x = p + of_nat i then v else kpeek s x))"
proof -
  note o = rs_valid_object [OF assms(1,2)]
  obtain s' where s': "kpoke (p + of_nat i) v s = Some s'" "kvalid os L s'"
      "\<forall>x. kpeek s' x = (if x = p + of_nat i then v else kpeek s x)"
    using kvalid_poke [OF o(2) p assms(3)] by blast
  have "pagesz s' = pagesz s" using s'(1) by (auto simp: kpoke_def split: bind_splits)
  then have "pagesz s' \<noteq> 0" using booted_page [OF kvalid_booted [OF o(2) p]] by simp
  then show ?thesis using s' kvalid_rs_valid [OF o(1) s'(2)] by blast
qed

lemma rs_valid_space: "rs_valid os L s \<Longrightarrow> L p = Some n \<Longrightarrow> p \<noteq> 0 \<and> unat p + n \<le> 2 ^ 47"
  using rs_valid_object(2) kvalid_space by blast

lemma rs_valid_disjoint:
  "rs_valid os L s \<Longrightarrow> L p = Some n \<Longrightarrow> L q = Some m \<Longrightarrow> p \<noteq> q \<Longrightarrow>
    unat p + n \<le> unat q \<or> unat q + m \<le> unat p"
  using rs_valid_object(2) kvalid_disjoint by blast

interpretation rust_heap: total_allocator "rs_alloc chk os" "rs_kfree chk" kpoke kpeek unat "rs_valid os"
  for chk os
proof unfold_locales
qed (fact rs_valid_alloc rs_valid_free rs_valid_poke rs_valid_space rs_valid_disjoint rs_valid_total)+

end
