(* ===== verification/Kmalloc_Rust_Program.thy ===== *)
theory Kmalloc_Rust_Program
  imports Kmalloc_Rust_Heap Kmalloc_Program
begin

text \<open>
  \<open>realloc\<close> and \<open>kcalloc\<close> of the Rust port on low heaps: on live objects they are those of the C
  original, so that the port is a whole allocator there, for requests below 1 GB.
\<close>

section \<open>realloc of a block in use\<close>

lemma rs_lookup_used:
  assumes wf: "kwf os g s" and op: "op \<in> used g" "blk g op = Some b"
  shows "rs_lookup chk op s = Some (True, of_nat b)"
proof -
  have b: "b < 28" using wf_block(1) [OF wf op(2)] .
  have "(ucast (of_nat b :: u8) :: u32) = of_nat b"
    using b by (intro unat_eqI) (simp add: unsigned_ucast_eq unsigned_of_nat take_bit_nat_eq_self)
  moreover have "bytes (hp s) op = MAGIC" "bytes (hp s) (op + 1) = of_nat b"
    using wf_used_header [OF wf op(1)] op(2) by auto
  ultimately show ?thesis
    using wf_header_mapped [OF wf op(2)]
    by (simp add: rs_lookup_def ov_magic_def ov_index_def rd8_def)
qed

lemma rs_pow_less:
  assumes "b < 28"
  shows "unat (of_nat (2 ^ (b + 3)) :: u32) = 2 ^ (b + 3)"
proof -
  have "(2::nat) ^ (b + 3) \<le> 2 ^ 30" using assms by (intro power_increasing) simp_all
  then show ?thesis by (subst unat_of_nat32) simp_all
qed

lemma rs_onb_eq:
  assumes pg: "pagesz s = 4096" and b: "b < 28"
  shows "\<exists>x. rs_onb chk (of_nat b) s = Some x \<and> uint_to_long x = of_nat (capacity 4096 b)"
proof -
  let ?x = "of_nat (2 ^ (b + 3)) :: u32"
  have u: "unat ?x = 2 ^ (b + 3)" by (rule rs_pow_less [OF b])
  have le: "(2::nat) ^ (b + 3) \<le> 2 ^ 30" using b by (intro power_increasing) simp_all
  have g8: "8 \<le> (2::nat) ^ (b + 3)" using pow_ge_8 [of b] by simp
  have uO: "unat OVERHEAD = 8" by (simp add: OVERHEAD_def)
  have eq: "rs_onb chk (of_nat b) s =
      (if ?x < 4096 then u32_sub chk ?x OVERHEAD
       else do { d \<leftarrow> u32_sub chk 4096 OVERHEAD; u32_add chk ?x d })"
    unfolding rs_onb_def pg by (simp only: rs_block_size(1) [OF b] bind.bind_lunit flip: bind_assoc)
  have less: "?x < 4096 \<longleftrightarrow> 2 ^ (b + 3) < (4096 :: nat)" using u by (simp add: word_less_nat_alt)
  show ?thesis
  proof (cases "2 ^ (b + 3) < (4096 :: nat)")
    case True
    then have "rs_onb chk (of_nat b) s = Some (?x - OVERHEAD)"
      using eq less u uO g8 by (simp only: u32_sub_def guarded_def) simp
    moreover have "unat (?x - OVERHEAD) = 2 ^ (b + 3) - 8"
      using u uO g8 by (simp only: unat_sub word_le_nat_alt)
    then have "uint_to_long (?x - OVERHEAD) = of_nat (2 ^ (b + 3) - 8)"
      by (metis of_nat_unat ucast_eq)
    ultimately show ?thesis using True by (simp add: capacity_def extent_def)
  next
    case False
    have "u32_sub chk 4096 OVERHEAD = Some 4088" by (simp add: u32_sub_def guarded_def OVERHEAD_def)
    moreover have "unat ?x + unat (4088 :: u32) < 2 ^ 32" using u le by simp
    then have "u32_add chk ?x 4088 = Some (?x + 4088)" "unat (?x + 4088) = 2 ^ (b + 3) + 4088"
      using u by (simp_all add: u32_add_def guarded_def unat_word_ariths)
    ultimately have "rs_onb chk (of_nat b) s = Some (?x + 4088)" "unat (?x + 4088) = 2 ^ (b + 3) + 4088"
      using eq less False by simp_all
    moreover from this have "uint_to_long (?x + 4088) = of_nat (2 ^ (b + 3) + 4088)"
      by (metis of_nat_unat ucast_eq)
    ultimately show ?thesis using False by (simp add: capacity_def extent_def)
  qed
qed

lemma in_i32_near:
  "8 \<le> k \<Longrightarrow> k \<le> 2 ^ 30 \<Longrightarrow> in_i32 k \<and> in_i32 (k + 4088) \<and> in_i32 (k - 8)"
  by (simp add: in_i32_def)

lemma rs_low_eq:
  assumes pg: "pagesz s = 4096" and b: "b < 28"
  shows "\<exists>x. rs_low chk (of_nat b) s = Some x \<and>
    int_to_long x = of_nat (case b of 0 \<Rightarrow> 0 | Suc c \<Rightarrow> capacity 4096 c)"
proof (cases b)
  case 0
  then show ?thesis by (simp add: rs_low_def)
next
  case (Suc c)
  have c: "c < 28" using b Suc by simp
  let ?x = "of_nat (2 ^ (c + 3)) :: u32"
  have le: "(2::nat) ^ (c + 3) \<le> 2 ^ 30" using c by (intro power_increasing) simp_all
  have g8: "8 \<le> (2::nat) ^ (c + 3)" using pow_ge_8 [of c] by simp
  have x: "?x = i32 (int (2 ^ (c + 3)))" by (rule of_nat_i32)
  have pos: "0 <s (of_nat b :: u32)" using b Suc by (subst sless_unat32) (simp_all add: unat_of_nat32 del: of_nat_Suc)
  have "int (2 ^ (c + 3)) \<le> int (2 ^ 30)" "int 8 \<le> int (2 ^ (c + 3))"
    using le g8 by (simp_all only: of_nat_le_iff)
  then have "int (2 ^ (c + 3)) \<le> 2 ^ 30" "8 \<le> int (2 ^ (c + 3))" by simp_all
  then have rng: "in_i32 (int (2 ^ (c + 3)))" "in_i32 4096" "in_i32 8" "in_i32 4088"
      "in_i32 (int (2 ^ (c + 3)) + 4088)" "in_i32 (int (2 ^ (c + 3)) - 8)"
    using in_i32_near [of "int (2 ^ (c + 3))"] by (simp_all only:) (simp_all add: in_i32_def)
  have "in_i32 (int b)" "in_i32 2" "in_i32 (int b + 2)" using b by (simp_all add: in_i32_def)
  then have k2: "i32_add chk (of_nat b) 2 = Some (of_nat (c + 3))"
    using i32_add_eq [of "int b" 2 chk] Suc by simp
  have "in_i32 (int c)" "in_i32 3" "in_i32 (int c + 3)" using c by (simp_all add: in_i32_def)
  then have k3: "i32_add chk (of_nat c) 3 = Some (of_nat (c + 3))"
    using i32_add_eq [of "int c" 3 chk] by simp
  have sh: "shl1 chk (of_nat (c + 3)) = Some ?x" using rs_block_size(1) [OF c, of chk] unfolding k3 by simp
  have eq: "rs_low chk (of_nat b) s =
      (if ?x <s 4096 then i32_sub chk ?x OVERHEAD
       else do { d \<leftarrow> i32_sub chk 4096 OVERHEAD; i32_add chk ?x d })"
    unfolding rs_low_def pg by (simp only: pos k2 sh bind.bind_lunit if_True)
  have "int (2 ^ (c + 3)) < int 4096 \<longleftrightarrow> (2::nat) ^ (c + 3) < 4096" by (simp only: of_nat_less_iff)
  then have less: "?x <s 4096 \<longleftrightarrow> (2::nat) ^ (c + 3) < 4096"
    unfolding x using i32_less [OF rng(1,2)] by simp
  show ?thesis
  proof (cases "(2::nat) ^ (c + 3) < 4096")
    case True
    have "i32_sub chk ?x OVERHEAD = Some (i32 (int (2 ^ (c + 3)) - 8))"
      unfolding x OVERHEAD_i32 by (rule i32_sub_eq [OF rng(1,3,6)])
    moreover have "int_to_long (i32 (int (2 ^ (c + 3)) - 8)) = of_nat (2 ^ (c + 3) - 8)"
      using i32_to_long [OF rng(6)] g8 by (simp add: of_nat_diff)
    ultimately show ?thesis using eq less True Suc by (simp add: capacity_def extent_def)
  next
    case False
    have "i32_sub chk 4096 OVERHEAD = Some (i32 4088)"
      using i32_sub_eq [OF rng(2,3), of chk] rng(4) by (simp add: OVERHEAD_i32)
    moreover have "i32_add chk ?x (i32 4088) = Some (i32 (int (2 ^ (c + 3)) + 4088))"
      unfolding x by (rule i32_add_eq [OF rng(1,4,5)])
    moreover have "int_to_long (i32 (int (2 ^ (c + 3)) + 4088)) = of_nat (2 ^ (c + 3) + 4088)"
      using i32_to_long [OF rng(5)] by simp
    ultimately show ?thesis using eq less False Suc by (simp add: capacity_def extent_def)
  qed
qed

lemma memcpy_apart:
  assumes "unat dst + m \<le> unat src \<or> unat src + m \<le> unat dst" and "m < 2 ^ 64"
  shows "memcpy dst src (of_nat m) h = bcopy src dst (of_nat m) h"
  using assms by (auto simp: memcpy_def unat_of_nat64 simp del: unsigned_of_nat)

lemma memcpy_blocks:
  assumes wf: "kwf os g s" and src: "blk g op = Some b" and dst: "blk g q = Some c" and ne: "op \<noteq> q"
    and pg: "unat (pagesz s) = 4096" and m: "m + 8 \<le> extent 4096 b" "m + 8 \<le> extent 4096 c" "m < 2 ^ 64"
  shows "memcpy (q + sizeof_overhead) (op + sizeof_overhead) (of_nat m) h =
    bcopy (op + sizeof_overhead) (q + sizeof_overhead) (of_nat m) h"
proof (rule memcpy_apart)
  have "unat op + extent 4096 b \<le> unat q \<or> unat q + extent 4096 c \<le> unat op"
    using wf src dst pg ne unfolding kwf_def separate_def by metis
  moreover have "unat (op + sizeof_overhead) = unat op + 8" "unat (q + sizeof_overhead) = unat q + 8"
    using wf_block(5) [OF wf src] wf_block(5) [OF wf dst] pg
      extent_ge_8 [of 4096 b] extent_ge_8 [of 4096 c] unat_offset [of op 8] unat_offset [of q 8]
    by (simp_all add: sizeof_overhead_def)
  ultimately show "unat (q + sizeof_overhead) + m \<le> unat (op + sizeof_overhead) \<or>
      unat (op + sizeof_overhead) + m \<le> unat (q + sizeof_overhead)"
    using m(1,2) by linarith
qed (rule m(3))

text \<open>
  The two versions agree on live blocks: the source and the target of the copy are different
  blocks, so that \<open>memcpy\<close> does.
\<close>

lemma rs_realloc_used:
  assumes low: "low_os os" and wf: "kwf os g s" and bt: "booted os s"
    and op: "op \<in> used g" "blk g op = Some b" and n: "n \<noteq> 0" "unat n \<le> rs_limit"
  shows "rs_realloc chk os (op + sizeof_overhead) n s = krealloc os (op + sizeof_overhead) n s"
proof -
  note ok = low_os_ok [OF low]
  have "page_size os = 4096" using low by (simp add: low_os_def)
  note pg = booted_4096 [OF bt this]
  let ?p = "op + sizeof_overhead" and ?low = "case b of 0 \<Rightarrow> 0 | Suc c \<Rightarrow> capacity 4096 c"
  have b: "b < 28" using wf_block(1) [OF wf op(2)] .
  have up: "unat (pagesz s) = 4096" using pg(1) by simp
  obtain x where x: "rs_onb chk (of_nat b) s = Some x" "uint_to_long x = of_nat (capacity 4096 b)"
    using rs_onb_eq [OF pg(1) b] by blast
  obtain y where y: "rs_low chk (of_nat b) s = Some y" "int_to_long y = of_nat ?low"
    using rs_low_eq [OF pg(1) b] by blast
  have capb: "capacity 4096 c < 2 ^ 31" if "c < 28" for c
    using that by (intro capacity_bound) simp_all
  then have cap: "unat (of_nat (capacity 4096 b) :: u64) = capacity 4096 b"
    using capb [OF b] by (intro unat_of_nat64) simp
  have "?low < 2 ^ 31" using b capb [of "b - 1"] by (cases b) simp_all
  then have lw: "unat (of_nat ?low :: u64) = ?low" by (intro unat_of_nat64) simp
  have n0: "0 < unat n" using n(1) by (simp add: unat_gt_0)
  have keep: "n \<le> of_nat (capacity 4096 b) \<and> n > of_nat ?low \<longleftrightarrow> bucket_for 4096 (unat n) = Some b"
    unfolding word_le_nat_alt word_less_nat_alt cap lw by (rule same_bucket_iff [OF b n0]) simp
  have len: "(if n < of_nat (capacity 4096 b) then n else of_nat (capacity 4096 b)) =
      of_nat (min (unat n) (capacity 4096 b))"
    using cap by (auto simp: word_less_nat_alt min_def)
  have nz: "(?p = 0) = False" "(n = 0) = False" using nonnull_result [OF wf op(2)] n by simp_all
  have eq: "rs_realloc chk os ?p n s =
    (if bucket_for 4096 (unat n) = Some b then Some (?p, s)
     else do {
       s1 \<leftarrow> rs_kfree chk ?p s;
       (res, s2) \<leftarrow> rs_kmalloc chk os n s1;
       if res = 0 then Some (0, s2)
       else if ?p \<noteq> res then do {
         h \<leftarrow> memcpy res ?p (of_nat (min (unat n) (capacity 4096 b))) (hp s2);
         Some (res, s2\<lparr>hp := h\<rparr>)
       } else Some (res, s2) })"
    by (simp only: rs_realloc_def nz rs_header [OF wf op(2)] rs_lookup_used [OF wf op] x y keep len
        bind.bind_lunit prod.case if_True if_False)
  show ?thesis
  proof (cases "bucket_for 4096 (unat n) = Some b")
    case True
    then show ?thesis unfolding eq krealloc_used_eq [OF wf op n(1)] up by simp
  next
    case False
    obtain s1 where s1: "kfree ?p s = Some s1" "kwf os (free_block op g) s1" "same_vars s s1"
      using kfree_used [OF wf op] by metis
    have bt1: "booted os s1" by (rule booted_same [OF bt s1(3)])
    have pg1: "unat (pagesz s1) = 4096" using s1(3) up by (simp add: same_vars_def)
    have fr: "rs_kfree chk ?p s = Some s1" using rs_kfree_eq [OF wf op(1)] s1(1) by simp
    obtain res s2 g2 where s2: "kmalloc os n s1 = Some (res, s2)" "kwf os g2 s2"
        "blk (free_block op g) \<subseteq>\<^sub>m blk g2" "writes_header (res - sizeof_overhead) s1 s2"
        "if res = 0 then used g2 = used (free_block op g)
         else allocates 4096 (unat n) (free_block op g) res g2"
      using kmalloc_wf [OF s1(2) bt1 ok, of n] pg1 by metis
    have al: "rs_kmalloc chk os n s1 = Some (res, s2)" using rs_kmalloc_eq [OF low bt1 n(2)] s2(1) by simp
    let ?m = "min (unat n) (capacity 4096 b)"
    have cp: "memcpy res ?p (of_nat ?m) (hp s2) = bcopy ?p res (of_nat ?m) (hp s2)" if nz2: "res \<noteq> 0"
    proof -
      obtain q c where q: "res = q + sizeof_overhead" "bucket_for 4096 (unat n) = Some c" "blk g2 q = Some c"
        using s2(5) nz2 by (auto simp: allocates_def)
      have opb: "blk g2 op = Some b" using op(2) s2(3) by (auto simp: map_le_def dom_def free_block_def)
      have pg2: "unat (pagesz s2) = 4096" using s2(4) pg1 by (simp add: writes_header_def same_vars_def)
      have ne: "op \<noteq> q" using q(2,3) opb False by auto
      have "?m + 8 \<le> extent 4096 b" "?m + 8 \<le> extent 4096 c"
        using q(2) extent_capacity [of 4096 b] extent_capacity [of 4096 c] by (auto simp: bucket_for_Some)
      moreover have "?m < 2 ^ 64" using unat_lt64 [of n] by (auto simp: min_def)
      ultimately show ?thesis unfolding q(1) by (rule memcpy_blocks [OF s2(2) opb q(3) ne pg2])
    qed
    show ?thesis unfolding eq krealloc_used_eq [OF wf op n(1)] up
      using False fr s1(1) al s2(1) cp by simp
  qed
qed

section \<open>The laws\<close>

definition rs_resize :: "bool \<Rightarrow> os \<Rightarrow> u64 \<Rightarrow> 30 word \<Rightarrow> kstate \<Rightarrow> (u64 \<times> kstate) option" where
  "rs_resize chk os p r s = rs_realloc chk os p (ucast r) s"

text \<open>Clients do not ask for products of 1 GB and more: they take no memory then.\<close>

definition rs_zalloc :: "bool \<Rightarrow> os \<Rightarrow> u64 \<times> u64 \<Rightarrow> kstate \<Rightarrow> (u64 \<times> kstate) option" where
  "rs_zalloc chk os = (\<lambda>(nelem, elsize) s.
     if unat nelem * unat elsize < 2 ^ 30 then rs_kcalloc chk os nelem elsize s else Some (0, s))"

definition rs_zneed :: "u64 \<times> u64 \<Rightarrow> nat" where
  "rs_zneed = (\<lambda>(nelem, elsize). unat nelem * unat elsize)"

definition rs_clears_null :: "bool \<Rightarrow> os \<Rightarrow> u64 \<times> u64 \<Rightarrow> kstate \<Rightarrow> bool" where
  "rs_clears_null chk os = (\<lambda>(nelem, elsize) s. nelem * elsize \<noteq> 0 \<and>
     (case rs_kmalloc chk os (nelem * elsize) s of Some (p, _) \<Rightarrow> p = 0 | None \<Rightarrow> False))"

lemma rs_valid_null: "rs_valid os L s \<Longrightarrow> L 0 = None"
  using rs_valid_space [of os L s 0] by (cases "L 0") auto

lemma krealloc_same_vars:
  assumes v: "kvalid os L s" and p: "L p = Some n" and s': "krealloc os p r s = Some (q, s')"
  shows "pagesz s' = pagesz s"
proof -
  obtain g op b where run: "os_ok os" "kwf os g s" "booted os s" "hosts g (unat (pagesz s)) L"
      "p = op + sizeof_overhead" "op \<in> used g" "blk g op = Some b" "n \<le> capacity (unat (pagesz s)) b"
    using v p by (rule kvalid_run)
  have nz: "p \<noteq> 0" using kvalid_null [OF v] p by auto
  consider "r = 0" | "r \<noteq> 0" "bucket_for (unat (pagesz s)) (unat r) = Some b"
    | "r \<noteq> 0" "bucket_for (unat (pagesz s)) (unat r) \<noteq> Some b"
    by blast
  then show ?thesis
  proof cases
    case 1
    then have "kfree (op + sizeof_overhead) s = Some s'"
      using s' nz run(5) by (auto simp: krealloc_def split: bind_splits)
    then have "same_vars s s'" using kfree_used [OF run(2,6,7)] by auto
    then show ?thesis by (simp add: same_vars_def)
  next
    case 2
    then show ?thesis using s' krealloc_used_eq [OF run(2,6,7) 2(1)] run(5) by simp
  next
    case 3
    then have "same_vars s s'" using krealloc_wf [OF run(2,3,1,6,7) 3] s' run(5) by auto
    then show ?thesis by (simp add: same_vars_def)
  qed
qed

lemma rs_valid_resize:
  assumes val: "rs_valid os L s" and p: "p = 0 \<or> L p \<noteq> None"
  shows "\<exists>q s'. rs_resize chk os p r s = Some (q, s') \<and> (q = p \<or> L q = None) \<and>
    rs_valid os (if q = 0 then L(p := None) else (L(p := None))(q \<mapsto> unat r)) s' \<and>
    (\<forall>x n i. L x = Some n \<longrightarrow> x \<noteq> p \<longrightarrow> i < n \<longrightarrow> kpeek s' (x + of_nat i) = kpeek s (x + of_nat i)) \<and>
    (\<forall>n i. L p = Some n \<longrightarrow> q \<noteq> 0 \<longrightarrow> i < min n (unat r) \<longrightarrow>
       kpeek s' (q + of_nat i) = kpeek s (p + of_nat i))"
proof (cases "L p")
  case None
  have p0: "p = 0" "L(p := None) = L" using None p by auto
  obtain q s' where a: "rs_alloc chk os r s = Some (q, s')" using rs_valid_total [OF val, of chk r] by auto
  have "rs_resize chk os p r s = Some (q, s')"
    using a p0(1) by (simp add: rs_resize_def rs_realloc_def rs_alloc_def)
  then show ?thesis using rs_valid_alloc [OF val a] p0 None
    by (intro exI [of _ q] exI [of _ s'], cases "q = 0") simp_all
next
  case (Some n)
  note o = rs_valid_object [OF val Some]
  have nz: "p \<noteq> 0" using rs_valid_null [OF val] Some by auto
  obtain g op b where g: "kwf os g s" "booted os s" "p = op + sizeof_overhead" "op \<in> used g" "blk g op = Some b"
    using kvalid_run [OF o(2) Some] by metis
  have "rs_resize chk os p r s = krealloc os p (ucast r) s"
  proof (cases "(ucast r :: u64) = 0")
    case True
    then show ?thesis
      using nz rs_kfree_eq [OF g(1,4), of chk] g(3) by (simp add: rs_resize_def rs_realloc_def krealloc_def)
  next
    case False
    then show ?thesis unfolding rs_resize_def g(3)
      by (intro rs_realloc_used [OF o(1) g(1,2,4,5)] request_limit)
  qed
  moreover obtain q s' where s': "krealloc os p (ucast r) s = Some (q, s')" "q = p \<or> L q = None"
      "kvalid os (if q = 0 then L(p := None) else (L(p := None))(q \<mapsto> unat r)) s'"
      "\<forall>x n i. L x = Some n \<longrightarrow> x \<noteq> p \<longrightarrow> i < n \<longrightarrow> kpeek s' (x + of_nat i) = kpeek s (x + of_nat i)"
      "\<forall>n i. L p = Some n \<longrightarrow> q \<noteq> 0 \<longrightarrow> i < min n (unat r) \<longrightarrow>
         kpeek s' (q + of_nat i) = kpeek s (p + of_nat i)"
    using kvalid_resize [OF o(2) p, of "ucast r"] unfolding unat_request by blast
  moreover have "pagesz s' \<noteq> 0"
    using krealloc_same_vars [OF o(2) Some s'(1)] booted_page [OF g(2)] by simp
  ultimately show ?thesis using kvalid_rs_valid [OF o(1) s'(3)] by auto
qed

lemma rs_kcalloc_split:
  assumes "unat n * unat m < 2 ^ 30"
  shows "rs_kcalloc chk os n m s = do {
     (q, s) \<leftarrow> rs_alloc chk os (ucast (n * m)) s;
     h \<leftarrow> memset q 0 (n * m) (hp s);
     Some (q, s\<lparr>hp := h\<rparr>) }"
    and "unat (n * m) = unat n * unat m" and "unat (ucast (n * m) :: 30 word) = unat n * unat m"
proof -
  show u: "unat (n * m) = unat n * unat m" using assms by (simp add: unat_word_ariths)
  then show v: "unat (ucast (n * m) :: 30 word) = unat n * unat m"
    using assms by (simp add: unsigned_ucast_eq take_bit_nat_eq_self)
  have "(ucast (ucast (n * m) :: 30 word) :: u64) = n * m"
    by (rule unat_eqI) (simp only: unat_request u v)
  then show "rs_kcalloc chk os n m s = do {
     (q, s) \<leftarrow> rs_alloc chk os (ucast (n * m)) s;
     h \<leftarrow> memset q 0 (n * m) (hp s);
     Some (q, s\<lparr>hp := h\<rparr>) }"
    using assms by (simp add: rs_kcalloc_def rs_alloc_def usize_mul_def guarded_def)
qed

lemma rs_zalloc_original:
  assumes val: "rs_valid os L s" and fit: "unat n * unat m < 2 ^ 30"
  obtains s0 where "low_os os" and "kvalid os L s0" and "\<And>a. kpeek s a = kpeek s0 a"
    and "rs_zalloc chk os (n, m) s = kzalloc os (n, m) s0"
    and "rs_kmalloc chk os (n * m) s = kmalloc os (n * m) s0"
proof -
  obtain s0 where s0: "low_os os" "kvalid os L s0"
      "rs_alloc chk os (ucast (n * m)) s = kmalloc os (ucast (ucast (n * m) :: 30 word)) s0"
      "\<And>a. kpeek s a = kpeek s0 a"
    using val by (rule rs_valid_cases) blast
  have eq: "(ucast (ucast (n * m) :: 30 word) :: u64) = n * m"
    by (rule unat_eqI) (simp only: unat_request rs_kcalloc_split(2,3) [OF fit])
  show ?thesis
    by (rule that [OF s0(1,2,4)])
      (use fit s0(3) in \<open>simp_all add: rs_zalloc_def rs_kcalloc_split(1) kzalloc_def kcalloc_def rs_alloc_def eq\<close>)
qed

lemma rs_valid_zalloc:
  assumes val: "rs_valid os L s" and z: "rs_zalloc chk os (n, m) s = Some (q, s')"
  shows "L q = None \<and> rs_valid os (if q = 0 then L else L(q \<mapsto> unat n * unat m)) s' \<and>
    (\<forall>x k i. L x = Some k \<longrightarrow> i < k \<longrightarrow> kpeek s' (x + of_nat i) = kpeek s (x + of_nat i)) \<and>
    (q \<noteq> 0 \<longrightarrow> (\<forall>i < unat n * unat m. kpeek s' (q + of_nat i) = 0))"
proof (cases "unat n * unat m < 2 ^ 30")
  case False
  then have "q = 0" "s' = s" using z by (simp_all add: rs_zalloc_def)
  then show ?thesis using val rs_valid_null [OF val] by simp
next
  case fit: True
  note u = rs_kcalloc_split(2) [OF fit]
  obtain s0 where s0: "low_os os" "kvalid os L s0" "\<And>a. kpeek s a = kpeek s0 a"
      "rs_zalloc chk os (n, m) s = kzalloc os (n, m) s0"
    using val fit by (rule rs_zalloc_original [of os L s n m chk]) blast
  have k: "kzalloc os (n, m) s0 = Some (q, s')" using z s0(4) by simp
  note law = kvalid_zalloc [OF s0(2) k, unfolded u]
  obtain s1 h where s1: "kmalloc os (n * m) s0 = Some (q, s1)" "memset q 0 (n * m) (hp s1) = Some h"
      "s' = s1\<lparr>hp := h\<rparr>"
    using k by (auto simp: kzalloc_def kcalloc_def split: Option.bind_splits)
  have r1: "rs_valid os (if q = 0 then L else L(q \<mapsto> unat (n * m))) s1"
    by (rule rs_valid_kmalloc [OF s0(1,2) s1(1)])
  have "rs_valid os (if q = 0 then L else L(q \<mapsto> unat n * unat m)) s'"
  proof (cases "q = 0")
    case True
    obtain q' s'' where "kmalloc os (n * m) s0 = Some (q', s'')"
        "kvalid os (if q' = 0 then L else L(q' \<mapsto> unat (n * m))) s''"
      using kvalid_alloc [OF s0(2), of "n * m"] by blast
    then have "kvalid os L s1" using s1(1) True by simp
    then have "n * m = 0" using kvalid_memset_null [of os L s1 "n * m" 0] s1(2) True by auto
    then have "s' = s1" using s1(2,3) by (simp add: memset_def)
    then show ?thesis using r1 True by simp
  next
    case False
    then have "kvalid os (L(q \<mapsto> unat n * unat m)) s'" using law by simp
    moreover from this have "pagesz s' \<noteq> 0"
      using booted_page kvalid_booted [of os "L(q \<mapsto> unat n * unat m)" s' q] by simp
    ultimately show ?thesis using False kvalid_rs_valid [OF s0(1)] by simp
  qed
  then show ?thesis using law s0(3) by simp
qed

lemma rs_zalloc_law:
  assumes "rs_valid os L s" and "rs_zalloc chk os z s = Some (q, s')"
  shows "L q = None \<and> rs_valid os (if q = 0 then L else L(q \<mapsto> rs_zneed z)) s' \<and>
    (\<forall>x n i. L x = Some n \<longrightarrow> i < n \<longrightarrow> kpeek s' (x + of_nat i) = kpeek s (x + of_nat i)) \<and>
    (q \<noteq> 0 \<longrightarrow> (\<forall>i < rs_zneed z. kpeek s' (q + of_nat i) = 0))"
proof (cases z)
  case (Pair n m)
  with rs_valid_zalloc [OF assms(1), of chk n m] assms(2) show ?thesis
    by (simp only: rs_zneed_def prod.case) blast
qed

lemma rs_zalloc_fails:
  assumes val: "rs_valid os L s" and none: "rs_zalloc chk os z s = None"
  shows "rs_clears_null chk os z s"
proof (cases z)
  case (Pair n m)
  have fit: "unat n * unat m < 2 ^ 30" using none Pair by (auto simp: rs_zalloc_def split: if_splits)
  obtain s0 where "kvalid os L s0" "rs_zalloc chk os (n, m) s = kzalloc os (n, m) s0"
      "rs_kmalloc chk os (n * m) s = kmalloc os (n * m) s0"
    using val fit by (rule rs_zalloc_original [of os L s n m chk]) blast
  then show ?thesis
    using kzalloc_clears_null [of os L s0 n m] none Pair by (simp add: rs_clears_null_def clears_null_def)
qed

interpretation rust_whole: full_allocator "rs_alloc chk os" "rs_kfree chk" kpoke kpeek unat "rs_valid os"
    "rs_resize chk os" "rs_zalloc chk os" rs_zneed "rs_clears_null chk os" for chk os
proof unfold_locales
qed (fact rs_valid_resize rs_zalloc_law rs_zalloc_fails)+

end
