(* ===== verification/Kmalloc_Rust_Theorems.thy ===== *)
theory Kmalloc_Rust_Theorems
  imports Kmalloc_Rust_Program Kmalloc_Demo
begin

text \<open>
  The theorems on the Rust port: where it behaves as the C original, and where it does not.
\<close>

section \<open>Agreement with the original\<close>

text \<open>On a heap below 2 GB with pages of 4096 bytes the Rust \<open>kmalloc\<close> is the C \<open>kmalloc\<close>, in
  both build profiles, for every request up to \<open>2 ^ 30 + 4088\<close> bytes: same result, same state.\<close>

theorem rust_kmalloc_equiv:
  assumes "low_os os" and "booted os s" and "unat n \<le> rs_limit"
  shows "rs_kmalloc chk os n s = kmalloc os n s"
  by (rule rs_kmalloc_eq [OF assms])

definition low_linux :: os where
  "low_linux = \<lparr>page_size = 4096, grants = (\<lambda>i b n. unat b + unat n \<le> 2 ^ 31)\<rparr>"

lemma low_os_low_linux: "low_os low_linux"
  by (simp add: low_os_def low_linux_def)

lemma demo0_low: "kwf low_linux ghost0 demo0" "booted low_linux demo0"
  by (rule demo0_wf [OF low_os_ok [OF low_os_low_linux]], simp add: low_linux_def)+

lemma rust_kmalloc_equiv_witness: "rs_kmalloc True low_linux 100 demo0 = kmalloc low_linux 100 demo0"
  using rust_kmalloc_equiv [OF low_os_low_linux demo0_low(2), of 100 True] by (simp add: rs_limit_def)

text \<open>On such a heap every sequence of Rust \<open>kmalloc\<close> below 1 GB, \<open>kfree\<close> of live objects and
  stores into them runs from program start without panic or fault and behaves as on abstract
  objects that keep their contents and never overlap.\<close>

theorem rust_client_safe:
  assumes "low_os os" and "start_ok h" and "boots os h"
  shows "\<exists>A s. serve_all (rs_alloc chk os) (rs_kfree chk) kpoke unat cs (\<lambda>_. None, rs_init h) =
      Some (sizes A, s) \<and>
    object_run unat cs (\<lambda>_. None) A \<and>
    (\<forall>p xs i. A p = Some xs \<longrightarrow> i < length xs \<longrightarrow> bytes (hp s) (p + of_nat i) = xs ! i) \<and>
    (\<forall>p q xs ys. A p = Some xs \<longrightarrow> A q = Some ys \<longrightarrow> p \<noteq> q \<longrightarrow>
       unat p + length xs \<le> unat q \<or> unat q + length ys \<le> unat p)"
proof -
  have "rs_valid os (\<lambda>_. None) (rs_init h)" using assms by (auto simp: rs_valid_def)
  then show ?thesis using rust_heap.client_safe unfolding kpeek_def by blast
qed

lemma low_boots: "boots low_linux odd_heap"
  by (simp add: boots_def boot_gap_def odd_heap_def low_linux_def)

lemma rust_client_safe_witness:
  "\<exists>A s. serve_all (rs_alloc False low_linux) (rs_kfree False) kpoke unat
     [Alloc 100, Alloc 7, Alloc 9000] (\<lambda>_. None, rs_init odd_heap) = Some (sizes A, s)"
  using rust_client_safe [OF low_os_low_linux demo_start(2) low_boots] by blast

text \<open>A small first request is granted.\<close>

lemma low_first_served:
  assumes "bucket_for 4096 (unat n) = Some b" and "b < 20" and "unat n \<le> rs_limit"
  obtains p s where "rs_kmalloc chk low_linux n (rs_init odd_heap) = Some (p, s)" and "p \<noteq> 0"
proof -
  note ok = low_os_ok [OF low_os_low_linux]
  obtain s where s: "kmalloc_setup low_linux (kinit odd_heap) = Some (True, s)" "kwf low_linux ghost0 s"
      "booted low_linux s" "unat (brk (hp s)) = unat (brk odd_heap) + boot_gap 4096 (unat (brk odd_heap))"
    using setup_granted [OF ok demo_start(2) low_boots] by (auto simp: low_linux_def)
  have "page_size low_linux = 4096" by (simp add: low_linux_def)
  then have pg: "unat (pagesz s) = 4096" using booted_4096 [OF s(3)] by simp
  have brk: "unat (brk (hp s)) = 0x10ff8" unfolding s(4) by (simp add: boot_gap_def odd_heap_def)
  have "(2::nat) ^ (b + 3) < 2 ^ 23" using assms(2) by (intro power_strict_increasing) simp_all
  then have am: "amount 4096 b < 2 ^ 24" by (simp add: amount_def)
  then have "unat (of_nat (amount 4096 b) :: u64) = amount 4096 b" by (intro unat_of_nat64) simp
  then have "grants low_linux i (brk (hp s)) (of_nat (amount 4096 b))" for i
    using am brk by (simp add: low_linux_def)
  then have "\<not> exhausted low_linux s (unat n)" using assms by (simp add: exhausted_def pg)
  then obtain p s1 where p: "kmalloc low_linux n s = Some (p, s1)" "p \<noteq> 0"
    using kmalloc_wf [OF s(2,3) ok, of n] by metis
  have "rs_kmalloc chk low_linux n (rs_init odd_heap) = Some (p, s1)"
    using rs_kmalloc_start [OF low_os_low_linux demo_start(2) low_boots assms(3), of chk] p(1)
      first_kmalloc [OF s(1,3)] by simp
  then show ?thesis using p(2) by (rule that)
qed

text \<open>C8: The same with \<open>realloc\<close> of live objects and \<open>kcalloc\<close>, for sizes below 1 GB, on a heap below
  2 GB whose first move of the break the system grants: from program start the port serves every
  sequence of requests as on abstract objects, in both build profiles, unless a \<open>kcalloc\<close> clears the
  NULL its \<open>kmalloc\<close> returned. The \<open>memcpy\<close> of \<open>realloc\<close> never sees ranges that overlap, and no
  addition or shift overflows. Nothing is said of a heap whose first move is refused: there
  \<open>PAGE_BUCKET\<close> stays -1.\<close>

theorem rust_program_safe:
  assumes "low_os os" and "start_ok h" and "boots os h"
  shows "case perform_all (rs_alloc chk os) (rs_kfree chk) kpoke unat (rs_resize chk os)
        (rs_zalloc chk os) rs_zneed cs (\<lambda>_. None, rs_init h) of
      Some (L, s) \<Rightarrow> \<exists>A. L = sizes A \<and> request_run unat rs_zneed cs (\<lambda>_. None) A \<and>
        (\<forall>p xs i. A p = Some xs \<longrightarrow> i < length xs \<longrightarrow> bytes (hp s) (p + of_nat i) = xs ! i) \<and>
        (\<forall>p q xs ys. A p = Some xs \<longrightarrow> A q = Some ys \<longrightarrow> p \<noteq> q \<longrightarrow>
           unat p + length xs \<le> unat q \<or> unat q + length ys \<le> unat p)
    | None \<Rightarrow> \<exists>ds z es L s. cs = ds @ Zalloc z # es \<and>
        perform_all (rs_alloc chk os) (rs_kfree chk) kpoke unat (rs_resize chk os)
          (rs_zalloc chk os) rs_zneed ds (\<lambda>_. None, rs_init h) = Some (L, s) \<and>
        rs_clears_null chk os z s"
proof -
  have "rs_valid os (\<lambda>_. None) (rs_init h)" using assms by (auto simp: rs_valid_def)
  then show ?thesis by (rule rust_whole.program_safe [unfolded kpeek_def])
qed

lemma rust_program_safe_witness:
  "case perform_all (rs_alloc True low_linux) (rs_kfree True) kpoke unat (rs_resize True low_linux)
      (rs_zalloc True low_linux) rs_zneed [Zalloc (3, 8), Call (Alloc 100), Resize 0 7, Resize 0 9000]
      (\<lambda>_. None, rs_init odd_heap) of
    Some (L, s) \<Rightarrow> \<exists>A. L = sizes A \<and> request_run unat rs_zneed
      [Zalloc (3, 8), Call (Alloc (100 :: 30 word)), Resize 0 7, Resize 0 9000] (\<lambda>_. None) A
  | None \<Rightarrow> False"
proof -
  have "bucket_for 4096 (unat (24 :: u64)) = Some 2" using bucket_for_24 by simp
  then obtain p s where "rs_kmalloc True low_linux 24 (rs_init odd_heap) = Some (p, s)" "p \<noteq> 0"
    by (rule low_first_served) (simp_all add: rs_limit_def)
  then have served: "\<not> rs_clears_null True low_linux (3, 8) (rs_init odd_heap)"
    by (simp add: rs_clears_null_def)
  show ?thesis
    using rust_program_safe [OF low_os_low_linux demo_start(2) low_boots,
        of "[Zalloc (3, 8), Call (Alloc 100), Resize 0 7, Resize 0 9000]" True] served
    by (auto simp: Cons_eq_append_conv simp del: perform_all.simps(2) request_run_simps split: option.splits)
qed

section \<open>High heaps\<close>

text \<open>No address cut to 32 bits and extended again is in a heap above 2 GB.\<close>

lemma cut_address_unmapped:
  assumes "2 ^ 31 \<le> unat (heap_lo h)" and "unat (brk h) \<le> 2 ^ 47"
  shows "\<not> mapped h (int_to_long x) n"
proof -
  have long: "int_to_long x = word_of_int (sint x)" by (rule scast_eq)
  have "unat (int_to_long x) < 2 ^ 31 \<or> 2 ^ 47 < unat (int_to_long x)"
  proof (cases "0 \<le> sint x")
    case True
    define d where "d = nat (sint x)"
    have d: "d < 2 ^ 31" using True sint_lt [of x] by (simp add: d_def)
    have "int_to_long x = of_nat d" unfolding long d_def using True by simp
    then show ?thesis using d by (simp add: unat_of_nat64)
  next
    case False
    define d where "d = nat (- sint x)"
    have d: "0 < d" "d \<le> 2 ^ 31" using False sint_ge [of x] by (simp_all add: d_def)
    have "int_to_long x = - of_nat d" unfolding long d_def using False by simp
    then have "unat (int_to_long x) = 2 ^ 64 - d"
      using d unat_neg_of_nat [of d] by (simp only:) simp
    moreover have "2 ^ 47 < 2 ^ 64 - d" using d(2) by (simp add: less_diff_conv)
    ultimately show ?thesis by (simp only:) simp
  qed
  then show ?thesis using assms by (auto simp: mapped_def)
qed

lemma rs_carve_high:
  assumes "2 ^ 31 \<le> unat (heap_lo (hp s))" and "unat (brk (hp s)) \<le> 2 ^ 47"
    and "2 \<le> k" and "k < 2 ^ 31"
  shows "rs_carve chk op sz (of_nat k) s = None"
proof -
  have pos: "0 <s (of_nat k :: u32)" "0 <s (of_nat k - 1 :: u32)"
  proof -
    have "of_nat k - 1 = (of_nat (k - 1) :: u32)" using assms(3) by (simp add: of_nat_diff)
    then show "0 <s (of_nat k - 1 :: u32)"
      using assms(3,4) by (simp add: sless_unat32 unat_of_nat32 del: of_nat_diff)
    show "0 <s (of_nat k :: u32)" using assms(3,4) by (simp add: sless_unat32 unat_of_nat32)
  qed
  have stuck: "set_ov_next (int_to_long x) v s1 = None"
    if "set_ov_next op w s = Some s1" for x v w s1
    using that cut_address_unmapped [OF assms(1,2)] by (auto simp: hp_update_simps split: if_splits)
  show ?thesis
    unfolding rs_carve.simps [of chk op] rs_carve.simps [of chk _ _ "of_nat k - 1"]
    by (auto simp: pos stuck bind_eq_None_conv simp del: of_nat_diff)
qed

text \<open>C28: On a heap that begins above 2 GB, as that of a position-independent 64-bit executable does
  on Linux, the Rust port cannot serve its first small request: the page it gets for the blocks of
  up to 1024 bytes is linked through addresses cut to 32 bits, and the second write is outside the
  heap.\<close>

theorem rust_high_heap_faults:
  assumes "kwf os g s" and "booted os s" and "page_size os = 4096" and "os_ok os"
    and "2 ^ 31 \<le> unat (heap_lo (hp s))"
    and "bucket_for 4096 (unat n) = Some b" and "b \<le> 7" and "nextf s ! b = 0"
    and "grants os (calls (hp s)) (brk (hp s)) 4096"
  shows "rs_kmalloc chk os n s = None"
proof -
  have pg: "pagesz s = 4096" "pagebucket s = 9"
    using booted_4096 [OF assms(2,3)] by auto
  have b: "b < 28" using assms(7) by simp
  have "unat n \<le> capacity 4096 7"
    using assms(6,7) capacity_mono [OF assms(7), of 4096] by (simp add: bucket_for_Some)
  then have n: "unat n \<le> rs_limit" by (simp add: capacity_def extent_def rs_limit_def)
  have bucket: "rs_bucket chk s n = Some (Some (of_nat b))"
    using rs_bucket_eq [OF pg n, of chk] kmalloc_bucket_eq [OF assms(2), of n] assms(6) pg by simp
  have ix: "index (of_nat b) = b" using b by (simp add: index_of_nat)
  have at: "nextf_at s b = Some 0"
    using wf_nextf_at [OF assms(1), of b] b assms(8) by (simp add: NBUCKETS_def)
  have "rs_morecore chk os (of_nat b) s = None"
  proof -
    have "(2::nat) ^ (b + 3) \<le> 2 ^ 10" using assms(7) by (intro power_increasing) simp_all
    then have A: "amount 4096 b = 4096" and N: "4 \<le> nblks_of 4096 b" "nblks_of 4096 b \<le> 4096"
      by (auto simp: amount_def nblks_of_def less_eq_div_iff_mult_less_eq)
    have "nblks_of 4096 b - 1 < 2 ^ 31" using N by simp
    then have sub: "i32_sub chk (of_nat (nblks_of 4096 b)) 1 = Some (of_nat (nblks_of 4096 b - 1))"
      using i32_sub_eq [of "int (nblks_of 4096 b)" 1 chk] N by (simp add: in_i32_def of_nat_diff)
    have gr: "grants os (calls (hp s)) (brk (hp s)) (of_nat 4096)" using assms(9) by simp
    note sb = sbrk_granted [OF assms(4) gr]
    let ?h = "(hp s)\<lparr>brk := brk (hp s) + of_nat 4096, calls := Suc (calls (hp s)),
      bytes := fill (bytes (hp s)) (brk (hp s)) 0 (of_nat 4096)\<rparr>"
    have "rs_carve chk op sz (of_nat (nblks_of 4096 b - 1)) (s\<lparr>hp := ?h, nextf := f\<rparr>) = None" for op sz f
      using assms(5) sb(2,3) N by (intro rs_carve_high) simp_all
    moreover have "brk (hp s) \<noteq> - 1"
      using wf_brk [OF assms(1)] unat_minus1_u64 by (auto simp: word_unat_eq_iff)
    ultimately show ?thesis
      unfolding rs_morecore_split [OF pg(1) b] A using sb(1) sub b wf_nextf_length [OF assms(1)]
      by (simp add: set_nextf_def NBUCKETS_def Let_def)
  qed
  then show ?thesis
    using rs_setup_booted [of s chk os] pg bucket at by (simp add: rs_kmalloc_def rs_take_def ix)
qed

definition high_heap :: heap where
  "high_heap = \<lparr>bytes = (\<lambda>_. 0), heap_lo = 0x555500000000, brk = 0x555500000ff8, calls = 0\<rparr>"

definition demo_high :: kstate where
  "demo_high = (kinit high_heap)\<lparr>pagesz := 4096, pagebucket := 9\<rparr>"

lemma demo_high_wf: "kwf linux ghost0 demo_high" "booted linux demo_high"
proof -
  have "unat (pagesz demo_high) = 2 ^ 12" by (simp add: demo_high_def)
  then have p: "paged linux demo_high"
    unfolding paged_def by (auto simp: demo_high_def linux_def intro!: exI [of _ 12])
  show "kwf linux ghost0 demo_high"
    using demo_os(1) p
    by (intro empty_wf) (simp_all add: demo_high_def kinit_def heap_ok_def high_heap_def)
  show "booted linux demo_high"
    unfolding booted_def using p by (auto simp: demo_high_def intro!: exI [of _ 12])
qed

lemma rust_high_heap_faults_witness: "rs_kmalloc False linux 100 demo_high = None"
  by (rule rust_high_heap_faults [OF demo_high_wf, of _ 4])
    (use demo_os bucket_for_100 in
      \<open>simp_all add: demo_high_def kinit_def high_heap_def NBUCKETS_def linux_def\<close>)

section \<open>Large requests\<close>










section \<open>Blocks that are already free\<close>

text \<open>C30: Freeing a block a second time, which the C original ignores, takes the second byte of the
  link in the free block for its bucket: beyond the table the Rust \<open>kfree\<close> panics; when it names
  another bucket, the block is then at the head of two lists, and what follows it is the other
  bucket's list in both; when it names the block's own, the block heads its list and is linked to
  itself, so that the rest of the list is lost.\<close>

theorem rust_double_free:
  assumes "kwf os g s" and "op \<in> used g" and "blk g op = Some b"
  shows "\<exists>s1. rs_kfree chk (op + sizeof_overhead) s = Some s1 \<and>
    (let c = unat (byte_of (nextf s ! b) 1) in
     if c < NBUCKETS
     then \<exists>s2. rs_kfree chk (op + sizeof_overhead) s1 = Some s2 \<and> nextf s2 ! b = op \<and>
       (if c = b then ov_next s2 op = Some op
        else nextf s2 ! c = op \<and> ov_next s2 op = Some (nextf s ! c))
     else rs_kfree chk (op + sizeof_overhead) s1 = None) \<and>
    kfree (op + sizeof_overhead) s1 = Some s1"
proof -
  let ?p = "op + sizeof_overhead" and ?c = "unat (byte_of (nextf s ! b) 1)"
  let ?s1 = "s\<lparr>hp := (hp s)\<lparr>bytes := st64 (bytes (hp s)) op (nextf s ! b)\<rparr>, nextf := (nextf s)[b := op]\<rparr>"
  have s1: "kfree ?p s = Some ?s1" by (rule kfree_eq [OF assms])
  have wf1: "kwf os (free_block op g) ?s1" by (rule kfree_wf [OF assms])
  have "blk (free_block op g) op = Some b" using assms(3) by (simp add: free_block_def)
  note m = wf_header_mapped [OF wf1 this]
  have b: "b < NBUCKETS" using wf_block(1) [OF assms(1,3)] by (simp add: NBUCKETS_def)
  have len: "length (nextf s) = NBUCKETS" by (rule wf_nextf_length [OF assms(1)])
  note sub = rs_header [OF assms(1,3), of chk]
  have nz: "?p \<noteq> 0" by (rule nonnull_result [OF assms(1,3)])
  have ix: "ov_index ?s1 op = Some (byte_of (nextf s ! b) 1)"
    using m(3) by (simp add: ov_index_def rd8_def st64_def)
  have free: "op \<in> free_of (free_block op g) b" using assms(3) by (simp add: free_of_def free_block_def)
  have again: "rs_kfree chk ?p ?s1 = do { h \<leftarrow> nextf_at ?s1 ?c; s2 \<leftarrow> set_ov_next op h ?s1; set_nextf ?c op s2 }"
    using nz sub ix by (simp add: rs_kfree_def kassert_def DEBUG_def)
  have "if ?c < NBUCKETS
     then \<exists>s2. rs_kfree chk ?p ?s1 = Some s2 \<and> nextf s2 ! b = op \<and>
       (if ?c = b then ov_next s2 op = Some op else nextf s2 ! ?c = op \<and> ov_next s2 op = Some (nextf s ! ?c))
     else rs_kfree chk ?p ?s1 = None"
    unfolding again using m(1) b len
    by (auto simp: nextf_at_def set_nextf_def hp_update_simps nth_list_update ov_next_def rd64_def ld64_st64_same)
  moreover have "kfree ?p ?s1 = Some ?s1" by (rule kfree_free_block [OF wf1 free])
  moreover have "rs_kfree chk ?p s = Some ?s1" using s1 rs_kfree_eq [OF assms(1,2), of chk] by simp
  ultimately show ?thesis unfolding Let_def by blast
qed

text \<open>The link to the block at \<open>0x11078\<close> names bucket 16.\<close>

lemma rust_double_free_witness:
  "\<exists>g s op s1 s2. kwf linux g s \<and> op \<in> used g \<and> rs_kfree True (op + sizeof_overhead) s = Some s1 \<and>
    rs_kfree True (op + sizeof_overhead) s1 = Some s2 \<and> nextf s2 ! 4 = op \<and> nextf s2 ! 16 = op"
proof -
  obtain g s op where d: "kwf linux g s" "op \<in> used g" "blk g op = Some 4" "nextf s ! 4 = 0x11078"
    using demo_used [OF disjI1 [OF refl]] by metis
  have c: "unat (byte_of (nextf s ! 4) 1) = 16" unfolding d(4) by (simp add: byte_of_def)
  have "(16::nat) < NBUCKETS" "(16::nat) \<noteq> 4" by (simp_all add: NBUCKETS_def)
  then obtain s1 s2 where "rs_kfree True (op + sizeof_overhead) s = Some s1"
      "rs_kfree True (op + sizeof_overhead) s1 = Some s2" "nextf s2 ! 4 = op" "nextf s2 ! 16 = op"
    using rust_double_free [OF d(1,2,3), of True] unfolding c Let_def by auto
  then show ?thesis using d(1,2) by blast
qed




section \<open>The global allocator\<close>

lemma power_2_dvd_min: "k \<le> m \<Longrightarrow> k \<le> 12 \<Longrightarrow> (2::nat) ^ k dvd min (2 ^ m) 4096"
  using le_imp_power_dvd [of k m "2::nat"] le_imp_power_dvd [of k 12 "2::nat"] by (simp add: min_def)

text \<open>C32: On a heap below 2 GB, what \<open>alloc\<close> of the global allocator returns for a size up to
  \<^term>\<open>rs_limit\<close> is aligned as the layout asks and holds the object, when the alignment is a power of
  two up to 4096 and at most eight bytes larger than the size. The allocator does not look at the
  alignment; for other layouts nothing is claimed.\<close>

theorem global_alloc_aligned:
  assumes "low_os os" and "kwf os g s" and "booted os s"
    and "unat (lsize l) \<le> rs_limit" and "unat (lalign l) = 2 ^ k" and "k \<le> 12"
    and "unat (lalign l) \<le> unat (lsize l) + 8"
    and "global_alloc chk os l s = Some (p, s')"
  shows "p \<noteq> 0 \<and> unat p mod unat (lalign l) = 0 \<and> unat p + unat (lsize l) \<le> unat (brk (hp s'))"
proof -
  have pg: "pagesz s = 4096" using booted_4096 [OF assms(3)] assms(1) by (simp add: low_os_def)
  have p: "kmalloc os (lsize l) s = Some (p, s')" "p \<noteq> 0"
    using assms(8) rs_kmalloc_eq [OF assms(1,3,4), of chk]
    by (auto simp: global_alloc_def split: bind_splits if_splits)
  obtain b where b: "bucket_for 4096 (unat (lsize l)) = Some b" "unat p mod min (2 ^ (b + 3)) 4096 = 0"
      "unat p + unat (lsize l) \<le> unat (brk (hp s'))"
    using kmalloc_data_area [OF assms(2,3) low_os_ok [OF assms(1)] p] pg by auto
  have "k \<le> b + 3"
  proof (cases "(2::nat) ^ (b + 3) < 4096")
    case True
    then have "unat (lsize l) \<le> 2 ^ (b + 3) - 8"
      using b(1) by (simp add: bucket_for_Some capacity_def extent_def)
    then have "unat (lsize l) + 8 \<le> 2 ^ (b + 3)" using pow_ge_8 [of b] by linarith
    then have "(2::nat) ^ k \<le> 2 ^ (b + 3)" using assms(5,7) by linarith
    then show ?thesis by (simp only: power_increasing_iff one_less_numeral_iff semiring_norm)
  next
    case False
    then have "(2::nat) ^ 12 \<le> 2 ^ (b + 3)" by simp
    then have "12 \<le> b + 3" by (simp only: power_increasing_iff one_less_numeral_iff semiring_norm)
    then show ?thesis using assms(6) by simp
  qed
  then have "(2::nat) ^ k dvd unat p"
    using power_2_dvd_min [OF _ assms(6)] b(2) by (meson dvd_trans mod_eq_0_iff_dvd)
  then show ?thesis using p(2) b(3) assms(5) by (simp add: mod_eq_0_iff_dvd)
qed

lemma global_alloc_aligned_witness:
  "\<exists>p s'. global_alloc True low_linux \<lparr>lsize = 100, lalign = 64\<rparr> demo0 = Some (p, s') \<and> unat p mod 64 = 0"
proof -
  note d = low_os_ok [OF low_os_low_linux]
  obtain p s1 where k: "kmalloc low_linux 100 demo0 = Some (p, s1)"
      "p = 0 \<longleftrightarrow> exhausted low_linux demo0 (unat (100 :: u64))"
    using kmalloc_wf [OF demo0_low d, of 100] by metis
  have "p \<noteq> 0"
    unfolding k(2) using bucket_for_100
    by (simp add: exhausted_def demo0_def kinit_def NBUCKETS_def low_linux_def demo_heap_def amount_def)
  moreover have "rs_kmalloc True low_linux 100 demo0 = Some (p, s1)"
    using rs_kmalloc_eq [OF low_os_low_linux demo0_low(2), of 100 True] k(1) by (simp add: rs_limit_def)
  ultimately have a: "global_alloc True low_linux \<lparr>lsize = 100, lalign = 64\<rparr> demo0 = Some (p, s1)"
    by (simp add: global_alloc_def)
  show ?thesis
    using global_alloc_aligned [OF low_os_low_linux demo0_low _ _ _ _ a, of 6] a by (simp add: rs_limit_def)
qed

end
