(* ===== verification/Kmalloc_Rust_Global.thy ===== *)
theory Kmalloc_Rust_Global
  imports Kmalloc_Rust_Theorems
begin

text \<open>
  The global allocator of the Rust port, \<open>kmalloc/src/lib.rs\<close>, as an allocator: what a program gets
  whose boxes and vectors live in it. Layouts have a size below 1 GB and any alignment.
\<close>

section \<open>The laws\<close>

definition sized_layout :: "30 word \<times> u64 \<Rightarrow> rs_layout" where
  "sized_layout = (\<lambda>(n, a). \<lparr>lsize = ucast n, lalign = a\<rparr>)"

definition layout_need :: "30 word \<times> u64 \<Rightarrow> nat" where
  "layout_need = (\<lambda>(n, a). unat n)"

lemma global_alloc_eq:
  "global_alloc chk os (sized_layout r) s =
    (case rs_alloc chk os (fst r) s of None \<Rightarrow> None | Some (p, s') \<Rightarrow> if p = 0 then None else Some (p, s'))"
  by (cases r) (simp add: global_alloc_def sized_layout_def rs_alloc_def split: option.split)

lemma layout_need_fst: "layout_need r = unat (fst r)"
  by (cases r) (simp add: layout_need_def)

lemma global_valid_alloc:
  assumes "rs_valid os L s" and "global_alloc chk os (sized_layout r) s = Some (p, s')"
  shows "L p = None \<and> rs_valid os (if p = 0 then L else L(p \<mapsto> layout_need r)) s' \<and>
    (\<forall>q n i. L q = Some n \<longrightarrow> i < n \<longrightarrow> kpeek s' (q + of_nat i) = kpeek s (q + of_nat i))"
proof -
  have "rs_alloc chk os (fst r) s = Some (p, s')"
    using assms(2) unfolding global_alloc_eq by (auto split: option.splits if_splits)
  from rs_valid_alloc [OF assms(1) this] show ?thesis unfolding layout_need_fst .
qed

lemma global_valid_dealloc:
  assumes "rs_valid os L s" and "L p = Some n"
  shows "\<exists>s'. global_dealloc chk p l s = Some s' \<and> rs_valid os (L(p := None)) s' \<and>
    (\<forall>q n i. L q = Some n \<longrightarrow> q \<noteq> p \<longrightarrow> i < n \<longrightarrow> kpeek s' (q + of_nat i) = kpeek s (q + of_nat i))"
  unfolding global_dealloc_def by (rule rs_valid_free [OF assms])

lemma global_never_null: "global_alloc chk os (sized_layout r) s = Some (p, s') \<Longrightarrow> p \<noteq> 0"
  unfolding global_alloc_eq by (auto split: option.splits if_splits)

interpretation rust_global: diverging_allocator "\<lambda>r. global_alloc chk os (sized_layout r)"
    "\<lambda>p. global_dealloc chk p l" kpoke kpeek layout_need "rs_valid os" for chk os l
proof unfold_locales
qed (fact global_valid_alloc global_valid_dealloc rs_valid_poke rs_valid_space rs_valid_disjoint |
    erule global_never_null)+

section \<open>Clients of the global allocator\<close>

text \<open>\<open>alloc\<close> does not return exactly when \<open>kmalloc\<close> has no memory left.\<close>

lemma global_alloc_none:
  assumes "rs_valid os L s" and "global_alloc chk os (sized_layout r) s = None"
  shows "\<exists>s'. rs_alloc chk os (fst r) s = Some (0, s')"
  using assms rs_valid_total [OF assms(1), of chk "fst r"] unfolding global_alloc_eq
  by (auto split: option.splits if_splits)

text \<open>C9: A Rust program that uses the port as its global allocator, on a heap below 2 GB whose first
  move of the break is granted: every sequence
  of allocations below 1 GB, releases of live objects, with whatever layout, and stores into them
  runs without panic and as on abstract objects that keep their contents and never overlap, every
  allocation yielding a new object that is not at address 0, until an allocation for which
  \<open>kmalloc\<close> returns NULL ends it in \<open>handle_alloc_error\<close>.\<close>

theorem global_client_refines:
  assumes "low_os os" and "start_ok h" and "boots os h"
  shows "case serve_all (\<lambda>r. global_alloc chk os (sized_layout r)) (\<lambda>p. global_dealloc chk p l) kpoke
        layout_need cs (\<lambda>_. None, rs_init h) of
      Some (L, s) \<Rightarrow> \<exists>A. L = sizes A \<and> granted_run layout_need cs (\<lambda>_. None) A \<and> A 0 = None \<and>
        (\<forall>p xs i. A p = Some xs \<longrightarrow> i < length xs \<longrightarrow> bytes (hp s) (p + of_nat i) = xs ! i) \<and>
        (\<forall>p q xs ys. A p = Some xs \<longrightarrow> A q = Some ys \<longrightarrow> p \<noteq> q \<longrightarrow>
           unat p + length xs \<le> unat q \<or> unat q + length ys \<le> unat p)
    | None \<Rightarrow> \<exists>ds r es L s s'. cs = ds @ Alloc r # es \<and>
        serve_all (\<lambda>r. global_alloc chk os (sized_layout r)) (\<lambda>p. global_dealloc chk p l) kpoke
          layout_need ds (\<lambda>_. None, rs_init h) = Some (L, s) \<and>
        rs_kmalloc chk os (lsize (sized_layout r)) s = Some (0, s')"
proof -
  have v: "rs_valid os (\<lambda>_. None) (rs_init h)" using assms by (auto simp: rs_valid_def)
  note rep = rust_global.represents_none [OF v]
  show ?thesis
  proof (cases "serve_all (\<lambda>r. global_alloc chk os (sized_layout r)) (\<lambda>p. global_dealloc chk p l) kpoke
      layout_need cs (\<lambda>_. None, rs_init h)")
    case None
    then obtain ds r es L s where d: "cs = ds @ Alloc r # es" "rs_valid os L s"
        "serve_all (\<lambda>r. global_alloc chk os (sized_layout r)) (\<lambda>p. global_dealloc chk p l) kpoke
          layout_need ds (\<lambda>_. None, rs_init h) = Some (L, s)"
        "global_alloc chk os (sized_layout r) s = None"
      using rust_global.serve_all_stops [OF rep, of chk l cs] by auto
    obtain s' where "rs_kmalloc chk os (lsize (sized_layout r)) s = Some (0, s')"
      using global_alloc_none [OF d(2,4)] by (cases r) (auto simp: rs_alloc_def sized_layout_def)
    then show ?thesis unfolding None option.case using d(1,3) by blast
  next
    case (Some Ls)
    obtain L s where Ls: "Ls = (L, s)" by fastforce
    obtain A where A: "L = sizes A" "granted_run layout_need cs (\<lambda>_. None) A" "rust_global.represents os A s"
      using rust_global.serve_all_granted [OF rep, of chk l cs] Some Ls by auto
    have "A 0 = None"
      using A(3) rs_valid_null [of os "sizes A" s] by (simp add: rust_global.represents_def)
    moreover have "\<forall>p xs i. A p = Some xs \<longrightarrow> i < length xs \<longrightarrow> bytes (hp s) (p + of_nat i) = xs ! i"
      using A(3) unfolding rust_global.represents_def kpeek_def by blast
    ultimately show ?thesis unfolding Some Ls option.case prod.case
      using A(1,2) rust_global.represents_apart [OF A(3)] by blast
  qed
qed

text \<open>The first allocation of 100 bytes is granted.\<close>

lemma low_first_alloc:
  obtains p s where "global_alloc chk low_linux (sized_layout (100, a)) (rs_init odd_heap) = Some (p, s)"
    and "p \<noteq> 0"
proof -
  have "bucket_for 4096 (unat (100 :: u64)) = Some 4" using bucket_for_100 by simp
  then obtain p s where "rs_kmalloc chk low_linux 100 (rs_init odd_heap) = Some (p, s)" "p \<noteq> 0"
    by (rule low_first_served) (simp_all add: rs_limit_def)
  then show ?thesis by (intro that [of p s]) (simp_all add: global_alloc_def sized_layout_def)
qed

lemma global_client_refines_witness:
  "\<exists>p s xs. serve_all (\<lambda>r. global_alloc True low_linux (sized_layout r)) (\<lambda>p. global_dealloc True p \<lparr>lsize = 100, lalign = 8\<rparr>)
      kpoke layout_need [Alloc (100, 8)] (\<lambda>_. None, rs_init odd_heap) = Some ([p \<mapsto> 100], s) \<and>
    length xs = 100 \<and> (\<forall>i < 100. bytes (hp s) (p + of_nat i) = xs ! i)"
proof -
  obtain p s where p: "global_alloc True low_linux (sized_layout (100, 8)) (rs_init odd_heap) = Some (p, s)" "p \<noteq> 0"
    by (rule low_first_alloc)
  then have run: "serve_all (\<lambda>r. global_alloc True low_linux (sized_layout r))
      (\<lambda>p. global_dealloc True p \<lparr>lsize = 100, lalign = 8\<rparr>) kpoke layout_need [Alloc (100, 8)]
      (\<lambda>_. None, rs_init odd_heap) = Some ([p \<mapsto> 100], s)"
    by (simp add: layout_need_def)
  obtain A where A: "[p \<mapsto> 100] = sizes A"
      "\<forall>p xs i. A p = Some xs \<longrightarrow> i < length xs \<longrightarrow> bytes (hp s) (p + of_nat i) = xs ! i"
    using global_client_refines [OF low_os_low_linux demo_start(2) low_boots,
        of "[Alloc (100, 8)]" True "\<lparr>lsize = 100, lalign = 8\<rparr>"]
    unfolding run option.case prod.case by blast
  obtain xs where xs: "A p = Some xs" "length xs = 100"
    using fun_cong [OF A(1), of p] by (cases "A p") (auto simp: sizes_def)
  then have "\<forall>i<100. bytes (hp s) (p + of_nat i) = xs ! i" using A(2) by simp
  then show ?thesis using run xs(2) by blast
qed

end
