(* ===== verification/Fixalloc.thy ===== *)
theory Fixalloc
  imports Allocator
begin

text \<open>
  The fixed-size allocator of \<open>rgoffi/go/gocruntime/fixalloc.c\<close> and the Go original beside it,
  \<open>rgoffi/go/fixalloc.go\<close>. Both carve blocks of one size from chunks of the persistent
  allocator and keep released blocks on a list. The persistent allocator belongs to the Go
  runtime: it is a parameter. A run ends in a fault when it throws or touches unmapped memory.
\<close>

section \<open>Data\<close>

datatype fault = Throw string | Segv

text \<open>The memory handed out by the persistent allocator: mapped ranges, and the number of calls.\<close>

record arena =
  mem :: bytes
  ranges :: "(u64 \<times> u64) list"
  grabs :: nat

record fixalloc =
  f_size :: u64
  f_list :: u64
  f_chunk :: u64
  f_nchunk :: u32
  f_nalloc :: u32
  f_inuse :: u64
  f_zero :: u8

definition sizeof_mlink :: u64 where
  "sizeof_mlink = 8"

definition FixAllocChunk :: u64 where
  "FixAllocChunk = push_bit 10 0x10"

definition accessible :: "arena \<Rightarrow> u64 \<Rightarrow> u64 \<Rightarrow> bool" where
  "accessible w a n \<longleftrightarrow>
     (\<exists>(b, k) \<in> set (ranges w). unat b \<le> unat a \<and> unat a + unat n \<le> unat b + unat k)"

definition mem_next :: "arena \<Rightarrow> u64 \<Rightarrow> fault + u64" where
  "mem_next w v = (if accessible w v 8 then Inr (ld64 (mem w) v) else Inl Segv)"

definition set_mem_next :: "u64 \<Rightarrow> u64 \<Rightarrow> arena \<Rightarrow> fault + arena" where
  "set_mem_next v x w =
     (if accessible w v 8 then Inr (w\<lparr>mem := st64 (mem w) v x\<rparr>) else Inl Segv)"

text \<open>
  \<open>persistentalloc(n, 0, nil)\<close> returns fresh zeroed memory, or throws when the system has none;
  \<open>pa\<close> says which, call by call.
\<close>

definition persistent_alloc ::
    "(nat \<Rightarrow> u64 \<Rightarrow> u64 option) \<Rightarrow> u64 \<Rightarrow> arena \<Rightarrow> fault + (u64 \<times> arena)" where
  "persistent_alloc pa n w =
     (case pa (grabs w) n of
        None \<Rightarrow> Inl (Throw ''runtime: cannot allocate memory'')
      | Some a \<Rightarrow>
          Inr (a, \<lparr>mem = fill (mem w) a 0 n, ranges = (a, n) # ranges w, grabs = Suc (grabs w)\<rparr>))"

definition memclr :: "u64 \<Rightarrow> u64 \<Rightarrow> arena \<Rightarrow> fault + arena" where
  "memclr v n w = (if accessible w v n then Inr (w\<lparr>mem := fill (mem w) v 0 n\<rparr>) else Inl Segv)"

text \<open>Sequencing of steps that may fault.\<close>

fun and_then :: "'e + 'a \<Rightarrow> ('a \<Rightarrow> 'e + 'b) \<Rightarrow> 'e + 'b" where
  "and_then (Inl e) f = Inl e"
| "and_then (Inr x) f = f x"

section \<open>Operations\<close>

definition fix_init :: "u64 \<Rightarrow> fault + fixalloc" where
  "fix_init sz =
     (if sz > FixAllocChunk then Inl (Throw ''fixalloc: fixalloc size too large'')
      else
        let sz = (if sz < sizeof_mlink then sizeof_mlink else sz)
        in Inr \<lparr>f_size = sz, f_list = 0, f_chunk = 0, f_nchunk = 0,
             f_nalloc = ucast (FixAllocChunk div sz * sz), f_inuse = 0, f_zero = 1\<rparr>)"

text \<open>What C and Go have in common: taking a block from the list, and getting a new chunk.\<close>

definition fix_pop :: "fixalloc \<Rightarrow> arena \<Rightarrow> fault + (u64 \<times> fixalloc \<times> arena)" where
  "fix_pop f w =
     (let v = f_list f in
      and_then (mem_next w (f_list f)) (\<lambda>nx.
        let f = f\<lparr>f_list := nx, f_inuse := f_inuse f + f_size f\<rparr> in
        if f_zero f \<noteq> 0 then and_then (memclr v (f_size f) w) (\<lambda>w. Inr (v, f, w))
        else Inr (v, f, w)))"

definition fix_refill :: "(nat \<Rightarrow> u64 \<Rightarrow> u64 option) \<Rightarrow> fixalloc \<Rightarrow> arena \<Rightarrow>
    fault + (fixalloc \<times> arena)" where
  "fix_refill pa f w =
     (if uint_to_long (f_nchunk f) < f_size f then
        and_then (persistent_alloc pa (uint_to_long (f_nalloc f)) w) (\<lambda>(a, w).
        Inr (f\<lparr>f_chunk := a, f_nchunk := f_nalloc f\<rparr>, w))
      else Inr (f, w))"

definition fix_alloc ::
    "(nat \<Rightarrow> u64 \<Rightarrow> u64 option) \<Rightarrow> fixalloc \<Rightarrow> arena \<Rightarrow> fault + (u64 \<times> fixalloc \<times> arena)" where
  "fix_alloc pa f w =
     (if f_size f = 0 then Inl (Throw ''fixalloc: use of FixAlloc_Alloc before FixAlloc_Init'')
      else if f_list f \<noteq> 0 then fix_pop f w
      else
        and_then (fix_refill pa f w) (\<lambda>(f, w).
        let f = f\<lparr>f_chunk := f_chunk f + f_size f\<rparr>;
            f = f\<lparr>f_nchunk := ucast (uint_to_long (f_nchunk f) - f_size f)\<rparr>;
            f = f\<lparr>f_inuse := f_inuse f + f_size f\<rparr>
        in Inr (f_chunk f, f, w)))"

definition fix_dealloc :: "u64 \<Rightarrow> fixalloc \<Rightarrow> arena \<Rightarrow> fault + (fixalloc \<times> arena)" where
  "fix_dealloc p f w =
     (let f = f\<lparr>f_inuse := f_inuse f - f_size f\<rparr> in
      and_then (set_mem_next p (f_list f) w) (\<lambda>w. Inr (f\<lparr>f_list := p\<rparr>, w)))"

text \<open>The Go original takes the address of the block before it moves the chunk pointer.\<close>

definition go_alloc ::
    "(nat \<Rightarrow> u64 \<Rightarrow> u64 option) \<Rightarrow> fixalloc \<Rightarrow> arena \<Rightarrow> fault + (u64 \<times> fixalloc \<times> arena)" where
  "go_alloc pa f w =
     (if f_size f = 0 then Inl (Throw ''fixalloc: use of FixAlloc_Alloc before FixAlloc_Init'')
      else if f_list f \<noteq> 0 then fix_pop f w
      else
        and_then (fix_refill pa f w) (\<lambda>(f, w).
        let v = f_chunk f;
            f = f\<lparr>f_chunk := f_chunk f + f_size f\<rparr>;
            f = f\<lparr>f_nchunk := f_nchunk f - ucast (f_size f)\<rparr>;
            f = f\<lparr>f_inuse := f_inuse f + f_size f\<rparr>
        in Inr (v, f, w)))"

text \<open>
  \<open>test\<close>: a node with the fields \<open>data\<close> and \<open>next\<close> is allocated, written, printed, released and
  printed again. The value is the list of the words printed: address, \<open>data\<close>, \<open>next\<close>, twice.
\<close>

definition fix_test :: "(nat \<Rightarrow> u64 \<Rightarrow> u64 option) \<Rightarrow> arena \<Rightarrow> fault + u64 list" where
  "fix_test pa w =
     and_then (fix_init 16) (\<lambda>f.
     and_then (fix_alloc pa f w) (\<lambda>(n, f, w).
     if n = 0 then Inl (Throw ''assert'') else
     and_then (set_mem_next n 0xcafebabe w) (\<lambda>w.
     and_then (set_mem_next (n + 8) 0 w) (\<lambda>w.
     and_then (mem_next w n) (\<lambda>d1.
     and_then (mem_next w (n + 8)) (\<lambda>n1.
     and_then (fix_dealloc n f w) (\<lambda>(f, w).
     and_then (mem_next w n) (\<lambda>d2.
     and_then (mem_next w (n + 8)) (\<lambda>n2.
     Inr [n, d1, n1, n, d2, n2])))))))))"

end
