(* ===== verification/Fixalloc_Inv.thy ===== *)
theory Fixalloc_Inv
  imports Fixalloc
begin

text \<open>
  The Go version of the fixed-size allocator satisfies the laws of an allocator. The invariant
  follows the blocks, live or on the list, the rest of the current chunk and the counter of bytes
  in use.
\<close>

section \<open>Initialisation\<close>

definition chunk_bytes :: "nat \<Rightarrow> nat" where
  "chunk_bytes sz = 16384 div sz * sz"

lemma FixAllocChunk_value: "FixAllocChunk = 16384" "unat FixAllocChunk = 16384"
  by (simp_all add: FixAllocChunk_def)

lemma chunk_bytes_bounds:
  assumes "8 \<le> sz" and "sz \<le> 16384"
  shows "sz \<le> chunk_bytes sz" and "chunk_bytes sz \<le> 16384" and "sz dvd chunk_bytes sz"
    and "0 < 16384 div sz"
proof -
  show "0 < 16384 div sz" using assms by (simp add: div_greater_zero_iff)
  then have "1 * sz \<le> 16384 div sz * sz" by (intro mult_le_mono1) simp
  then show "sz \<le> chunk_bytes sz" by (simp add: chunk_bytes_def)
qed (simp_all add: chunk_bytes_def)

lemma fix_init_ok:
  assumes "unat n \<le> 16384"
  shows "\<exists>f. fix_init n = Inr f \<and> unat (f_size f) = max 8 (unat n) \<and>
    unat (f_nalloc f) = chunk_bytes (max 8 (unat n)) \<and>
    f_list f = 0 \<and> f_nchunk f = 0 \<and> f_inuse f = 0 \<and> f_zero f = 1"
proof -
  let ?sz = "max 8 (unat n)" and ?w = "if n < sizeof_mlink then sizeof_mlink else n"
  have u: "unat ?w = ?sz" by (auto simp: sizeof_mlink_def word_less_nat_alt max_def)
  have sz: "8 \<le> ?sz" "?sz \<le> 16384" using assms by simp_all
  have N: "chunk_bytes ?sz \<le> 16384" using chunk_bytes_bounds(2) [OF sz] .
  have q: "unat (FixAllocChunk div ?w) = 16384 div ?sz"
    by (simp only: unat_div u FixAllocChunk_value(2))
  have "unat (FixAllocChunk div ?w * ?w) = chunk_bytes ?sz mod 2 ^ 64"
    by (simp only: unat_word_ariths(2) q u chunk_bytes_def) simp
  moreover have "chunk_bytes ?sz mod 2 ^ 64 = chunk_bytes ?sz" using N by (intro mod_less) simp
  ultimately have "unat (FixAllocChunk div ?w * ?w) = chunk_bytes ?sz" by (simp only:)
  then have "unat (ucast (FixAllocChunk div ?w * ?w) :: u32) = chunk_bytes ?sz"
    using N by (simp only: unsigned_ucast_eq) (simp add: take_bit_nat_eq_self)
  moreover have "\<not> n > FixAllocChunk" using assms FixAllocChunk_value by (simp add: word_less_nat_alt)
  ultimately show ?thesis using u by (simp add: fix_init_def Let_def)
qed

lemma fix_init_large: "16384 < unat n \<Longrightarrow> fix_init n = Inl (Throw ''fixalloc: fixalloc size too large'')"
  using FixAllocChunk_value by (simp add: fix_init_def word_less_nat_alt)

section \<open>Intervals\<close>

definition clear :: "u64 \<Rightarrow> nat \<Rightarrow> u64 \<Rightarrow> nat \<Rightarrow> bool" where
  "clear p m q n \<longleftrightarrow> unat p + m \<le> unat q \<or> unat q + n \<le> unat p"

lemma clear_dist:
  assumes "clear p m a n" and "i < m" and "unat p + m \<le> 2 ^ 47" and "unat a + n \<le> 2 ^ 47"
  shows "n \<le> unat (p + of_nat i - a)"
proof -
  have u: "unat (p + of_nat i) = unat p + i" using assms(2,3) by (intro unat_offset) simp
  show ?thesis
  proof (cases "unat p + i < unat a")
    case True
    then show ?thesis using u assms(4) by (simp add: unat_sub_wrap)
  next
    case False
    then have "unat a + n \<le> unat p" using assms(1,2) by (auto simp: clear_def)
    then show ?thesis using u by (simp add: unat_sub_nowrap)
  qed
qed

lemma fill_clear:
  assumes "clear p m a n" and "i < m" and "unat p + m \<le> 2 ^ 47" and "unat a + n \<le> 2 ^ 47"
  shows "fill f a v (of_nat n) (p + of_nat i) = f (p + of_nat i)"
proof -
  have "unat (of_nat n :: u64) = n" using assms(4) by (intro unat_of_nat64) simp
  then show ?thesis using clear_dist [OF assms] by (simp add: fill_def del: unsigned_of_nat)
qed

lemma fill_inside:
  assumes "i < n" and "n < 2 ^ 64"
  shows "fill f a v (of_nat n) (a + of_nat i) = v"
proof -
  have "unat (of_nat n :: u64) = n" "unat (of_nat i :: u64) = i"
    using assms by (simp_all add: unat_of_nat64 del: unsigned_of_nat)
  then show ?thesis using assms(1) by (simp add: fill_def del: unsigned_of_nat)
qed

lemma st64_clear:
  assumes "clear p m a 8" and "i < m" and "unat p + m \<le> 2 ^ 47" and "unat a + 8 \<le> 2 ^ 47"
  shows "st64 f a v (p + of_nat i) = f (p + of_nat i)"
  using clear_dist [OF assms] by (rule st64_outside)

lemma clear_apart:
  assumes "clear p m q n" and "8 \<le> m" and "8 \<le> n" and "unat p + m \<le> 2 ^ 47" and "unat q + n \<le> 2 ^ 47"
  shows "apart p q"
  using assms by (intro apartI) (auto simp: clear_def)

lemma clear_sub: "clear p m q n \<Longrightarrow> n' \<le> n \<Longrightarrow> clear p m q n'"
  by (auto simp: clear_def)

lemma clear_sym: "clear p m q n \<longleftrightarrow> clear q n p m"
  by (auto simp: clear_def)

section \<open>The invariant\<close>

text \<open>What the persistent allocator promises for chunks of \<open>n\<close> bytes.\<close>

definition chunks_ok :: "(nat \<Rightarrow> u64 \<Rightarrow> u64 option) \<Rightarrow> nat \<Rightarrow> bool" where
  "chunks_ok pa n \<longleftrightarrow> (\<forall>i a. pa i (of_nat n) = Some a \<longrightarrow> a \<noteq> 0 \<and> unat a + n \<le> 2 ^ 47 \<and>
     (\<forall>j b. i \<noteq> j \<longrightarrow> pa j (of_nat n) = Some b \<longrightarrow> clear a n b n))"

definition grabbed :: "(nat \<Rightarrow> u64 \<Rightarrow> u64 option) \<Rightarrow> nat \<Rightarrow> nat \<Rightarrow> u64 \<Rightarrow> nat \<Rightarrow> bool" where
  "grabbed pa n g p m \<longleftrightarrow> (\<exists>i < g. \<exists>a. pa i (of_nat n) = Some a \<and>
     unat a \<le> unat p \<and> unat p + m \<le> unat a + n)"

text \<open>The blocks \<open>X\<close> lie in the chunks and are apart.\<close>

definition laid :: "(nat \<Rightarrow> u64 \<Rightarrow> u64 option) \<Rightarrow> nat \<Rightarrow> nat \<Rightarrow> u64 set \<Rightarrow> bool" where
  "laid pa sz g X \<longleftrightarrow> (\<forall>p \<in> X. grabbed pa (chunk_bytes sz) g p sz) \<and>
     (\<forall>p \<in> X. \<forall>q \<in> X. p \<noteq> q \<longrightarrow> clear p sz q sz)"

text \<open>\<open>k\<close> more blocks fit in the current chunk; their bytes are zero and in no block.\<close>

definition spare :: "(nat \<Rightarrow> u64 \<Rightarrow> u64 option) \<Rightarrow> nat \<Rightarrow> u64 set \<Rightarrow> nat \<Rightarrow> fixalloc \<Rightarrow> arena \<Rightarrow> bool" where
  "spare pa sz X k f w \<longleftrightarrow> unat (f_nchunk f) = k * sz \<and>
     (k \<noteq> 0 \<longrightarrow> grabbed pa (chunk_bytes sz) (grabs w) (f_chunk f) (k * sz) \<and>
        (\<forall>p \<in> X. clear p sz (f_chunk f) (k * sz)) \<and>
        (\<forall>i < k * sz. mem w (f_chunk f + of_nat i) = 0))"

definition fix_ok :: "(nat \<Rightarrow> u64 \<Rightarrow> u64 option) \<Rightarrow> nat \<Rightarrow> fixalloc \<Rightarrow> arena \<Rightarrow> bool" where
  "fix_ok pa sz f w \<longleftrightarrow> 8 \<le> sz \<and> sz \<le> 16384 \<and> chunks_ok pa (chunk_bytes sz) \<and>
     f_size f = of_nat sz \<and> f_nalloc f = of_nat (chunk_bytes sz) \<and> f_zero f = 1 \<and>
     (\<forall>i < grabs w. \<exists>a. pa i (of_nat (chunk_bytes sz)) = Some a \<and>
        (a, of_nat (chunk_bytes sz)) \<in> set (ranges w))"

definition fvalid ::
    "(nat \<Rightarrow> u64 \<Rightarrow> u64 option) \<Rightarrow> nat \<Rightarrow> (u64 \<Rightarrow> nat option) \<Rightarrow> fixalloc \<times> arena \<Rightarrow> bool" where
  "fvalid pa sz L fw \<longleftrightarrow> (case fw of (f, w) \<Rightarrow> fix_ok pa sz f w \<and>
     finite (dom L) \<and> ran L \<subseteq> {sz} \<and> f_inuse f = of_nat (sz * card (dom L)) \<and>
     (\<exists>xs k. chain (ld64 (mem w)) (f_list f) xs \<and> set xs \<inter> dom L = {} \<and>
        laid pa sz (grabs w) (set xs \<union> dom L) \<and> spare pa sz (set xs \<union> dom L) k f w))"

lemma grabbed_bound: "chunks_ok pa n \<Longrightarrow> grabbed pa n g p m \<Longrightarrow> unat p + m \<le> 2 ^ 47 \<and> p \<noteq> 0"
proof -
  assume "chunks_ok pa n" "grabbed pa n g p m"
  then obtain i a where i: "pa i (of_nat n) = Some a" and a: "unat a \<le> unat p" "unat p + m \<le> unat a + n"
    by (auto simp: grabbed_def)
  have "a \<noteq> 0 \<and> unat a + n \<le> 2 ^ 47" using \<open>chunks_ok pa n\<close> i by (simp add: chunks_ok_def)
  note a = a this
  have "unat a \<noteq> 0" using a(3) by (simp add: unat_eq_0)
  then show ?thesis using a by auto
qed

lemma grabbed_mono: "grabbed pa n g p m \<Longrightarrow> g \<le> g' \<Longrightarrow> grabbed pa n g' p m"
  unfolding grabbed_def by (meson less_le_trans)

lemma grabbed_accessible:
  assumes ok: "fix_ok pa sz f w" and p: "grabbed pa (chunk_bytes sz) (grabs w) p m" and n: "i + n \<le> m"
  shows "accessible w (p + of_nat i) (of_nat n)"
proof -
  let ?N = "chunk_bytes sz"
  have N: "?N \<le> 16384" and ch: "chunks_ok pa ?N" using ok chunk_bytes_bounds(2) by (auto simp: fix_ok_def)
  have b: "unat p + m \<le> 2 ^ 47" using grabbed_bound [OF ch p] by simp
  then have u: "unat (p + of_nat i) = unat p + i" using n by (intro unat_offset) simp
  have un: "unat (of_nat n :: u64) = n" "unat (of_nat ?N :: u64) = ?N"
    using b n N by (simp_all add: unat_of_nat64 del: unsigned_of_nat)
  obtain j a where j: "j < grabs w" "pa j (of_nat ?N) = Some a" "unat a \<le> unat p"
      "unat p + m \<le> unat a + ?N"
    using p unfolding grabbed_def by blast
  then have "(a, of_nat ?N) \<in> set (ranges w)" using ok by (auto simp: fix_ok_def)
  moreover have "unat a \<le> unat (p + of_nat i) \<and>
      unat (p + of_nat i) + unat (of_nat n :: u64) \<le> unat a + unat (of_nat ?N :: u64)"
    unfolding u un using j n by linarith
  ultimately show ?thesis unfolding accessible_def by blast
qed

lemma laid_block:
  assumes "fix_ok pa sz f w" and "laid pa sz (grabs w) X" and "p \<in> X"
  shows "unat p + sz \<le> 2 ^ 47" and "p \<noteq> 0" and "grabbed pa (chunk_bytes sz) (grabs w) p sz"
  using assms grabbed_bound [of pa "chunk_bytes sz" "grabs w" p sz]
  by (auto simp: fix_ok_def laid_def)


lemma chain_frame:
  assumes "chain (ld64 m) p xs" and "\<And>x i. x \<in> set xs \<Longrightarrow> i < 8 \<Longrightarrow> m' (x + of_nat i) = m (x + of_nat i)"
  shows "chain (ld64 m') p xs"
proof -
  have "chain (ld64 m') p xs = chain (ld64 m) p xs"
    using assms(2) by (intro chain_cong ld64_cong) blast
  then show ?thesis using assms(1) by simp
qed

section \<open>A block from the chunk\<close>

lemma fix_refill_spec:
  assumes ok: "fix_ok pa sz f w" and laid: "laid pa sz (grabs w) X" and sp: "spare pa sz X k f w"
    and r: "fix_refill pa f w = Inr (f', w')"
  obtains k' where "fix_ok pa sz f' w'"
    and "laid pa sz (grabs w') X" and "spare pa sz X (Suc k') f' w'"
    and "f_list f' = f_list f" and "f_inuse f' = f_inuse f"
    and "\<And>p i. p \<in> X \<Longrightarrow> i < sz \<Longrightarrow> mem w' (p + of_nat i) = mem w (p + of_nat i)"
proof (cases k)
  case (Suc k')
  have sz: "8 \<le> sz" "sz \<le> 16384" "f_size f = of_nat sz" using ok by (auto simp: fix_ok_def)
  have "unat (f_size f) = sz" using sz by (simp add: unat_of_nat64 del: unsigned_of_nat)
  then have "\<not> uint_to_long (f_nchunk f) < f_size f"
    using sp Suc by (simp add: word_less_nat_alt spare_def)
  then have "f' = f" "w' = w" using r by (simp_all add: fix_refill_def)
  then show ?thesis using that [of k'] ok laid sp Suc by blast
next
  case 0
  let ?N = "chunk_bytes sz"
  have sz: "8 \<le> sz" "sz \<le> 16384" "f_size f = of_nat sz" "f_nalloc f = of_nat ?N" "chunks_ok pa ?N"
    using ok by (auto simp: fix_ok_def)
  note N = chunk_bytes_bounds [OF sz(1,2)]
  have "unat (f_size f) = sz" using sz(2,3) by (simp add: unat_of_nat64 del: unsigned_of_nat)
  moreover have "unat (f_nchunk f) = 0" using sp 0 by (simp add: spare_def)
  ultimately have low: "uint_to_long (f_nchunk f) < f_size f" using sz(1) by (simp add: word_less_nat_alt)
  have uN: "unat (f_nalloc f) = ?N" unfolding sz(4) using N(2) by (intro unat_of_nat32) simp
  have un: "uint_to_long (f_nalloc f) = of_nat ?N"
    using uN N(2) by (intro unat_eqI) (simp add: unat_of_nat64 del: unsigned_of_nat)
  obtain a where pa: "pa (grabs w) (of_nat ?N) = Some a"
    using r low un by (cases "pa (grabs w) (of_nat ?N)") (simp_all add: fix_refill_def persistent_alloc_def)
  let ?f = "f\<lparr>f_chunk := a, f_nchunk := f_nalloc f\<rparr>"
  let ?w = "\<lparr>mem = fill (mem w) a 0 (of_nat ?N), ranges = (a, of_nat ?N) # ranges w, grabs = Suc (grabs w)\<rparr>"
  have eq: "f' = ?f" "w' = ?w"
    using r low un pa by (simp_all add: fix_refill_def persistent_alloc_def)
  obtain k' where k': "16384 div sz = Suc k'" using N(4) by (metis not0_implies_Suc less_not_refl)
  then have Nk: "?N = Suc k' * sz" by (simp add: chunk_bytes_def)
  have a: "unat a + ?N \<le> 2 ^ 47" using sz(5) pa unfolding chunks_ok_def by blast
  have cl: "clear p sz a ?N" if p: "p \<in> X" for p
  proof -
    obtain j b where j: "j < grabs w" "pa j (of_nat ?N) = Some b" "unat b \<le> unat p"
        "unat p + sz \<le> unat b + ?N"
      using laid p unfolding laid_def grabbed_def by blast
    have "j \<noteq> grabs w" using j(1) by simp
    then have "clear b ?N a ?N" using sz(5) j(2) pa unfolding chunks_ok_def by blast
    then show ?thesis using j(3,4) by (auto simp: clear_def)
  qed
  have "fix_ok pa sz ?f ?w" using ok pa by (auto simp: fix_ok_def less_Suc_eq)
  moreover have "laid pa sz (Suc (grabs w)) X"
    using laid grabbed_mono [of pa ?N "grabs w" _ sz "Suc (grabs w)"] by (auto simp: laid_def)
  moreover have "grabbed pa ?N (Suc (grabs w)) a ?N"
    unfolding grabbed_def using pa by (intro exI [of _ "grabs w"]) simp
  moreover have "mem ?w (a + of_nat i) = 0" if "i < ?N" for i
    using that N(2) by (simp only: arena.select_convs) (rule fill_inside, simp_all)
  moreover have "spare pa sz X (Suc k') ?f ?w"
    unfolding spare_def Nk [symmetric]
  proof (intro conjI impI ballI)
    show "unat (f_nchunk ?f) = ?N" using uN by simp
    show "clear p sz (f_chunk ?f) ?N" if "p \<in> X" for p using cl [OF that] by simp
    show "grabbed pa ?N (grabs ?w) (f_chunk ?f) ?N"
      using \<open>grabbed pa ?N (Suc (grabs w)) a ?N\<close> by simp
    show "\<forall>i < ?N. mem ?w (f_chunk ?f + of_nat i) = 0"
      using \<open>\<And>i. i < ?N \<Longrightarrow> mem ?w (a + of_nat i) = 0\<close> by simp
  qed
  moreover have "mem ?w (p + of_nat i) = mem w (p + of_nat i)" if "p \<in> X" "i < sz" for p i
    using fill_clear [OF cl [OF that(1)] that(2) _ a] laid_block(1) [OF ok laid that(1)] by simp
  ultimately show ?thesis by (intro that [of k']) (simp_all add: eq)
qed

lemma fix_refill_fault:
  "fix_refill pa f w = Inl e \<Longrightarrow> e = Throw ''runtime: cannot allocate memory''"
  by (auto simp: fix_refill_def persistent_alloc_def split: if_splits option.splits)

lemma carve_chunk:
  assumes ok: "fix_ok pa sz f w" and laid: "laid pa sz (grabs w) X" and sp: "spare pa sz X (Suc k) f w"
  defines "f' \<equiv> f\<lparr>f_chunk := f_chunk f + f_size f, f_nchunk := f_nchunk f - ucast (f_size f),
    f_inuse := f_inuse f + f_size f\<rparr>"
  shows "f_chunk f \<notin> X" and "fix_ok pa sz f' w" and "laid pa sz (grabs w) (insert (f_chunk f) X)"
    and "spare pa sz (insert (f_chunk f) X) k f' w"
    and "i < sz \<Longrightarrow> mem w (f_chunk f + of_nat i) = 0"
    and "ucast (uint_to_long (f_nchunk f) - f_size f) = f_nchunk f - ucast (f_size f)"
proof -
  let ?c = "f_chunk f"
  have sz: "8 \<le> sz" "sz \<le> 16384" "f_size f = of_nat sz" "chunks_ok pa (chunk_bytes sz)"
    using ok by (auto simp: fix_ok_def)
  have g: "grabbed pa (chunk_bytes sz) (grabs w) ?c (Suc k * sz)"
    and cl: "\<And>p. p \<in> X \<Longrightarrow> clear p sz ?c (Suc k * sz)"
    and z: "\<And>i. i < Suc k * sz \<Longrightarrow> mem w (?c + of_nat i) = 0"
    and n: "unat (f_nchunk f) = Suc k * sz"
    using sp by (auto simp: spare_def simp del: mult_Suc)
  have b: "unat ?c + Suc k * sz \<le> 2 ^ 47" using grabbed_bound [OF sz(4) g] by simp
  have us: "unat (f_size f) = sz" using sz(2,3) by (simp add: unat_of_nat64 del: unsigned_of_nat)
  have c': "unat (?c + f_size f) = unat ?c + sz"
    using b unfolding sz(3) by (intro unat_offset) simp
  show "?c \<notin> X" using cl sz(1) by (fastforce simp: clear_def)
  show "fix_ok pa sz f' w" using ok by (simp add: fix_ok_def f'_def)
  show "mem w (?c + of_nat i) = 0" if "i < sz" using z [of i] that by simp
  show "laid pa sz (grabs w) (insert ?c X)"
    unfolding laid_def
  proof (intro conjI ballI impI)
    show "grabbed pa (chunk_bytes sz) (grabs w) p sz" if "p \<in> insert ?c X" for p
      using that laid g unfolding laid_def grabbed_def by fastforce
    have new: "clear p sz ?c sz" if "p \<in> X" for p
      using cl [OF that] by (rule clear_sub) simp
    show "clear p sz q sz" if "p \<in> insert ?c X" "q \<in> insert ?c X" "p \<noteq> q" for p q
      using that laid new [of p] new [of q] clear_sym unfolding laid_def by blast
  qed
  have u32: "unat (ucast (f_size f) :: u32) = sz"
    using us sz(2) by (simp add: unsigned_ucast_eq take_bit_nat_eq_self)
  have n': "unat (f_nchunk f - ucast (f_size f)) = k * sz"
    using n u32 by (simp add: unat_sub word_le_nat_alt)
  show "ucast (uint_to_long (f_nchunk f) - f_size f) = f_nchunk f - ucast (f_size f)"
  proof (rule unat_eqI)
    have "unat (uint_to_long (f_nchunk f) - f_size f) = k * sz"
      using n us by (subst unat_sub_nowrap) simp_all
    moreover have "k * sz < 2 ^ 32" using n unat_lt32 [of "f_nchunk f"] by simp
    ultimately show "unat (ucast (uint_to_long (f_nchunk f) - f_size f) :: u32) =
        unat (f_nchunk f - ucast (f_size f))"
      unfolding n' by (simp only: unsigned_ucast_eq) (simp add: take_bit_nat_eq_self)
  qed
  show "spare pa sz (insert ?c X) k f' w"
    unfolding spare_def
  proof (intro conjI impI ballI allI)
    show "unat (f_nchunk f') = k * sz" using n' by (simp add: f'_def)
    show "grabbed pa (chunk_bytes sz) (grabs w) (f_chunk f') (k * sz)"
      using g c' unfolding grabbed_def f'_def by fastforce
    show "clear p sz (f_chunk f') (k * sz)" if "p \<in> insert ?c X" for p
      using that cl [of p] c' by (auto simp: clear_def f'_def)
    show "mem w (f_chunk f' + of_nat i) = 0" if "i < k * sz" for i
      using z [of "sz + i"] that sz(3) by (simp add: f'_def algebra_simps)
  qed
qed

end
