(* ===== verification/Fixalloc_Client.thy ===== *)
theory Fixalloc_Client
  imports Fixalloc_Inv
begin

text \<open>
  The operations of the Go version keep the invariant, which makes it an allocator for objects of
  its one size; the C version returns, for every block it carves, the address one block further.
\<close>

section \<open>Allocation\<close>

lemma dom_L: "dom (L(p \<mapsto> n)) = insert p (dom L)" "dom (L(p := None)) = dom L - {p}"
  by auto

lemma fvalidE:
  assumes "fvalid pa sz L (f, w)"
  obtains xs k where "fix_ok pa sz f w" and "finite (dom L)" and "ran L \<subseteq> {sz}"
    and "f_inuse f = of_nat (sz * card (dom L))" and "chain (ld64 (mem w)) (f_list f) xs"
    and "set xs \<inter> dom L = {}" and "laid pa sz (grabs w) (set xs \<union> dom L)"
    and "spare pa sz (set xs \<union> dom L) k f w"
  using assms by (auto simp: fvalid_def)

lemma fvalidI:
  assumes "fix_ok pa sz f w" and "finite (dom L)" and "ran L \<subseteq> {sz}"
    and "f_inuse f = of_nat (sz * card (dom L))" and "chain (ld64 (mem w)) (f_list f) xs"
    and "set xs \<inter> dom L = {}" and "laid pa sz (grabs w) (set xs \<union> dom L)"
    and "spare pa sz (set xs \<union> dom L) k f w"
  shows "fvalid pa sz L (f, w)"
  using assms by (auto simp: fvalid_def)

lemma ran_upd: "ran L \<subseteq> {n} \<Longrightarrow> ran (L(p \<mapsto> n)) \<subseteq> {n}" "ran L \<subseteq> {n} \<Longrightarrow> ran (L(p := None)) \<subseteq> {n}"
  by (auto simp: ran_def split: if_splits)

lemma inuse_add:
  assumes "finite X" and "p \<notin> X"
  shows "of_nat (sz * card X) + of_nat sz = (of_nat (sz * card (insert p X)) :: u64)"
  using assms by simp

lemma inuse_sub:
  assumes "finite X" and "p \<in> X"
  shows "of_nat (sz * card X) - of_nat sz = (of_nat (sz * card (X - {p})) :: u64)"
proof -
  have "card X = Suc (card (X - {p}))" using assms by (rule card.remove)
  then have "sz * card X = sz * card (X - {p}) + sz" by simp
  then show ?thesis by (simp only: of_nat_add add_diff_cancel_right')
qed

lemma fix_ok_size:
  assumes "fix_ok pa sz f w"
  shows "unat (f_size f) = sz" and "f_size f \<noteq> 0" and "8 \<le> sz" and "f_size f = of_nat sz"
proof -
  show sz: "8 \<le> sz" "f_size f = of_nat sz" using assms by (auto simp: fix_ok_def)
  have "sz \<le> 16384" using assms by (simp add: fix_ok_def)
  then show u: "unat (f_size f) = sz" unfolding sz(2) by (intro unat_of_nat64) simp
  then show "f_size f \<noteq> 0" using sz(1) by auto
qed

lemma go_alloc_carve:
  assumes v: "fvalid pa sz L (f, w)" and nil: "f_list f = 0"
    and r0: "fix_refill pa f w = Inr r"
  shows "\<exists>p f' w'. go_alloc pa f w = Inr (p, f', w') \<and>
    fix_alloc pa f w = Inr (p + of_nat sz, f', w') \<and> p \<noteq> 0 \<and> L p = None \<and>
    fvalid pa sz (L(p \<mapsto> sz)) (f', w') \<and> (\<forall>i < sz. mem w' (p + of_nat i) = 0) \<and>
    (\<forall>q \<in> dom L. \<forall>i < sz. mem w' (q + of_nat i) = mem w (q + of_nat i))"
proof -
  obtain xs k where inv: "fix_ok pa sz f w" "finite (dom L)" "ran L \<subseteq> {sz}"
      "f_inuse f = of_nat (sz * card (dom L))" "chain (ld64 (mem w)) (f_list f) xs"
      "set xs \<inter> dom L = {}" "laid pa sz (grabs w) (set xs \<union> dom L)"
      "spare pa sz (set xs \<union> dom L) k f w"
    using v by (rule fvalidE)
  have "xs = []" using inv(5) nil by simp
  then have X: "set xs \<union> dom L = dom L" by simp
  obtain f1 w1 where fw: "fix_refill pa f w = Inr (f1, w1)" using r0 by (cases r) simp
  obtain k' where r: "fix_ok pa sz f1 w1"
      "laid pa sz (grabs w1) (dom L)" "spare pa sz (dom L) (Suc k') f1 w1"
      "f_list f1 = f_list f" "f_inuse f1 = f_inuse f"
      "\<And>p i. p \<in> dom L \<Longrightarrow> i < sz \<Longrightarrow> mem w1 (p + of_nat i) = mem w (p + of_nat i)"
    using fix_refill_spec [OF inv(1) inv(7,8) [unfolded X] fw] by metis
  note c = carve_chunk [OF r(1,2,3)]
  let ?p = "f_chunk f1"
  let ?f = "f1\<lparr>f_chunk := f_chunk f1 + f_size f1, f_nchunk := f_nchunk f1 - ucast (f_size f1),
    f_inuse := f_inuse f1 + f_size f1\<rparr>"
  have sz0: "f_size f \<noteq> 0" "f_size f1 = of_nat sz"
    using fix_ok_size [OF inv(1)] fix_ok_size [OF r(1)] by simp_all
  have go: "go_alloc pa f w = Inr (?p, ?f, w1)" using sz0(1) nil fw by (simp add: go_alloc_def Let_def)
  have cc: "fix_alloc pa f w = Inr (?p + of_nat sz, ?f, w1)"
    using sz0 nil fw c(6) by (simp add: fix_alloc_def Let_def)
  have "?p \<noteq> 0" using laid_block(2) [OF c(2,3)] by simp
  moreover have "L ?p = None" using c(1) by auto
  moreover have "fvalid pa sz (L(?p \<mapsto> sz)) (?f, w1)"
  proof (rule fvalidI [OF c(2), where xs = "[]"])
    show "finite (dom (L(?p \<mapsto> sz)))" using inv(2) by (simp only: dom_L) simp
    show "ran (L(?p \<mapsto> sz)) \<subseteq> {sz}" using inv(3) by (rule ran_upd)
    show "f_inuse ?f = of_nat (sz * card (dom (L(?p \<mapsto> sz))))"
      using inuse_add [OF inv(2) c(1)] inv(4) r(5) sz0(2) unfolding dom_L by simp
    show "chain (ld64 (mem w1)) (f_list ?f) []" using r(4) nil by simp
    show "laid pa sz (grabs w1) (set [] \<union> dom (L(?p \<mapsto> sz)))" using c(3) unfolding dom_L by simp
    show "spare pa sz (set [] \<union> dom (L(?p \<mapsto> sz))) k' ?f w1" using c(4) unfolding dom_L by simp
  qed simp
  ultimately show ?thesis using go cc c(5) r(6) by blast
qed

lemma go_alloc_refused:
  assumes "f_list f = 0" and "f_size f \<noteq> 0" and "fix_refill pa f w = Inl e"
  shows "go_alloc pa f w = Inl e" and "fix_alloc pa f w = Inl e"
  using assms by (simp_all add: go_alloc_def fix_alloc_def)

text \<open>Clearing a block leaves the rest of the chunk as it is.\<close>

lemma spare_clear_block:
  assumes ok: "fix_ok pa sz f w" and laid: "laid pa sz (grabs w) X" and p: "p \<in> X" and sp: "spare pa sz X k f w"
  shows "spare pa sz X k (f\<lparr>f_list := l, f_inuse := u\<rparr>) (w\<lparr>mem := fill (mem w) p 0 (of_nat sz)\<rparr>)"
  unfolding spare_def
proof (intro conjI impI allI)
  fix i assume k: "k \<noteq> 0" and i: "i < k * sz"
  have c: "clear p sz (f_chunk f) (k * sz)" "mem w (f_chunk f + of_nat i) = 0"
      "grabbed pa (chunk_bytes sz) (grabs w) (f_chunk f) (k * sz)"
    using sp k i p by (auto simp: spare_def)
  have "chunks_ok pa (chunk_bytes sz)" using ok by (simp add: fix_ok_def)
  then have "unat (f_chunk f) + k * sz \<le> 2 ^ 47" using grabbed_bound c(3) by blast
  then have "fill (mem w) p 0 (of_nat sz) (f_chunk f + of_nat i) = mem w (f_chunk f + of_nat i)"
    using c(1) i laid_block(1) [OF ok laid p] clear_sym by (intro fill_clear) blast+
  then show "mem (w\<lparr>mem := fill (mem w) p 0 (of_nat sz)\<rparr>) (f_chunk (f\<lparr>f_list := l, f_inuse := u\<rparr>) + of_nat i) = 0"
    using c(2) by simp
qed (use sp in \<open>auto simp: spare_def\<close>)

lemma go_alloc_pop:
  assumes v: "fvalid pa sz L (f, w)" and list: "f_list f \<noteq> 0"
  shows "\<exists>p f' w'. go_alloc pa f w = Inr (p, f', w') \<and>
    fix_alloc pa f w = Inr (p, f', w') \<and> p \<noteq> 0 \<and> L p = None \<and>
    fvalid pa sz (L(p \<mapsto> sz)) (f', w') \<and> (\<forall>i < sz. mem w' (p + of_nat i) = 0) \<and>
    (\<forall>q \<in> dom L. \<forall>i < sz. mem w' (q + of_nat i) = mem w (q + of_nat i))"
proof -
  obtain xs k where inv: "fix_ok pa sz f w" "finite (dom L)" "ran L \<subseteq> {sz}"
      "f_inuse f = of_nat (sz * card (dom L))" "chain (ld64 (mem w)) (f_list f) xs"
      "set xs \<inter> dom L = {}" "laid pa sz (grabs w) (set xs \<union> dom L)"
      "spare pa sz (set xs \<union> dom L) k f w"
    using v by (rule fvalidE)
  let ?p = "f_list f" and ?nx = "ld64 (mem w) (f_list f)"
  obtain ys where ys: "xs = ?p # ys" "chain (ld64 (mem w)) ?nx ys"
    using chain_nonnull [OF inv(5) list] by auto
  let ?X = "set xs \<union> dom L"
  have p: "?p \<in> ?X" "L ?p = None" using ys(1) inv(6) by auto
  note sz = fix_ok_size [OF inv(1)]
  note blk = laid_block [OF inv(1,7)]
  have acc: "accessible w ?p 8" "accessible w ?p (f_size f)"
    using grabbed_accessible [OF inv(1) blk(3) [OF p(1)], of 0 8]
      grabbed_accessible [OF inv(1) blk(3) [OF p(1)], of 0 sz] sz(3,4) by simp_all
  let ?m = "fill (mem w) ?p 0 (of_nat sz)"
  let ?f = "f\<lparr>f_list := ?nx, f_inuse := f_inuse f + f_size f\<rparr>" and ?w = "w\<lparr>mem := ?m\<rparr>"
  have z: "f_zero f \<noteq> 0" using inv(1) by (simp add: fix_ok_def)
  have pop: "fix_pop f w = Inr (?p, ?f, ?w)"
    using acc z sz(4) by (simp add: fix_pop_def mem_next_def memclr_def Let_def)
  have go: "go_alloc pa f w = Inr (?p, ?f, ?w)" "fix_alloc pa f w = Inr (?p, ?f, ?w)"
    using sz(2) list pop by (simp_all add: go_alloc_def fix_alloc_def)
  have zero: "?m (?p + of_nat i) = 0" if "i < sz" for i
    using that blk(1) [OF p(1)] by (intro fill_inside) simp_all
  have other: "?m (q + of_nat i) = mem w (q + of_nat i)" if "q \<in> ?X" "q \<noteq> ?p" "i < sz" for q i
    using that inv(7) p(1) blk(1) by (intro fill_clear) (auto simp: laid_def)
  have notin: "?p \<notin> set ys" using chain_distinct [OF inv(5)] ys(1) by simp
  have X: "set ys \<union> dom (L(?p \<mapsto> sz)) = ?X" unfolding dom_L using ys(1) by auto
  have "fvalid pa sz (L(?p \<mapsto> sz)) (?f, ?w)"
  proof (rule fvalidI)
    show "fix_ok pa sz ?f ?w" using inv(1) by (simp add: fix_ok_def)
    show "finite (dom (L(?p \<mapsto> sz)))" using inv(2) by (simp only: dom_L) simp
    show "ran (L(?p \<mapsto> sz)) \<subseteq> {sz}" using inv(3) by (rule ran_upd)
    have "?p \<notin> dom L" using p(2) by auto
    then show "f_inuse ?f = of_nat (sz * card (dom (L(?p \<mapsto> sz))))"
      using inuse_add [OF inv(2)] inv(4) sz(4) unfolding dom_L by simp
    show "chain (ld64 (mem ?w)) (f_list ?f) ys"
    proof -
      have "chain (ld64 ?m) ?nx ys"
      proof (rule chain_frame [OF ys(2)])
        fix x and i :: nat assume "x \<in> set ys" "i < 8"
        then show "?m (x + of_nat i) = mem w (x + of_nat i)"
          using notin ys(1) sz(3) by (intro other) auto
      qed
      then show ?thesis by simp
    qed
    show "set ys \<inter> dom (L(?p \<mapsto> sz)) = {}" unfolding dom_L using notin inv(6) ys(1) by auto
    show "laid pa sz (grabs ?w) (set ys \<union> dom (L(?p \<mapsto> sz)))" unfolding X using inv(7) by simp
    show "spare pa sz (set ys \<union> dom (L(?p \<mapsto> sz))) k ?f ?w"
      unfolding X by (rule spare_clear_block [OF inv(1,7) p(1) inv(8)])
  qed
  moreover have "\<forall>q \<in> dom L. \<forall>i < sz. mem ?w (q + of_nat i) = mem w (q + of_nat i)"
  proof (intro ballI allI impI)
    fix q i assume "q \<in> dom L" "i < sz"
    moreover from this have "q \<noteq> ?p" using p(2) by auto
    ultimately show "mem ?w (q + of_nat i) = mem w (q + of_nat i)" using other [of q i] by simp
  qed
  ultimately show ?thesis using go list p(2) zero
    by (intro exI [of _ ?p] exI [of _ ?f] exI [of _ ?w]) simp
qed

section \<open>Release and store\<close>

lemma fix_dealloc_ok:
  assumes v: "fvalid pa sz L (f, w)" and p: "L p = Some n"
  shows "\<exists>f' w'. fix_dealloc p f w = Inr (f', w') \<and> fvalid pa sz (L(p := None)) (f', w') \<and>
    f_list f' = p \<and> (\<forall>q \<in> dom L. q \<noteq> p \<longrightarrow> (\<forall>i < sz. mem w' (q + of_nat i) = mem w (q + of_nat i)))"
proof -
  obtain xs k where inv: "fix_ok pa sz f w" "finite (dom L)" "ran L \<subseteq> {sz}"
      "f_inuse f = of_nat (sz * card (dom L))" "chain (ld64 (mem w)) (f_list f) xs"
      "set xs \<inter> dom L = {}" "laid pa sz (grabs w) (set xs \<union> dom L)"
      "spare pa sz (set xs \<union> dom L) k f w"
    using v by (rule fvalidE)
  let ?X = "set xs \<union> dom L"
  have pX: "p \<in> ?X" "p \<in> dom L" "p \<notin> set xs" using p inv(6) by auto
  note sz = fix_ok_size [OF inv(1)]
  note blk = laid_block [OF inv(1,7)]
  have acc: "accessible w p 8"
    using grabbed_accessible [OF inv(1) blk(3) [OF pX(1)], of 0 8] sz(3) by simp
  let ?m = "st64 (mem w) p (f_list f)"
  let ?f = "f\<lparr>f_inuse := f_inuse f - f_size f, f_list := p\<rparr>" and ?w = "w\<lparr>mem := ?m\<rparr>"
  have eq: "fix_dealloc p f w = Inr (?f, ?w)"
    using acc by (simp add: fix_dealloc_def set_mem_next_def Let_def)
  have p47: "unat p + 8 \<le> 2 ^ 47" using blk(1) [OF pX(1)] sz(3) by simp
  have apart: "clear q sz p 8" if "q \<in> ?X" "q \<noteq> p" for q
    using that inv(7) pX(1) sz(3) clear_sub unfolding laid_def by blast
  have other: "?m (q + of_nat i) = mem w (q + of_nat i)" if "q \<in> ?X" "q \<noteq> p" "i < sz" for q i
    using that apart blk(1) p47 by (intro st64_clear) auto
  have "fvalid pa sz (L(p := None)) (?f, ?w)"
  proof (rule fvalidI [where xs = "p # xs"])
    show "fix_ok pa sz ?f ?w" using inv(1) by (simp add: fix_ok_def)
    show "finite (dom (L(p := None)))" using inv(2) by (simp only: dom_L) simp
    show "ran (L(p := None)) \<subseteq> {sz}" using inv(3) by (rule ran_upd)
    show "f_inuse ?f = of_nat (sz * card (dom (L(p := None))))"
      using inuse_sub [OF inv(2) pX(2)] inv(4) sz(4) unfolding dom_L by simp
    have "apart p x" if "x \<in> set xs" for x
    proof (rule clear_apart)
      have "p \<noteq> x" using that pX(3) by auto
      then show "clear p sz x sz" using that pX(1) inv(7) unfolding laid_def by blast
    qed (use that pX(1) blk(1) sz(3) in auto)
    then have "chain (ld64 ?m) p (p # xs)"
      using inv(5) blk(2) [OF pX(1)] by (intro byte_cells.chain_push) auto
    then show "chain (ld64 (mem ?w)) (f_list ?f) (p # xs)" by simp
    show "set (p # xs) \<inter> dom (L(p := None)) = {}" unfolding dom_L using inv(6) by auto
    have X: "set (p # xs) \<union> dom (L(p := None)) = ?X" unfolding dom_L using pX(2) by auto
    show "laid pa sz (grabs ?w) (set (p # xs) \<union> dom (L(p := None)))" unfolding X using inv(7) by simp
    show "spare pa sz (set (p # xs) \<union> dom (L(p := None))) k ?f ?w"
      unfolding X spare_def
    proof (intro conjI impI allI)
      fix i assume k: "k \<noteq> 0" and i: "i < k * sz"
      have sp: "clear p sz (f_chunk f) (k * sz)" "mem w (f_chunk f + of_nat i) = 0"
          "grabbed pa (chunk_bytes sz) (grabs w) (f_chunk f) (k * sz)"
        using inv(8) k i pX(1) by (auto simp: spare_def)
      have "chunks_ok pa (chunk_bytes sz)" using inv(1) by (simp add: fix_ok_def)
      then have b: "unat (f_chunk f) + k * sz \<le> 2 ^ 47" using grabbed_bound sp(3) by blast
      have "clear (f_chunk f) (k * sz) p 8"
        using sp(1) clear_sym clear_sub sz(3) by blast
      then have "?m (f_chunk f + of_nat i) = mem w (f_chunk f + of_nat i)"
        using i b p47 by (rule st64_clear)
      then show "mem ?w (f_chunk ?f + of_nat i) = 0" using sp(2) by simp
    qed (use inv(8) in \<open>auto simp: spare_def\<close>)
  qed
  moreover have "\<forall>q \<in> dom L. q \<noteq> p \<longrightarrow> (\<forall>i < sz. mem ?w (q + of_nat i) = mem w (q + of_nat i))"
    using other by auto
  ultimately show ?thesis using eq by (intro exI [of _ ?f] exI [of _ ?w]) simp
qed


definition fpoke :: "u64 \<Rightarrow> u8 \<Rightarrow> fixalloc \<times> arena \<Rightarrow> (fixalloc \<times> arena) option" where
  "fpoke a v fw = (case fw of (f, w) \<Rightarrow>
     if accessible w a 1 then Some (f, w\<lparr>mem := (mem w)(a := v)\<rparr>) else None)"

definition fpeek :: "fixalloc \<times> arena \<Rightarrow> u64 \<Rightarrow> u8" where
  "fpeek fw a = mem (snd fw) a"

lemma fpoke_ok:
  assumes v: "fvalid pa sz L fw" and p: "L p = Some n" and i: "i < n"
  shows "\<exists>fw'. fpoke (p + of_nat i) b fw = Some fw' \<and> fvalid pa sz L fw' \<and>
    (\<forall>x. fpeek fw' x = (if x = p + of_nat i then b else fpeek fw x))"
proof -
  obtain f w where fw: "fw = (f, w)" by (cases fw)
  obtain xs k where inv: "fix_ok pa sz f w" "finite (dom L)" "ran L \<subseteq> {sz}"
      "f_inuse f = of_nat (sz * card (dom L))" "chain (ld64 (mem w)) (f_list f) xs"
      "set xs \<inter> dom L = {}" "laid pa sz (grabs w) (set xs \<union> dom L)"
      "spare pa sz (set xs \<union> dom L) k f w"
    using v unfolding fw by (rule fvalidE)
  let ?X = "set xs \<union> dom L"
  have n: "n = sz" using inv(3) p by (auto simp: ran_def)
  have pX: "p \<in> ?X" "p \<notin> set xs" using p inv(6) by auto
  note sz = fix_ok_size [OF inv(1)]
  note blk = laid_block [OF inv(1,7)]
  have acc: "accessible w (p + of_nat i) 1"
    using grabbed_accessible [OF inv(1) blk(3) [OF pX(1)], of i 1] i n by simp
  have up: "unat (p + of_nat i) = unat p + i" using blk(1) [OF pX(1)] i n by (intro unat_offset) simp
  let ?m = "(mem w)(p + of_nat i := b)" and ?w = "w\<lparr>mem := (mem w)(p + of_nat i := b)\<rparr>"
  have away: "?m (q + of_nat j) = mem w (q + of_nat j)"
    if "clear p sz q m" "j < m" "unat q + m \<le> 2 ^ 47" for q m j
  proof -
    have "unat (q + of_nat j) = unat q + j" using that by (intro unat_offset) simp
    then show ?thesis using that(1,2) up i n by (auto simp: clear_def)
  qed
  have "fvalid pa sz L (f, ?w)"
  proof (rule fvalidI [OF _ inv(2,3,4) _ inv(6)])
    show "fix_ok pa sz f ?w" using inv(1) by (simp add: fix_ok_def)
    have "chain (ld64 ?m) (f_list f) xs"
    proof (rule chain_frame [OF inv(5)])
      fix x and j :: nat assume x: "x \<in> set xs" "j < 8"
      then have "p \<noteq> x" using pX(2) by auto
      then have "clear p sz x sz" using x pX(1) inv(7) unfolding laid_def by blast
      then show "?m (x + of_nat j) = mem w (x + of_nat j)"
        using x sz(3) blk(1) [of x] by (intro away) auto
    qed
    then show "chain (ld64 (mem ?w)) (f_list f) xs" by simp
    show "laid pa sz (grabs ?w) ?X" using inv(7) by simp
    show "spare pa sz ?X k f ?w"
      unfolding spare_def
    proof (intro conjI impI allI)
      fix j assume k: "k \<noteq> 0" and j: "j < k * sz"
      have sp: "clear p sz (f_chunk f) (k * sz)" "mem w (f_chunk f + of_nat j) = 0"
          "grabbed pa (chunk_bytes sz) (grabs w) (f_chunk f) (k * sz)"
        using inv(8) k j pX(1) by (auto simp: spare_def)
      have "chunks_ok pa (chunk_bytes sz)" using inv(1) by (simp add: fix_ok_def)
      then have "unat (f_chunk f) + k * sz \<le> 2 ^ 47" using grabbed_bound sp(3) by blast
      then show "mem ?w (f_chunk f + of_nat j) = 0" using away [OF sp(1) j] sp(2) by simp
    qed (use inv(8) in \<open>auto simp: spare_def\<close>)
  qed
  then show ?thesis using acc fw by (intro exI [of _ "(f, ?w)"]) (simp add: fpoke_def fpeek_def)
qed

section \<open>The laws\<close>

text \<open>The operations as partial functions: a fault is \<^term>\<open>None\<close>.\<close>

definition go_alloc_op :: "(nat \<Rightarrow> u64 \<Rightarrow> u64 option) \<Rightarrow> unit \<Rightarrow> fixalloc \<times> arena \<Rightarrow> (u64 \<times> fixalloc \<times> arena) option" where
  "go_alloc_op pa r fw = (case fw of (f, w) \<Rightarrow>
     (case go_alloc pa f w of Inl _ \<Rightarrow> None | Inr q \<Rightarrow> Some q))"

definition go_free_op :: "u64 \<Rightarrow> fixalloc \<times> arena \<Rightarrow> (fixalloc \<times> arena) option" where
  "go_free_op p fw = (case fw of (f, w) \<Rightarrow>
     (case fix_dealloc p f w of Inl _ \<Rightarrow> None | Inr q \<Rightarrow> Some q))"

lemma go_alloc_valid:
  assumes v: "fvalid pa sz L (f, w)"
  shows "go_alloc pa f w = Inl (Throw ''runtime: cannot allocate memory'') \<or>
    (\<exists>p f' w'. go_alloc pa f w = Inr (p, f', w') \<and> p \<noteq> 0 \<and> L p = None \<and>
       fvalid pa sz (L(p \<mapsto> sz)) (f', w') \<and> (\<forall>i < sz. mem w' (p + of_nat i) = 0) \<and>
       (\<forall>q \<in> dom L. \<forall>i < sz. mem w' (q + of_nat i) = mem w (q + of_nat i)))"
proof (cases "f_list f = 0")
  case True
  have "fix_ok pa sz f w" using v by (rule fvalidE)
  then have sz: "f_size f \<noteq> 0" by (rule fix_ok_size(2))
  show ?thesis
  proof (cases "fix_refill pa f w")
    case (Inl e)
    then show ?thesis using go_alloc_refused(1) [OF True sz Inl] fix_refill_fault by simp
  next
    case (Inr r)
    then show ?thesis using go_alloc_carve [OF v True Inr] by blast
  qed
next
  case False
  then show ?thesis using go_alloc_pop [OF v False] by blast
qed

lemma go_alloc_law:
  assumes "fvalid pa sz L fw" and "go_alloc_op pa r fw = Some (p, fw')"
  shows "L p = None \<and> fvalid pa sz (if p = 0 then L else L(p \<mapsto> sz)) fw' \<and>
    (\<forall>q n i. L q = Some n \<longrightarrow> i < n \<longrightarrow> fpeek fw' (q + of_nat i) = fpeek fw (q + of_nat i))"
proof -
  obtain f w where fw: "fw = (f, w)" by (cases fw)
  have size: "n = sz" if "L q = Some n" for q n
    using assms(1) that unfolding fw by (auto simp: fvalid_def ran_def)
  have "go_alloc pa f w = Inr (p, fw')"
    using assms(2) fw by (simp add: go_alloc_op_def split: sum.splits)
  then show ?thesis
    using size go_alloc_valid [OF assms(1) [unfolded fw]] fw by (auto simp: fpeek_def dom_def)
qed

lemma go_free_law:
  assumes "fvalid pa sz L fw" and "L p = Some n"
  shows "\<exists>fw'. go_free_op p fw = Some fw' \<and> fvalid pa sz (L(p := None)) fw' \<and>
    (\<forall>q n i. L q = Some n \<longrightarrow> q \<noteq> p \<longrightarrow> i < n \<longrightarrow>
       fpeek fw' (q + of_nat i) = fpeek fw (q + of_nat i))"
proof -
  obtain f w where fw: "fw = (f, w)" by (cases fw)
  have size: "m = sz" if "L q = Some m" for q m
    using assms(1) that unfolding fw by (auto simp: fvalid_def ran_def)
  obtain f' w' where "fix_dealloc p f w = Inr (f', w')" "fvalid pa sz (L(p := None)) (f', w')"
      "\<forall>q \<in> dom L. q \<noteq> p \<longrightarrow> (\<forall>i < sz. mem w' (q + of_nat i) = mem w (q + of_nat i))"
    using fix_dealloc_ok [OF assms(1) [unfolded fw] assms(2)] by blast
  then show ?thesis
    using size fw by (intro exI [of _ "(f', w')"]) (auto simp: go_free_op_def fpeek_def dom_def)
qed

lemma go_space_law:
  assumes "fvalid pa sz L fw" and "L p = Some n"
  shows "p \<noteq> 0 \<and> unat p + n \<le> 2 ^ 47"
proof -
  obtain f w where fw: "fw = (f, w)" by (cases fw)
  obtain xs where inv: "fix_ok pa sz f w" "laid pa sz (grabs w) (set xs \<union> dom L)" "ran L \<subseteq> {sz}"
    using assms(1) unfolding fw by (rule fvalidE)
  have "n = sz" "p \<in> set xs \<union> dom L" using inv(3) assms(2) by (auto simp: ran_def)
  then show ?thesis using laid_block(1,2) [OF inv(1,2)] by blast
qed

lemma go_disjoint_law:
  assumes "fvalid pa sz L fw" and "L p = Some n" and "L q = Some m" and "p \<noteq> q"
  shows "unat p + n \<le> unat q \<or> unat q + m \<le> unat p"
proof -
  obtain f w where fw: "fw = (f, w)" by (cases fw)
  obtain xs where inv: "laid pa sz (grabs w) (set xs \<union> dom L)" "ran L \<subseteq> {sz}"
    using assms(1) unfolding fw by (rule fvalidE)
  have "n = sz" "m = sz" "p \<in> dom L" "q \<in> dom L" using inv(2) assms(2,3) by (auto simp: ran_def)
  then show ?thesis using inv(1) assms(4) unfolding laid_def clear_def by blast
qed

lemma go_never_null:
  assumes "fvalid pa sz L fw" and "go_alloc_op pa r fw = Some (p, fw')"
  shows "p \<noteq> 0"
proof -
  obtain f w f' w' where fw: "fw = (f, w)" "fw' = (f', w')" by (cases fw; cases fw')
  then have "go_alloc pa f w = Inr (p, f', w')"
    using assms(2) by (auto simp: go_alloc_op_def split: sum.splits)
  then show ?thesis using go_alloc_valid [of pa sz L f w] assms(1) fw by auto
qed

interpretation go_heap:
  diverging_allocator "go_alloc_op pa" go_free_op fpoke fpeek "\<lambda>_. sz" "fvalid pa sz" for pa sz
proof unfold_locales
qed (fact go_alloc_law go_free_law fpoke_ok go_space_law go_disjoint_law go_never_null)+

text \<open>An initialised allocator has no objects.\<close>

definition no_arena :: arena where
  "no_arena = \<lparr>mem = (\<lambda>_. 0), ranges = [], grabs = 0\<rparr>"

lemma fix_init_valid:
  assumes "unat n \<le> 16384" and "chunks_ok pa (chunk_bytes (max 8 (unat n)))"
  obtains f where "fix_init n = Inr f" and "fvalid pa (max 8 (unat n)) (\<lambda>_. None) (f, no_arena)"
    and "f_list f = 0"
proof -
  let ?sz = "max 8 (unat n)"
  obtain f where f: "fix_init n = Inr f" "unat (f_size f) = ?sz" "unat (f_nalloc f) = chunk_bytes ?sz"
      "f_list f = 0" "f_nchunk f = 0" "f_inuse f = 0" "f_zero f = 1"
    using fix_init_ok [OF assms(1)] by auto
  have N: "chunk_bytes ?sz \<le> 16384" using chunk_bytes_bounds(2) assms(1) by simp
  have s: "f_size f = of_nat ?sz"
    using f(2) assms(1) by (intro unat_eqI) (simp add: unat_of_nat64 del: unsigned_of_nat)
  have na: "f_nalloc f = of_nat (chunk_bytes ?sz)"
    using f(3) N by (intro unat_eqI) (simp add: unat_of_nat32 del: unsigned_of_nat)
  have "fvalid pa ?sz (\<lambda>_. None) (f, no_arena)"
  proof (rule fvalidI [where xs = "[]" and k = 0])
    show "fix_ok pa ?sz f no_arena"
      unfolding fix_ok_def using assms s na f(7) by (auto simp: no_arena_def)
    show "spare pa ?sz (set [] \<union> dom (\<lambda>_. None)) 0 f no_arena" using f(5) by (simp add: spare_def)
  qed (use f in \<open>auto simp: laid_def\<close>)
  then show ?thesis using f(1,4) that by blast
qed

section \<open>A fresh chunk\<close>

text \<open>The addresses of \<open>k\<close> allocations in a row.\<close>

primrec allocs :: "(fixalloc \<Rightarrow> arena \<Rightarrow> fault + (u64 \<times> fixalloc \<times> arena)) \<Rightarrow> nat \<Rightarrow> fixalloc \<Rightarrow> arena \<Rightarrow>
    fault + (u64 list \<times> fixalloc \<times> arena)" where
  "allocs alloc 0 f w = Inr ([], f, w)"
| "allocs alloc (Suc k) f w =
     and_then (alloc f w) (\<lambda>(p, f, w).
     and_then (allocs alloc k f w) (\<lambda>(ps, f, w). Inr (p # ps, f, w)))"

text \<open>\<open>m\<close> blocks are left in the chunk, and nothing is on the list.\<close>

definition carving :: "nat \<Rightarrow> nat \<Rightarrow> fixalloc \<Rightarrow> bool" where
  "carving sz m f \<longleftrightarrow> 8 \<le> sz \<and> f_list f = 0 \<and> f_size f = of_nat sz \<and> unat (f_size f) = sz \<and>
     unat (f_nchunk f) = m * sz"

lemma carving_step:
  assumes "carving sz (Suc m) f"
  shows "\<exists>f'. go_alloc pa f w = Inr (f_chunk f, f', w) \<and>
    fix_alloc pa f w = Inr (f_chunk f + of_nat sz, f', w) \<and>
    carving sz m f' \<and> f_chunk f' = f_chunk f + of_nat sz"
proof -
  have f: "8 \<le> sz" "f_list f = 0" "f_size f = of_nat sz" "unat (f_size f) = sz"
      "unat (f_nchunk f) = Suc m * sz"
    using assms unfolding carving_def by blast+
  have lt: "Suc m * sz < 2 ^ 32" using unat_lt32 [of "f_nchunk f"] f(5) by simp
  have nz: "f_size f \<noteq> 0" using f(1,4) by auto
  have "\<not> uint_to_long (f_nchunk f) < f_size f" using f(4,5) by (simp add: word_less_nat_alt)
  then have r: "fix_refill pa f w = Inr (f, w)" by (simp add: fix_refill_def)
  have d: "unat (uint_to_long (f_nchunk f) - f_size f) = m * sz"
    using f(4,5) by (subst unat_sub_nowrap) simp_all
  have n: "unat (ucast (uint_to_long (f_nchunk f) - f_size f) :: u32) = m * sz"
    using d lt by (simp only: unsigned_ucast_eq) (simp add: take_bit_nat_eq_self)
  have u: "unat (ucast (f_size f) :: u32) = sz"
    using f(4) lt by (simp only: unsigned_ucast_eq) (simp add: take_bit_nat_eq_self)
  have n': "unat (f_nchunk f - ucast (f_size f)) = m * sz"
    using f(5) u by (simp add: unat_sub word_le_nat_alt)
  have eq: "ucast (uint_to_long (f_nchunk f) - f_size f) = f_nchunk f - ucast (f_size f)"
    using n n' by (intro unat_eqI) (simp only:)
  let ?f = "f\<lparr>f_chunk := f_chunk f + f_size f, f_nchunk := f_nchunk f - ucast (f_size f),
    f_inuse := f_inuse f + f_size f\<rparr>"
  have "carving sz m ?f" using f n' by (simp add: carving_def)
  then show ?thesis using r nz f(2,3) eq
    by (intro exI [of _ ?f]) (simp add: go_alloc_def fix_alloc_def Let_def)
qed

lemma carving_allocs:
  assumes "carving sz m f" and "k \<le> m"
  shows "\<exists>f'. allocs (go_alloc pa) k f w = Inr (map (\<lambda>i. f_chunk f + of_nat (i * sz)) [0..<k], f', w) \<and>
    allocs (fix_alloc pa) k f w = Inr (map (\<lambda>i. f_chunk f + of_nat (Suc i * sz)) [0..<k], f', w)"
  using assms
proof (induction k arbitrary: m f)
  case 0
  then show ?case by simp
next
  case (Suc k)
  obtain m' where m: "m = Suc m'" using Suc.prems(2) by (cases m) auto
  obtain f1 where f1: "go_alloc pa f w = Inr (f_chunk f, f1, w)"
      "fix_alloc pa f w = Inr (f_chunk f + of_nat sz, f1, w)" "carving sz m' f1"
      "f_chunk f1 = f_chunk f + of_nat sz"
    using carving_step [OF Suc.prems(1) [unfolded m]] by blast
  obtain f2 where f2:
      "allocs (go_alloc pa) k f1 w = Inr (map (\<lambda>i. f_chunk f1 + of_nat (i * sz)) [0..<k], f2, w)"
      "allocs (fix_alloc pa) k f1 w = Inr (map (\<lambda>i. f_chunk f1 + of_nat (Suc i * sz)) [0..<k], f2, w)"
    using Suc.IH [OF f1(3)] Suc.prems(2) m by auto
  have unroll: "map g [0..<Suc k] = g 0 # map (\<lambda>i. g (Suc i)) [0..<k]" for g :: "nat \<Rightarrow> u64"
    by (simp only: upt_conv_Cons [OF zero_less_Suc] list.map map_Suc_upt [symmetric] map_map comp_def)
  then show ?case
    using f1(1,2) f2 f1(4)
    by (intro exI [of _ f2]) (simp del: upt_Suc add: unroll add.assoc distrib_right)
qed

text \<open>The first allocation gets the chunk.\<close>

lemma first_chunk:
  assumes init: "fix_init n = Inr f" and pa: "pa 0 (of_nat (chunk_bytes (max 8 (unat n)))) = Some a"
  obtains f1 w1 where "fix_refill pa f no_arena = Inr (f1, w1)" and "f_chunk f1 = a"
    and "carving (max 8 (unat n)) (16384 div max 8 (unat n)) f1"
    and "ranges w1 = [(a, of_nat (chunk_bytes (max 8 (unat n))))]"
    and "mem w1 = fill (\<lambda>_. 0) a 0 (of_nat (chunk_bytes (max 8 (unat n))))"
    and "f_list f = 0" and "f_size f \<noteq> 0" and "f_list f1 = 0" and "f_size f1 = f_size f"
proof -
  let ?sz = "max 8 (unat n)" and ?N = "chunk_bytes (max 8 (unat n))"
  have n: "unat n \<le> 16384" using init fix_init_large [of n] by (cases "16384 < unat n") auto
  have f: "unat (f_size f) = ?sz" "unat (f_nalloc f) = ?N" "f_list f = 0" "f_nchunk f = 0"
    using fix_init_ok [OF n] init by auto
  have N: "?N \<le> 16384" using chunk_bytes_bounds(2) n by simp
  have s: "f_size f = of_nat ?sz"
    using f(1) n by (intro unat_eqI) (simp add: unat_of_nat64 del: unsigned_of_nat)
  have na: "uint_to_long (f_nalloc f) = of_nat ?N"
    using f(2) N by (intro unat_eqI) (simp add: unat_of_nat64 del: unsigned_of_nat)
  let ?f = "f\<lparr>f_chunk := a, f_nchunk := f_nalloc f\<rparr>"
  let ?w = "\<lparr>mem = fill (\<lambda>_. 0) a 0 (of_nat ?N), ranges = [(a, of_nat ?N)], grabs = 1\<rparr>"
  have "uint_to_long (f_nchunk f) < f_size f" using f(1,4) by (simp add: word_less_nat_alt)
  then have "fix_refill pa f no_arena = Inr (?f, ?w)"
    using pa na by (simp add: fix_refill_def persistent_alloc_def no_arena_def)
  moreover have "carving ?sz (16384 div ?sz) ?f"
    using f s by (simp add: carving_def chunk_bytes_def)
  moreover have "f_size f \<noteq> 0" using f(1) by auto
  ultimately show ?thesis using that [of ?f ?w] f(3) by simp
qed

lemma alloc_refilled:
  assumes "fix_refill pa f w = Inr (f1, w1)" and "fix_refill pa f1 w1 = Inr (f1, w1)"
    and "f_list f = 0" and "f_list f1 = 0" and "f_size f \<noteq> 0" and "f_size f1 = f_size f"
  shows "go_alloc pa f w = go_alloc pa f1 w1" and "fix_alloc pa f w = fix_alloc pa f1 w1"
  using assms by (simp_all add: go_alloc_def fix_alloc_def)

lemma carving_refill: "carving sz (Suc m) f \<Longrightarrow> fix_refill pa f w = Inr (f, w)"
proof -
  assume "carving sz (Suc m) f"
  then have "unat (f_size f) = sz" "unat (f_nchunk f) = Suc m * sz" unfolding carving_def by blast+
  then have "\<not> uint_to_long (f_nchunk f) < f_size f" by (simp add: word_less_nat_alt)
  then show ?thesis by (simp add: fix_refill_def)
qed

lemma first_allocs:
  assumes init: "fix_init n = Inr f" and pa: "pa 0 (of_nat (chunk_bytes (max 8 (unat n)))) = Some a"
    and k: "0 < k" "k \<le> 16384 div max 8 (unat n)"
  shows "\<exists>f' w'. allocs (go_alloc pa) k f no_arena =
      Inr (map (\<lambda>i. a + of_nat (i * max 8 (unat n))) [0..<k], f', w') \<and>
    allocs (fix_alloc pa) k f no_arena =
      Inr (map (\<lambda>i. a + of_nat (Suc i * max 8 (unat n))) [0..<k], f', w') \<and>
    ranges w' = [(a, of_nat (chunk_bytes (max 8 (unat n))))]"
proof -
  obtain f1 w1 where f1: "fix_refill pa f no_arena = Inr (f1, w1)" "f_chunk f1 = a"
      "carving (max 8 (unat n)) (16384 div max 8 (unat n)) f1"
      "ranges w1 = [(a, of_nat (chunk_bytes (max 8 (unat n))))]"
      "f_list f = 0" "f_size f \<noteq> 0" "f_list f1 = 0" "f_size f1 = f_size f"
    using first_chunk [of n f pa a, OF init pa] by metis
  obtain k' m where km: "k = Suc k'" "16384 div max 8 (unat n) = Suc m"
    using k by (cases k; cases "16384 div max 8 (unat n)") auto
  have "fix_refill pa f1 w1 = Inr (f1, w1)" using f1(3) unfolding km(2) by (rule carving_refill)
  from alloc_refilled [OF f1(1) this f1(5,7,6,8)]
  have "allocs (go_alloc pa) k f no_arena = allocs (go_alloc pa) k f1 w1"
      "allocs (fix_alloc pa) k f no_arena = allocs (fix_alloc pa) k f1 w1"
    unfolding km(1) by simp_all
  then show ?thesis using carving_allocs [OF f1(3) k(2), of pa w1] f1(2,4) by auto
qed

end
