(* ===== verification/Fixalloc_Theorems.thy ===== *)
theory Fixalloc_Theorems
  imports Fixalloc_Client
begin

text \<open>
  The theorems on the fixed-size allocator, in C and in Go, each with an instance on a persistent
  allocator that grants four chunks and then refuses.
\<close>

section \<open>A persistent allocator\<close>

definition four_chunks :: "nat \<Rightarrow> u64 \<Rightarrow> u64 option" where
  "four_chunks i n = (if i < 4 then Some (of_nat (Suc i * 0x10000)) else None)"

lemma four_chunks_ok:
  assumes "n \<le> 0x10000"
  shows "chunks_ok four_chunks n"
proof -
  have u: "unat (of_nat (Suc i * 0x10000) :: u64) = Suc i * 0x10000" if "i < 4" for i
    using that by (intro unat_of_nat64) simp
  show ?thesis
    unfolding chunks_ok_def
  proof (intro allI impI conjI)
    fix i a assume "four_chunks i (of_nat n) = Some a"
    then have i: "i < 4" "a = of_nat (Suc i * 0x10000)" by (auto simp: four_chunks_def split: if_splits)
    have ua: "unat a = Suc i * 0x10000" unfolding i(2) using i(1) by (rule u)
    then show "a \<noteq> 0" by auto
    show "unat a + n \<le> 2 ^ 47" unfolding ua using i(1) assms by simp
    fix j b assume ij: "i \<noteq> j" and "four_chunks j (of_nat n) = Some b"
    then have j: "j < 4" "b = of_nat (Suc j * 0x10000)" by (auto simp: four_chunks_def split: if_splits)
    have ub: "unat b = Suc j * 0x10000" unfolding j(2) using j(1) by (rule u)
    show "clear a n b n"
      unfolding clear_def ua ub using ij assms by (cases "i < j") auto
  qed
qed

section \<open>Initialisation\<close>

text \<open>\<open>init\<close> throws for sizes above the chunk size; otherwise the block size is the request, at
  least the eight bytes of a link, and a chunk is the largest multiple of it within 16384 bytes.\<close>

theorem fix_init_correct:
  "if 16384 < unat n then fix_init n = Inl (Throw ''fixalloc: fixalloc size too large'')
   else \<exists>f. fix_init n = Inr f \<and> unat (f_size f) = max 8 (unat n) \<and>
     unat (f_nalloc f) = 16384 div max 8 (unat n) * max 8 (unat n) \<and>
     f_list f = 0 \<and> f_nchunk f = 0 \<and> f_inuse f = 0 \<and> f_zero f = 1"
  using fix_init_ok [of n] fix_init_large [of n] by (simp add: chunk_bytes_def not_less)

section \<open>The Go version\<close>

text \<open>C5: For every sequence of allocations, releases and stores on a new Go allocator that the
  persistent allocator can serve, the run is one on abstract objects of the one size: every
  allocation yields a new object at a fresh address, contents are kept, live objects do not overlap, and the bytes counted as in use are
  those of the live objects.\<close>

theorem go_client_refines:
  assumes "fix_init n = Inr f" and "chunks_ok pa (chunk_bytes (max 8 (unat n)))"
    and "serve_all (go_alloc_op pa) go_free_op fpoke (\<lambda>_. max 8 (unat n)) cs (\<lambda>_. None, (f, no_arena)) =
      Some (L, (f', w'))"
  shows "\<exists>A. L = sizes A \<and> granted_run (\<lambda>_. max 8 (unat n)) cs (\<lambda>_. None) A \<and>
    (\<forall>p xs i. A p = Some xs \<longrightarrow> i < length xs \<longrightarrow> mem w' (p + of_nat i) = xs ! i) \<and>
    (\<forall>p q xs ys. A p = Some xs \<longrightarrow> A q = Some ys \<longrightarrow> p \<noteq> q \<longrightarrow>
       unat p + length xs \<le> unat q \<or> unat q + length ys \<le> unat p) \<and>
    f_inuse f' = of_nat (max 8 (unat n) * card (dom A))"
proof -
  let ?sz = "max 8 (unat n)"
  have "unat n \<le> 16384" using assms(1) fix_init_large [of n] by (cases "16384 < unat n") auto
  then have v: "fvalid pa ?sz (\<lambda>_. None) (f, no_arena)"
    using fix_init_valid [OF _ assms(2)] assms(1) by (metis sum.inject(2))
  have "serve_all (go_alloc_op pa) go_free_op fpoke (\<lambda>_. ?sz) cs (sizes (\<lambda>_. None), (f, no_arena)) =
      Some (L, (f', w'))"
    using assms(3) by simp
  then obtain A where A: "L = sizes A" "granted_run (\<lambda>_. ?sz) cs (\<lambda>_. None) A"
      "go_heap.represents pa ?sz A (f', w')"
    using go_heap.serve_all_granted [OF go_heap.represents_none [OF v]] by metis
  have val: "fvalid pa ?sz (sizes A) (f', w')"
    and cont: "\<forall>p xs i. A p = Some xs \<longrightarrow> i < length xs \<longrightarrow> fpeek (f', w') (p + of_nat i) = xs ! i"
    using A(3) unfolding go_heap.represents_def by blast+
  have "dom (sizes A) = dom A" by (auto simp: sizes_def)
  then have "f_inuse f' = of_nat (?sz * card (dom A))" using val by (simp add: fvalid_def)
  then show ?thesis using A(1,2) cont go_heap.represents_apart [OF A(3)]
    by (intro exI [of _ A]) (simp add: fpeek_def)
qed

lemma go_client_refines_witness:
  "\<exists>f L fw A. fix_init 24 = Inr f \<and>
    serve_all (go_alloc_op four_chunks) go_free_op fpoke (\<lambda>_. 24) [Alloc ()] (\<lambda>_. None, (f, no_arena)) = Some (L, fw) \<and>
    L = sizes A \<and> granted_run (\<lambda>_. 24) [Alloc ()] (\<lambda>_. None) A"
proof -
  have n: "max 8 (unat (24 :: u64)) = 24" by simp
  obtain f where f: "fix_init 24 = Inr f" using fix_init_ok [of 24] by auto
  have ok: "chunks_ok four_chunks (chunk_bytes (max 8 (unat (24 :: u64))))"
    by (rule four_chunks_ok) (simp add: chunk_bytes_def)
  have "four_chunks 0 (of_nat (chunk_bytes (max 8 (unat (24 :: u64))))) = Some 0x10000"
    by (simp add: four_chunks_def)
  from first_allocs [of 24 f four_chunks, OF f this, of 1]
  obtain f' w' where "go_alloc four_chunks f no_arena = Inr (0x10000, f', w')"
    by (cases "go_alloc four_chunks f no_arena") (auto simp: chunk_bytes_def)
  then have run: "serve_all (go_alloc_op four_chunks) go_free_op fpoke (\<lambda>_. 24) [Alloc ()]
      (\<lambda>_. None, (f, no_arena)) = Some ([0x10000 \<mapsto> 24], (f', w'))"
    by (simp add: go_alloc_op_def)
  then show ?thesis using go_client_refines [OF f ok, unfolded n, OF run] f by blast
qed

text \<open>In every valid state the Go \<open>alloc\<close> returns a fresh block of zero bytes and leaves the other
  blocks alone; the only fault is the persistent allocator's refusal.\<close>

theorem go_alloc_correct:
  assumes "fvalid pa sz L (f, w)"
  shows "go_alloc pa f w = Inl (Throw ''runtime: cannot allocate memory'') \<or>
    (\<exists>p f' w'. go_alloc pa f w = Inr (p, f', w') \<and> p \<noteq> 0 \<and> L p = None \<and>
       fvalid pa sz (L(p \<mapsto> sz)) (f', w') \<and> (\<forall>i < sz. mem w' (p + of_nat i) = 0) \<and>
       (\<forall>q \<in> dom L. \<forall>i < sz. mem w' (q + of_nat i) = mem w (q + of_nat i)))"
  by (rule go_alloc_valid [OF assms])

lemma fresh_demo:
  obtains f where "fix_init 24 = Inr f" and "fvalid four_chunks 24 (\<lambda>_. None) (f, no_arena)" and "f_list f = 0"
    and "four_chunks 0 (of_nat (chunk_bytes 24)) = Some 0x10000"
proof -
  have "chunks_ok four_chunks (chunk_bytes (max 8 (unat (24 :: u64))))"
    by (rule four_chunks_ok) (simp add: chunk_bytes_def)
  moreover have "unat (24 :: u64) \<le> 16384" by simp
  ultimately obtain f where "fix_init 24 = Inr f" "f_list f = 0"
      "fvalid four_chunks (max 8 (unat (24 :: u64))) (\<lambda>_. None) (f, no_arena)"
    using fix_init_valid by metis
  moreover have "max 8 (unat (24 :: u64)) = 24" by simp
  moreover have "four_chunks 0 (of_nat (chunk_bytes 24)) = Some 0x10000" by (simp add: four_chunks_def)
  ultimately show ?thesis using that by (simp only:)
qed

lemma go_alloc_correct_witness:
  "\<exists>f p f' w'. fix_init 24 = Inr f \<and> go_alloc four_chunks f no_arena = Inr (p, f', w') \<and>
    (\<forall>i < 24. mem w' (p + of_nat i) = 0)"
proof -
  obtain f where f: "fix_init 24 = Inr f" "fvalid four_chunks 24 (\<lambda>_. None) (f, no_arena)"
      "four_chunks 0 (of_nat (chunk_bytes 24)) = Some 0x10000"
    by (rule fresh_demo)
  have "allocs (go_alloc four_chunks) 1 f no_arena \<noteq> Inl e" for e
    using first_allocs [of 24 f four_chunks _ 1, OF f(1)] f(3) by auto
  then have "go_alloc four_chunks f no_arena \<noteq> Inl e" for e by fastforce
  then show ?thesis using go_alloc_correct [OF f(2)] f(1) by blast
qed

section \<open>The C version\<close>

text \<open>C16: From the free list the C \<open>alloc\<close> does what the Go original does. From the chunk it makes
  the same new state, but returns the address one block further.\<close>

theorem c_alloc_shifted:
  assumes "fvalid pa sz L (f, w)"
  shows "if f_list f \<noteq> 0 then fix_alloc pa f w = go_alloc pa f w
    else (case go_alloc pa f w of
            Inl e \<Rightarrow> fix_alloc pa f w = Inl e
          | Inr (p, f', w') \<Rightarrow> fix_alloc pa f w = Inr (p + of_nat sz, f', w'))"
proof (cases "f_list f = 0")
  case True
  have "fix_ok pa sz f w" using assms by (rule fvalidE)
  then have sz: "f_size f \<noteq> 0" by (rule fix_ok_size(2))
  show ?thesis
  proof (cases "fix_refill pa f w")
    case (Inl e)
    then show ?thesis using go_alloc_refused [OF True sz Inl] True by simp
  next
    case (Inr r)
    then show ?thesis using go_alloc_carve [OF assms True Inr] True by auto
  qed
next
  case False
  then show ?thesis using go_alloc_pop [OF assms False] by auto
qed

lemma c_alloc_shifted_witness:
  "\<exists>f f' w'. fix_init 24 = Inr f \<and> go_alloc four_chunks f no_arena = Inr (0x10000, f', w') \<and>
    fix_alloc four_chunks f no_arena = Inr (0x10018, f', w')"
proof -
  obtain f where f: "fix_init 24 = Inr f" "fvalid four_chunks 24 (\<lambda>_. None) (f, no_arena)" "f_list f = 0"
      "four_chunks 0 (of_nat (chunk_bytes 24)) = Some 0x10000"
    by (rule fresh_demo)
  have "\<exists>f' w'. allocs (go_alloc four_chunks) 1 f no_arena = Inr ([0x10000], f', w')"
    using first_allocs [of 24 f four_chunks _ 1, OF f(1)] f(4) by auto
  then obtain f' w' where "go_alloc four_chunks f no_arena = Inr (0x10000, f', w')"
    by (cases "go_alloc four_chunks f no_arena") auto
  then show ?thesis using c_alloc_shifted [OF f(2)] f(1,3) by auto
qed

text \<open>C17: The blocks a new C allocator carves from its first chunk are those of the Go original, each
  one block further; the last of them starts where the chunk ends, in memory the persistent
  allocator did not hand out.\<close>

theorem c_last_block_outside:
  assumes "fix_init n = Inr f" and "pa 0 (of_nat (chunk_bytes (max 8 (unat n)))) = Some a"
    and "unat a + chunk_bytes (max 8 (unat n)) \<le> 2 ^ 47" and "k = 16384 div max 8 (unat n)"
  shows "\<exists>f' w'. allocs (go_alloc pa) k f no_arena =
      Inr (map (\<lambda>i. a + of_nat (i * max 8 (unat n))) [0..<k], f', w') \<and>
    allocs (fix_alloc pa) k f no_arena =
      Inr (map (\<lambda>i. a + of_nat (Suc i * max 8 (unat n))) [0..<k], f', w') \<and>
    a + of_nat (Suc (k - 1) * max 8 (unat n)) = a + of_nat (chunk_bytes (max 8 (unat n))) \<and>
    \<not> accessible w' (a + of_nat (chunk_bytes (max 8 (unat n)))) 1"
proof -
  let ?sz = "max 8 (unat n)" and ?N = "chunk_bytes (max 8 (unat n))"
  have n: "unat n \<le> 16384" using assms(1) fix_init_large [of n] by (cases "16384 < unat n") auto
  then have k: "0 < k" unfolding assms(4) using chunk_bytes_bounds(4) by simp
  obtain f' w' where r: "allocs (go_alloc pa) k f no_arena = Inr (map (\<lambda>i. a + of_nat (i * ?sz)) [0..<k], f', w')"
      "allocs (fix_alloc pa) k f no_arena = Inr (map (\<lambda>i. a + of_nat (Suc i * ?sz)) [0..<k], f', w')"
      "ranges w' = [(a, of_nat ?N)]"
    using first_allocs [of n f pa a k, OF assms(1,2) k] assms(4) by auto
  have "Suc (k - 1) * ?sz = ?N" using k assms(4) by (simp add: chunk_bytes_def)
  moreover have "unat (a + of_nat ?N) = unat a + ?N" using assms(3) by (intro unat_offset) simp
  moreover have "unat (of_nat ?N :: u64) = ?N" using assms(3) by (intro unat_of_nat64) simp
  ultimately have "\<not> accessible w' (a + of_nat ?N) 1" unfolding accessible_def r(3) by simp
  then show ?thesis using r(1,2) \<open>Suc (k - 1) * ?sz = ?N\<close>
    by (intro exI [of _ f'] exI [of _ w'] conjI) simp_all
qed

lemma c_last_block_outside_witness:
  "\<exists>f ps f' w'. fix_init 24 = Inr f \<and> allocs (fix_alloc four_chunks) 682 f no_arena = Inr (ps, f', w') \<and>
    \<not> accessible w' (0x10000 + 16368) 1"
proof -
  obtain f where f: "fix_init 24 = Inr f" "four_chunks 0 (of_nat (chunk_bytes 24)) = Some 0x10000"
    by (rule fresh_demo)
  have n: "max 8 (unat (24 :: u64)) = 24" "chunk_bytes 24 = 16368" "(682 :: nat) = 16384 div 24"
    by (simp_all add: chunk_bytes_def)
  have "unat (0x10000 :: u64) + 16368 \<le> 2 ^ 47" by simp
  from c_last_block_outside [of 24 f four_chunks, unfolded n(1), OF f, unfolded n(2), OF this n(3)]
  show ?thesis using f(1) by fastforce
qed

text \<open>A released block is the next one handed out, with all its bytes zero, by both versions.\<close>

theorem dealloc_alloc_same:
  assumes "fvalid pa sz L (f, w)" and "L p = Some k"
  shows "\<exists>f1 w1 f2 w2. fix_dealloc p f w = Inr (f1, w1) \<and> fix_alloc pa f1 w1 = Inr (p, f2, w2) \<and>
    go_alloc pa f1 w1 = Inr (p, f2, w2) \<and> fvalid pa sz (L(p \<mapsto> sz)) (f2, w2) \<and>
    (\<forall>i < sz. mem w2 (p + of_nat i) = 0)"
proof -
  obtain f1 w1 where d: "fix_dealloc p f w = Inr (f1, w1)" "fvalid pa sz (L(p := None)) (f1, w1)" "f_list f1 = p"
    using fix_dealloc_ok [OF assms] by blast
  have "p \<noteq> 0" using go_space_law [OF assms] by simp
  then have nz: "f_list f1 \<noteq> 0" using d(3) by simp
  have "go_alloc pa f1 w1 = fix_pop f1 w1"
    using d(2) nz by (auto simp: go_alloc_def elim!: fvalidE dest: fix_ok_size(2))
  then have first: "fst q = p" if "go_alloc pa f1 w1 = Inr q" for q
    using that d(3) by (auto simp: fix_pop_def mem_next_def memclr_def Let_def split: if_splits)
  obtain q f2 w2 where a: "go_alloc pa f1 w1 = Inr (q, f2, w2)" "fix_alloc pa f1 w1 = Inr (q, f2, w2)"
      "fvalid pa sz ((L(p := None))(q \<mapsto> sz)) (f2, w2)" "\<forall>i < sz. mem w2 (q + of_nat i) = 0"
    using go_alloc_pop [OF d(2) nz] by blast
  have "q = p" using first [OF a(1)] by simp
  then show ?thesis using d(1) a by (intro exI [of _ f1] exI [of _ w1] exI [of _ f2] exI [of _ w2]) simp
qed

lemma dealloc_alloc_same_witness:
  "\<exists>f w f1 w1 f2 w2. fvalid four_chunks 24 [0x10000 \<mapsto> 24] (f, w) \<and> fix_dealloc 0x10000 f w = Inr (f1, w1) \<and>
    fix_alloc four_chunks f1 w1 = Inr (0x10000, f2, w2)"
proof -
  obtain f where f: "fix_init 24 = Inr f" "fvalid four_chunks 24 (\<lambda>_. None) (f, no_arena)"
      "four_chunks 0 (of_nat (chunk_bytes 24)) = Some 0x10000"
    by (rule fresh_demo)
  have "\<exists>f' w'. allocs (go_alloc four_chunks) 1 f no_arena = Inr ([0x10000], f', w')"
    using first_allocs [of 24 f four_chunks _ 1, OF f(1)] f(3) by auto
  then obtain f' w' where "go_alloc four_chunks f no_arena = Inr (0x10000, f', w')"
    by (cases "go_alloc four_chunks f no_arena") auto
  then have v: "fvalid four_chunks 24 [0x10000 \<mapsto> 24] (f', w')"
    using go_alloc_valid [OF f(2)] by auto
  then show ?thesis using dealloc_alloc_same [OF v, of "0x10000" 24] by fastforce
qed

text \<open>The first node of the samples: one for C, one for Go.\<close>

lemma sample_alloc:
  assumes "pa 0 16384 = Some a"
  obtains f fc fg w where "fix_init 16 = Inr f" and "fix_alloc pa f no_arena = Inr (a + 16, fc, w)"
    and "go_alloc pa f no_arena = Inr (a, fg, w)" and "f_list fc = 0" and "f_list fg = 0"
    and "ranges w = [(a, of_nat 16384)]"
proof -
  have n: "max 8 (unat (16 :: u64)) = 16" "chunk_bytes 16 = 16384" "(16384 :: nat) div 16 = Suc 1023"
    by (simp_all add: chunk_bytes_def)
  obtain f where f: "fix_init 16 = Inr f" using fix_init_ok [of 16] by auto
  have "pa 0 (of_nat (chunk_bytes (max 8 (unat (16 :: u64))))) = Some a" unfolding n using assms by simp
  from first_chunk [of 16 f pa, OF f this]
  obtain f1 w1 where f1: "fix_refill pa f no_arena = Inr (f1, w1)" "f_chunk f1 = a"
      "carving 16 (Suc 1023) f1" "ranges w1 = [(a, of_nat 16384)]"
      "f_list f = 0" "f_size f \<noteq> 0" "f_list f1 = 0" "f_size f1 = f_size f"
    unfolding n by metis
  obtain f2 where f2: "fix_alloc pa f1 w1 = Inr (a + of_nat 16, f2, w1)"
      "go_alloc pa f1 w1 = Inr (a, f2, w1)" "carving 16 1023 f2"
    using carving_step [OF f1(3)] f1(2) by metis
  note first = alloc_refilled [OF f1(1) carving_refill [OF f1(3)] f1(5,7,6,8)]
  have "f_list f2 = 0" using f2(3) by (simp add: carving_def)
  with first f2(1,2) f1(4) show ?thesis by (intro that [OF f, of f2 w1 f2]) simp_all
qed

lemma fix_test_words:
  assumes "pa 0 16384 = Some a" and "unat a + 16384 \<le> 2 ^ 47"
  shows "fix_test pa no_arena = Inr [a + 16, 0xcafebabe, 0, a + 16, 0, 0]"
proof -
  obtain f f2 w1 where f: "fix_init 16 = Inr f" and al: "fix_alloc pa f no_arena = Inr (a + 16, f2, w1)"
    and list: "f_list f2 = 0" and f1: "ranges w1 = [(a, of_nat 16384)]"
    using sample_alloc [of pa a, OF assms(1)] by metis
  have u: "unat (a + 16) = unat a + 16" "unat (a + 24) = unat a + 24"
    using unat_offset [of a 16] unat_offset [of a 24] assms(2) by simp_all
  have acc: "accessible w (a + 16) 8" "accessible w (a + 24) 8" if "ranges w = [(a, of_nat 16384)]" for w
    unfolding accessible_def that using u by simp_all
  have ap: "apart (a + 16) (a + 24)" by (rule apartI) (use u assms(2) in simp_all)
  then have ap': "apart (a + 24) (a + 16)" by (simp add: apart_sym)
  have nz: "a + 16 \<noteq> 0" using u(1) by auto
  show ?thesis
    using al nz list f1 ap ap'
    by (simp add: fix_test_def f set_mem_next_def mem_next_def fix_dealloc_def acc Let_def
        ld64_st64_same ld64_st64_apart add.assoc)
qed

text \<open>\<open>test\<close> ends without fault: it prints the address of the node, one node into the chunk, with
  \<open>0xcafebabe\<close> and a null link, and after the release the same address with the data overwritten
  by the null link of the free list.\<close>

theorem fix_test_prints:
  assumes "pa 0 16384 = Some a" and "unat a + 16384 \<le> 2 ^ 47"
  shows "fix_test pa no_arena = Inr [a + 16, 0xcafebabe, 0, a + 16, 0, 0]"
  using assms by (rule fix_test_words)

lemma fix_test_prints_witness:
  "fix_test four_chunks no_arena = Inr [0x10010, 0xcafebabe, 0, 0x10010, 0, 0]"
  using fix_test_prints [of four_chunks "0x10000"] by (simp add: four_chunks_def)

end
