(* ===== verification/Machine.thy ===== *)
theory Machine
  imports C_Heap
begin

text \<open>
  As much of an x86-64 processor as the routines of \<open>rgoffi/go/gocruntime/atomic_amd64.s\<close> use:
  four registers and the zero flag, a byte memory in which not every address is present, and the
  instructions that occur, at the operand widths that occur. An access to an absent address has
  the value \<^term>\<open>None\<close>. Every instruction is one step: the ones that read and write memory carry a
  \<open>lock\<close> prefix or are \<open>xchg\<close>, which implies it.
\<close>

section \<open>Memory\<close>

record ram =
  cells :: bytes
  present :: "u64 \<Rightarrow> bool"

datatype width = W8 | W32 | W64

fun nbytes :: "width \<Rightarrow> nat" where
  "nbytes W8 = 1"
| "nbytes W32 = 4"
| "nbytes W64 = 8"

definition st_bytes :: "bytes \<Rightarrow> u64 \<Rightarrow> nat \<Rightarrow> u64 \<Rightarrow> bytes" where
  "st_bytes m a k v = (\<lambda>x. if unat (x - a) < k then byte_of v (unat (x - a)) else m x)"

definition has :: "ram \<Rightarrow> width \<Rightarrow> u64 \<Rightarrow> bool" where
  "has m w a \<longleftrightarrow> (\<forall>i \<in> set [0..<nbytes w]. present m (a + of_nat i))"

definition rdw :: "ram \<Rightarrow> width \<Rightarrow> u64 \<Rightarrow> u64" where
  "rdw m w a = ld_bytes (cells m) a (nbytes w)"

definition wrw :: "ram \<Rightarrow> width \<Rightarrow> u64 \<Rightarrow> u64 \<Rightarrow> ram" where
  "wrw m w a v = m\<lparr>cells := st_bytes (cells m) a (nbytes w) v\<rparr>"

definition low :: "width \<Rightarrow> u64 \<Rightarrow> u64" where
  "low w v = take_bit (8 * nbytes w) v"

section \<open>Registers and instructions\<close>

record cpu =
  rax :: u64
  rdi :: u64
  rsi :: u64
  rdx :: u64
  zf :: bool

datatype reg = RAX | RDI | RSI | RDX

fun get :: "reg \<Rightarrow> cpu \<Rightarrow> u64" where
  "get RAX c = rax c"
| "get RDI c = rdi c"
| "get RSI c = rsi c"
| "get RDX c = rdx c"

fun put :: "reg \<Rightarrow> u64 \<Rightarrow> cpu \<Rightarrow> cpu" where
  "put RAX v c = c\<lparr>rax := v\<rparr>"
| "put RDI v c = c\<lparr>rdi := v\<rparr>"
| "put RSI v c = c\<lparr>rsi := v\<rparr>"
| "put RDX v c = c\<lparr>rdx := v\<rparr>"

text \<open>
  Writing a 32-bit register clears the upper half, writing an 8-bit register leaves the rest.
\<close>

definition put_w :: "width \<Rightarrow> reg \<Rightarrow> u64 \<Rightarrow> cpu \<Rightarrow> cpu" where
  "put_w w r v c = (case w of
     W8 \<Rightarrow> put r (push_bit 8 (drop_bit 8 (get r c)) OR low W8 v) c
   | W32 \<Rightarrow> put r (low W32 v) c
   | W64 \<Rightarrow> put r v c)"

definition get_w :: "width \<Rightarrow> reg \<Rightarrow> cpu \<Rightarrow> u64" where
  "get_w w r c = low w (get r c)"

text \<open>Operands in the order of the assembler source; the memory operand is \<open>(%r)\<close>.\<close>

datatype instr =
    Mov width reg reg
  | Imm reg u64
  | Add width reg reg
  | Sete reg
  | Cmpxchg width reg reg
  | Xadd width reg reg
  | Xchg width reg reg
  | OrM width reg reg
  | AndM width reg reg

fun step :: "instr \<Rightarrow> cpu \<times> ram \<Rightarrow> (cpu \<times> ram) option" where
  "step (Mov w s d) (c, m) = Some (put_w w d (get_w w s c) c, m)"
| "step (Imm d v) (c, m) = Some (put d v c, m)"
| "step (Add w s d) (c, m) = Some (put_w w d (get_w w s c + get_w w d c) c, m)"
| "step (Sete d) (c, m) = Some (put_w W8 d (if zf c then 1 else 0) c, m)"
| "step (Cmpxchg w s a) (c, m) =
     (if has m w (get a c) then
        let old = rdw m w (get a c) in
        if get_w w RAX c = old then Some (c\<lparr>zf := True\<rparr>, wrw m w (get a c) (get_w w s c))
        else Some (put_w w RAX old (c\<lparr>zf := False\<rparr>), m)
      else None)"
| "step (Xadd w s a) (c, m) =
     (if has m w (get a c) then
        let old = rdw m w (get a c)
        in Some (put_w w s old c, wrw m w (get a c) (old + get_w w s c))
      else None)"
| "step (Xchg w s a) (c, m) =
     (if has m w (get a c) then
        Some (put_w w s (rdw m w (get a c)) c, wrw m w (get a c) (get_w w s c))
      else None)"
| "step (OrM w s a) (c, m) =
     (if has m w (get a c) then
        Some (c, wrw m w (get a c) (rdw m w (get a c) OR get_w w s c)) else None)"
| "step (AndM w s a) (c, m) =
     (if has m w (get a c) then
        Some (c, wrw m w (get a c) (rdw m w (get a c) AND get_w w s c)) else None)"

fun exec :: "instr list \<Rightarrow> cpu \<times> ram \<Rightarrow> (cpu \<times> ram) option" where
  "exec [] cm = Some cm"
| "exec (i # is) cm = do { cm \<leftarrow> step i cm; exec is cm }"

text \<open>
  A call: the arguments go to \<open>%rdi\<close>, \<open>%rsi\<close>, \<open>%rdx\<close>, the result is what is in \<open>%rax\<close> on return.
  What the registers and the flag hold otherwise is left by the caller.
\<close>

definition call :: "instr list \<Rightarrow> cpu \<Rightarrow> u64 \<Rightarrow> u64 \<Rightarrow> u64 \<Rightarrow> ram \<Rightarrow> (u64 \<times> ram) option" where
  "call code c a b d m = do {
     (c, m) \<leftarrow> exec code (c\<lparr>rdi := a, rsi := b, rdx := d\<rparr>, m);
     Some (rax c, m) }"

section \<open>Cells\<close>

lemma ld_st_bytes:
  assumes "k \<le> 8"
  shows "ld_bytes (st_bytes m a k v) a k = take_bit (8 * k) v"
proof (rule bit_word_eqI)
  fix n assume "n < LENGTH(64)"
  have u: "unat (of_nat (n div 8) :: u64) = n div 8" if "n < 8 * k"
  proof (rule unat_of_nat64)
    have "n div 8 < 8" using that assms by linarith
    then show "n div 8 < 2 ^ 64" by simp
  qed
  show "bit (ld_bytes (st_bytes m a k v) a k) n = bit (take_bit (8 * k) v) n"
    using u \<open>n < LENGTH(64)\<close>
    by (auto simp: bit_ld_bytes st_bytes_def bit_byte_of bit_take_bit_iff less_mult_imp_div_less mult.commute
        simp del: unsigned_of_nat)
qed

lemma nbytes_le: "nbytes w \<le> 8" "0 < nbytes w"
  by (cases w; simp)+

lemma rdw_wrw [simp]: "rdw (wrw m w a v) w a = low w v"
  by (simp add: rdw_def wrw_def low_def ld_st_bytes nbytes_le)

lemma has_wrw [simp]: "has (wrw m w a v) w' b = has m w' b"
  by (simp add: has_def wrw_def)

lemma low_low [simp]: "low w (low w v) = low w v"
  by (simp add: low_def)

lemma low_rdw [simp]: "low w (rdw m w a) = rdw m w a"
proof (rule bit_word_eqI)
  fix n
  show "bit (low w (rdw m w a)) n = bit (rdw m w a) n"
    by (auto simp: low_def rdw_def bit_take_bit_iff bit_ld_bytes)
qed

lemma wrw_wrw [simp]: "wrw (wrw m w a v) w a u = wrw m w a u"
proof -
  have "st_bytes (st_bytes (cells m) a (nbytes w) v) a (nbytes w) u =
      st_bytes (cells m) a (nbytes w) u"
    by (rule ext) (simp add: st_bytes_def)
  then show ?thesis by (simp add: wrw_def)
qed

lemma wrw_low: "wrw m w a (low w v) = wrw m w a v"
proof -
  have "byte_of (low w v) k = byte_of v k" if "k < nbytes w" for k
    by (rule bit_word_eqI) (use that in \<open>auto simp: bit_byte_of low_def bit_take_bit_iff\<close>)
  then have "st_bytes (cells m) a (nbytes w) (low w v) = st_bytes (cells m) a (nbytes w) v"
    by (intro ext) (simp add: st_bytes_def)
  then show ?thesis by (simp add: wrw_def)
qed

text \<open>A store leaves the bytes outside its cell.\<close>

lemma wrw_outside: "nbytes w \<le> unat (x - a) \<Longrightarrow> cells (wrw m w a v) x = cells m x"
  by (simp add: wrw_def st_bytes_def)

lemma rdw_wrw_apart:
  assumes "\<And>i. i < nbytes w' \<Longrightarrow> nbytes w \<le> unat (b + of_nat i - a)"
  shows "rdw (wrw m w a v) w' b = rdw m w' b"
  unfolding rdw_def by (intro ld_bytes_cong wrw_outside assms)

lemma unat_low: "unat (low w a) = unat a mod 2 ^ (8 * nbytes w)"
  by (simp only: low_def unsigned_take_bit_eq) (simp add: take_bit_eq_mod)

lemma low_add: "low w (low w a + b) = low w (a + b)"
proof (rule unat_eqI)
  have "(2::nat) ^ (8 * nbytes w) dvd 2 ^ 64" by (cases w) simp_all
  then have cancel: "x mod 2 ^ 64 mod 2 ^ (8 * nbytes w) = x mod 2 ^ (8 * nbytes w)" for x :: nat
    by (rule mod_mod_cancel)
  have "unat (low w (low w a + b)) = (unat a mod 2 ^ (8 * nbytes w) + unat b) mod 2 ^ 64 mod 2 ^ (8 * nbytes w)"
    by (simp only: unat_low unat_word_ariths(1)) simp
  also have "\<dots> = (unat a + unat b) mod 2 ^ 64 mod 2 ^ (8 * nbytes w)"
    unfolding cancel by (simp add: mod_add_left_eq)
  also have "\<dots> = unat (low w (a + b))" by (simp only: unat_low unat_word_ariths(1)) simp
  finally show "unat (low w (low w a + b)) = unat (low w (a + b))" .
qed

lemma exec_append: "exec (xs @ ys) cm = Option.bind (exec xs cm) (exec ys)"
  by (induction xs arbitrary: cm) (auto split: bind_splits)

end
