(* ===== verification/Atomics.thy ===== *)
theory Atomics
  imports Machine
begin

text \<open>
  The atomic operations of the Go runtime port: the routines of \<open>atomic_amd64.s\<close> as instruction
  lists, the three loads of \<open>atomic_amd64.c\<close>, and the typed operations of \<open>atomic.c\<close> on top of
  them. A routine that only jumps to another is that routine. Signed and unsigned C integers of
  one width are the same words; casts between them change nothing.
\<close>

section \<open>atomic_amd64.s\<close>

definition cas_code :: "instr list" where
  "cas_code = [Mov W32 RSI RAX, Cmpxchg W32 RDX RDI, Sete RAX]"

definition casp1_code :: "instr list" where
  "casp1_code = [Mov W64 RSI RAX, Cmpxchg W64 RDX RSI, Sete RAX]"

definition cas64_code :: "instr list" where
  "cas64_code = [Mov W64 RSI RAX, Cmpxchg W64 RDX RDI, Sete RAX]"

definition xadd_code :: "instr list" where
  "xadd_code = [Mov W32 RSI RAX, Xadd W32 RAX RDI, Add W32 RSI RAX]"

definition xadd64_code :: "instr list" where
  "xadd64_code = [Mov W64 RSI RAX, Xadd W64 RAX RDI, Add W64 RSI RAX]"

definition xchg_code :: "instr list" where
  "xchg_code = [Mov W32 RSI RAX, Xchg W32 RAX RDI]"

definition xchg64_code :: "instr list" where
  "xchg64_code = [Mov W64 RSI RAX, Xchg W64 RAX RDI]"

definition xchgp_code :: "instr list" where
  "xchgp_code = xchg64_code"

definition store_code :: "instr list" where
  "store_code = [Xchg W32 RSI RDI]"

definition store8_code :: "instr list" where
  "store8_code = [Xchg W8 RSI RDI]"

definition store64_code :: "instr list" where
  "store64_code = [Xchg W64 RSI RDI]"

definition storep_code :: "instr list" where
  "storep_code = store64_code"

definition or8_code :: "instr list" where
  "or8_code = [OrM W8 RSI RDI]"

definition and8_code :: "instr list" where
  "and8_code = [AndM W8 RSI RDI]"

definition or_code :: "instr list" where
  "or_code = [OrM W32 RSI RDI]"

definition and_code :: "instr list" where
  "and_code = [AndM W32 RSI RDI]"

text \<open>Labels that only jump, and one more store, which no C file declares.\<close>

definition casint32_code :: "instr list" where
  "casint32_code = cas_code"

definition casint64_code :: "instr list" where
  "casint64_code = cas64_code"

definition casuintptr_code :: "instr list" where
  "casuintptr_code = cas64_code"

definition casrel_code :: "instr list" where
  "casrel_code = cas_code"

definition store_no_wb_code :: "instr list" where
  "store_no_wb_code = [Xchg W64 RSI RDI]"

definition store_int32_code :: "instr list" where
  "store_int32_code = store_code"

definition store_int64_code :: "instr list" where
  "store_int64_code = store64_code"

definition store_uintptr_code :: "instr list" where
  "store_uintptr_code = store64_code"

definition store_rel_code :: "instr list" where
  "store_rel_code = store_code"

definition store_rel_64_code :: "instr list" where
  "store_rel_64_code = store64_code"

definition store_rel_uintptr_code :: "instr list" where
  "store_rel_uintptr_code = store64_code"

text \<open>Calls with a C result type: the low part of \<open>%rax\<close>, or nothing.\<close>

definition call8 :: "instr list \<Rightarrow> cpu \<Rightarrow> u64 \<Rightarrow> u64 \<Rightarrow> u64 \<Rightarrow> ram \<Rightarrow> (u8 \<times> ram) option" where
  "call8 code c a b d m = map_option (\<lambda>(v, m). (ucast v, m)) (call code c a b d m)"

definition call32 :: "instr list \<Rightarrow> cpu \<Rightarrow> u64 \<Rightarrow> u64 \<Rightarrow> u64 \<Rightarrow> ram \<Rightarrow> (u32 \<times> ram) option" where
  "call32 code c a b d m = map_option (\<lambda>(v, m). (ucast v, m)) (call code c a b d m)"

definition callv :: "instr list \<Rightarrow> cpu \<Rightarrow> u64 \<Rightarrow> u64 \<Rightarrow> u64 \<Rightarrow> ram \<Rightarrow> ram option" where
  "callv code c a b d m = map_option snd (call code c a b d m)"

section \<open>atomic_amd64.c\<close>

definition c_load :: "u64 \<Rightarrow> ram \<Rightarrow> u32 option" where
  "c_load a m = (if has m W32 a then Some (ucast (rdw m W32 a)) else None)"

definition c_loadp :: "u64 \<Rightarrow> ram \<Rightarrow> u64 option" where
  "c_loadp a m = (if has m W64 a then Some (rdw m W64 a) else None)"

definition c_load64 :: "u64 \<Rightarrow> ram \<Rightarrow> u64 option" where
  "c_load64 a m = (if has m W64 a then Some (rdw m W64 a) else None)"

section \<open>atomic.c\<close>

text \<open>Every operation takes the registers as the caller left them and the memory.\<close>

definition swap_int32 :: "cpu \<Rightarrow> u64 \<Rightarrow> u32 \<Rightarrow> ram \<Rightarrow> (u32 \<times> ram) option" where
  "swap_int32 c addr new m = call32 xchg_code c addr (ucast new) 0 m"

definition swap_int64 :: "cpu \<Rightarrow> u64 \<Rightarrow> u64 \<Rightarrow> ram \<Rightarrow> (u64 \<times> ram) option" where
  "swap_int64 c addr new m = call xchg64_code c addr new 0 m"

definition swap_uint32 :: "cpu \<Rightarrow> u64 \<Rightarrow> u32 \<Rightarrow> ram \<Rightarrow> (u32 \<times> ram) option" where
  "swap_uint32 c addr new m = call32 xchg_code c addr (ucast new) 0 m"

definition swap_uint64 :: "cpu \<Rightarrow> u64 \<Rightarrow> u64 \<Rightarrow> ram \<Rightarrow> (u64 \<times> ram) option" where
  "swap_uint64 c addr new m = call xchg64_code c addr new 0 m"

definition swap_uintptr :: "cpu \<Rightarrow> u64 \<Rightarrow> u64 \<Rightarrow> ram \<Rightarrow> (u64 \<times> ram) option" where
  "swap_uintptr c addr new m = call xchg64_code c addr new 0 m"

definition swap_pointer :: "cpu \<Rightarrow> u64 \<Rightarrow> u64 \<Rightarrow> ram \<Rightarrow> (u64 \<times> ram) option" where
  "swap_pointer c addr new m = call xchgp_code c addr new 0 m"

definition compare_and_swap_int32 :: "cpu \<Rightarrow> u64 \<Rightarrow> u32 \<Rightarrow> u32 \<Rightarrow> ram \<Rightarrow> (u8 \<times> ram) option" where
  "compare_and_swap_int32 c addr old new m =
     call8 cas_code c addr (ucast old) (ucast new) m"

definition compare_and_swap_int64 :: "cpu \<Rightarrow> u64 \<Rightarrow> u64 \<Rightarrow> u64 \<Rightarrow> ram \<Rightarrow> (u8 \<times> ram) option" where
  "compare_and_swap_int64 c addr old new m = call8 cas64_code c addr old new m"

definition compare_and_swap_uint32 :: "cpu \<Rightarrow> u64 \<Rightarrow> u32 \<Rightarrow> u32 \<Rightarrow> ram \<Rightarrow> (u8 \<times> ram) option" where
  "compare_and_swap_uint32 c addr old new m =
     call8 cas_code c addr (ucast old) (ucast new) m"

definition compare_and_swap_uint64 :: "cpu \<Rightarrow> u64 \<Rightarrow> u64 \<Rightarrow> u64 \<Rightarrow> ram \<Rightarrow> (u8 \<times> ram) option" where
  "compare_and_swap_uint64 c addr old new m = call8 cas64_code c addr old new m"

definition compare_and_swap_uintptr :: "cpu \<Rightarrow> u64 \<Rightarrow> u64 \<Rightarrow> u64 \<Rightarrow> ram \<Rightarrow> (u8 \<times> ram) option" where
  "compare_and_swap_uintptr c addr old new m = call8 cas64_code c addr old new m"

definition compare_and_swap_pointer :: "cpu \<Rightarrow> u64 \<Rightarrow> u64 \<Rightarrow> u64 \<Rightarrow> ram \<Rightarrow> (u8 \<times> ram) option" where
  "compare_and_swap_pointer c addr old new m = call8 casp1_code c addr old new m"

definition add_int32 :: "cpu \<Rightarrow> u64 \<Rightarrow> u32 \<Rightarrow> ram \<Rightarrow> (u32 \<times> ram) option" where
  "add_int32 c addr delta m = call32 xadd_code c addr (ucast delta) 0 m"

definition add_uint32 :: "cpu \<Rightarrow> u64 \<Rightarrow> u32 \<Rightarrow> ram \<Rightarrow> (u32 \<times> ram) option" where
  "add_uint32 c addr delta m = call32 xadd_code c addr (ucast delta) 0 m"

definition add_int64 :: "cpu \<Rightarrow> u64 \<Rightarrow> u64 \<Rightarrow> ram \<Rightarrow> (u64 \<times> ram) option" where
  "add_int64 c addr delta m = call xadd64_code c addr delta 0 m"

definition add_uint64 :: "cpu \<Rightarrow> u64 \<Rightarrow> u64 \<Rightarrow> ram \<Rightarrow> (u64 \<times> ram) option" where
  "add_uint64 c addr delta m = call xadd64_code c addr delta 0 m"

definition add_uintptr :: "cpu \<Rightarrow> u64 \<Rightarrow> u64 \<Rightarrow> ram \<Rightarrow> (u64 \<times> ram) option" where
  "add_uintptr c addr delta m = call xadd64_code c addr delta 0 m"

definition load_int32 :: "u64 \<Rightarrow> ram \<Rightarrow> u32 option" where
  "load_int32 addr m = Some 0"

definition load_int64 :: "u64 \<Rightarrow> ram \<Rightarrow> u64 option" where
  "load_int64 addr m = c_load64 addr m"

definition load_uint32 :: "u64 \<Rightarrow> ram \<Rightarrow> u32 option" where
  "load_uint32 addr m = c_load addr m"

definition load_uint64 :: "u64 \<Rightarrow> ram \<Rightarrow> u64 option" where
  "load_uint64 addr m = c_load64 addr m"

definition load_uintptr :: "u64 \<Rightarrow> ram \<Rightarrow> u64 option" where
  "load_uintptr addr m = c_load64 addr m"

definition load_pointer :: "u64 \<Rightarrow> ram \<Rightarrow> u64 option" where
  "load_pointer addr m = c_loadp addr m"

definition store_int32 :: "cpu \<Rightarrow> u64 \<Rightarrow> u32 \<Rightarrow> ram \<Rightarrow> ram option" where
  "store_int32 c addr val m = callv store_code c addr (ucast val) 0 m"

definition store_int64 :: "cpu \<Rightarrow> u64 \<Rightarrow> u64 \<Rightarrow> ram \<Rightarrow> ram option" where
  "store_int64 c addr val m = callv store64_code c addr val 0 m"

definition store_uint32 :: "cpu \<Rightarrow> u64 \<Rightarrow> u32 \<Rightarrow> ram \<Rightarrow> ram option" where
  "store_uint32 c addr val m = callv store_code c addr (ucast val) 0 m"

definition store_uint64 :: "cpu \<Rightarrow> u64 \<Rightarrow> u64 \<Rightarrow> ram \<Rightarrow> ram option" where
  "store_uint64 c addr val m = callv store64_code c addr val 0 m"

definition store_uintptr :: "cpu \<Rightarrow> u64 \<Rightarrow> u64 \<Rightarrow> ram \<Rightarrow> ram option" where
  "store_uintptr c addr val m = callv store64_code c addr val 0 m"

definition store_pointer :: "cpu \<Rightarrow> u64 \<Rightarrow> u64 \<Rightarrow> ram \<Rightarrow> ram option" where
  "store_pointer c addr val m = callv storep_code c addr val 0 m"

lemmas atomic_wrappers [wrappers] =
  swap_int32_def swap_int64_def swap_uint32_def swap_uint64_def swap_uintptr_def
  swap_pointer_def compare_and_swap_int32_def compare_and_swap_int64_def
  compare_and_swap_uint32_def compare_and_swap_uint64_def compare_and_swap_uintptr_def
  compare_and_swap_pointer_def add_int32_def add_uint32_def add_int64_def add_uint64_def
  add_uintptr_def load_int32_def load_int64_def load_uint32_def load_uint64_def load_uintptr_def
  load_pointer_def store_int32_def store_int64_def store_uint32_def store_uint64_def
  store_uintptr_def store_pointer_def

section \<open>What the operations compute\<close>

text \<open>The 32- and 64-bit cells of the memory.\<close>

definition cell32 :: "ram \<Rightarrow> u64 \<Rightarrow> u32" where
  "cell32 m a = ucast (rdw m W32 a)"

definition set32 :: "ram \<Rightarrow> u64 \<Rightarrow> u32 \<Rightarrow> ram" where
  "set32 m a v = wrw m W32 a (ucast v)"

definition cell64 :: "ram \<Rightarrow> u64 \<Rightarrow> u64" where
  "cell64 m a = rdw m W64 a"

definition set64 :: "ram \<Rightarrow> u64 \<Rightarrow> u64 \<Rightarrow> ram" where
  "set64 m a v = wrw m W64 a v"

lemma low64 [simp]: "low W64 v = v"
  by (rule bit_word_eqI) (simp add: low_def bit_take_bit_iff)

lemma low32_ucast [simp]: "low W32 (ucast (v :: u32)) = ucast v"
  by (rule bit_word_eqI) (auto simp: low_def bit_take_bit_iff bit_ucast_iff dest: bit_imp_le_length)

lemma ucast_low32 [simp]: "(ucast (low W32 v) :: u32) = ucast v"
  by (rule bit_word_eqI) (auto simp: low_def bit_take_bit_iff bit_ucast_iff)

lemma ucast_ucast_low32: "(ucast (ucast v :: u32) :: u64) = low W32 v"
  by (rule bit_word_eqI) (auto simp: low_def bit_take_bit_iff bit_ucast_iff dest: bit_imp_le_length)

lemma rdw_cell32: "rdw m W32 a = ucast (cell32 m a)"
  by (simp add: cell32_def ucast_ucast_low32)

lemma ucast_down_up [simp]: "(ucast (ucast (v :: u32) :: u64) :: u32) = v"
  by (rule bit_word_eqI) (auto simp: bit_ucast_iff)

lemma ucast_u32_inj [simp]: "(ucast (x :: u32) :: u64) = ucast y \<longleftrightarrow> x = y"
  by (metis ucast_down_up)

lemma ucast_byte [simp]: "(ucast (push_bit 8 (drop_bit 8 x) OR low W8 v) :: u8) = ucast (v :: u64)"
  by (rule bit_word_eqI) (auto simp: low_def bit_take_bit_iff bit_ucast_iff bit_or_iff bit_push_bit_iff)

lemmas machine = call_def call8_def call32_def callv_def put_w_def get_w_def Let_def

lemma ucast_add32 [simp]: "(ucast (ucast a + ucast b :: u64) :: u32) = a + b"
proof (rule unat_eqI)
  show "unat (ucast (ucast a + ucast b :: u64) :: u32) = unat (a + b)"
    using unat_lt32 [of a] unat_lt32 [of b]
    by (simp add: unsigned_ucast_eq unat_word_ariths take_bit_eq_mod mod_mod_cancel)
qed

lemma wrw_add32: "wrw m W32 a (ucast x + ucast y) = wrw m W32 a (ucast (x + y :: u32))"
proof -
  have "low W32 (ucast x + ucast y) = ucast (ucast (ucast x + ucast y :: u64) :: u32)"
    by (simp only: ucast_ucast_low32)
  then have "low W32 (ucast x + ucast y) = ucast (x + y :: u32)" by simp
  then show ?thesis by (metis wrw_low)
qed

lemma cas32_eq:
  "call8 cas_code c a (ucast old) (ucast new) m =
    (if has m W32 a then
       Some (if cell32 m a = old then (1, set32 m a new) else (0, m))
     else None)"
  by (auto simp: machine cas_code_def rdw_cell32 set32_def)

lemma cas64_eq:
  "call8 cas64_code c a old new m =
    (if has m W64 a then
       Some (if cell64 m a = old then (1, set64 m a new) else (0, m))
     else None)"
  by (auto simp: machine cas64_code_def cell64_def set64_def)

lemma casp1_eq:
  "call8 casp1_code c a old new m =
    (if has m W64 old then
       Some (if cell64 m old = old then (1, set64 m old new) else (0, m))
     else None)"
  by (auto simp: machine casp1_code_def cell64_def set64_def)

lemma xadd32_eq:
  "call32 xadd_code c a (ucast delta) 0 m =
    (if has m W32 a then
       Some (cell32 m a + delta, set32 m a (cell32 m a + delta))
     else None)"
  by (auto simp: machine xadd_code_def rdw_cell32 set32_def wrw_add32 add.commute)

lemma xadd64_eq:
  "call xadd64_code c a delta 0 m =
    (if has m W64 a then Some (cell64 m a + delta, set64 m a (cell64 m a + delta)) else None)"
  by (auto simp: machine xadd64_code_def cell64_def set64_def add.commute)

lemma xchg32_eq:
  "call32 xchg_code c a (ucast new) 0 m =
    (if has m W32 a then Some (cell32 m a, set32 m a new) else None)"
  by (auto simp: machine xchg_code_def rdw_cell32 set32_def)

lemma xchg64_eq:
  "call xchg64_code c a new 0 m =
    (if has m W64 a then Some (cell64 m a, set64 m a new) else None)"
  by (auto simp: machine xchg64_code_def cell64_def set64_def)

lemma store32_eq:
  "callv store_code c a (ucast new) 0 m = (if has m W32 a then Some (set32 m a new) else None)"
  by (auto simp: machine store_code_def set32_def)

lemma store64_eq:
  "callv store64_code c a new 0 m = (if has m W64 a then Some (set64 m a new) else None)"
  by (auto simp: machine store64_code_def set64_def)

end
