(* ===== verification/Atomic_Register.thy ===== *)
theory Atomic_Register
  imports Atomics
begin

text \<open>
  The contract of the atomic operations: each family works on its cell as one atomic register,
  whose operations are total and whose results are those of the documented sequential meaning
  (\<open>atomic.h\<close>). The locale states the contract and carries its consequences for histories; it is
  interpreted for every family that honours it. The signed 32-bit load and the pointer
  compare-and-swap do not.
\<close>

section \<open>The register\<close>

datatype 'v reg_op = Load | StoreOp 'v | Swap 'v | Cas 'v 'v | AddOp 'v
datatype 'v reg_result = Done | Value 'v | Flag bool

text \<open>Result and new value; \<open>Add\<close> returns the new value, \<open>Swap\<close> the previous one.\<close>

fun reg_spec :: "'v::plus reg_op \<Rightarrow> 'v \<Rightarrow> 'v reg_result \<times> 'v" where
  "reg_spec Load v = (Value v, v)"
| "reg_spec (StoreOp x) v = (Done, x)"
| "reg_spec (Swap x) v = (Value v, x)"
| "reg_spec (Cas old new) v = (if v = old then (Flag True, new) else (Flag False, v))"
| "reg_spec (AddOp d) v = (Value (v + d), v + d)"

fun reg_history :: "'v::plus reg_op list \<Rightarrow> 'v \<Rightarrow> 'v reg_result list \<times> 'v" where
  "reg_history [] v = ([], v)"
| "reg_history (op # ops) v =
     (let (r, v) = reg_spec op v; (rs, v) = reg_history ops v in (r # rs, v))"

fun performs :: "('o \<Rightarrow> 'm \<Rightarrow> ('r \<times> 'm) option) \<Rightarrow> 'o list \<Rightarrow> 'm \<Rightarrow> ('r list \<times> 'm) option" where
  "performs perform [] m = Some ([], m)"
| "performs perform (op # ops) m = do {
     (r, m) \<leftarrow> perform op m;
     (rs, m) \<leftarrow> performs perform ops m;
     Some (r # rs, m) }"

locale atomic_register =
  fixes perform :: "'v::plus reg_op \<Rightarrow> 'm \<Rightarrow> ('v reg_result \<times> 'm) option"
    and cell :: "'m \<Rightarrow> 'v"
    and ready :: "'m \<Rightarrow> bool"
  assumes refines: "ready m \<Longrightarrow> \<exists>m'. perform op m = Some (fst (reg_spec op (cell m)), m') \<and>
      cell m' = snd (reg_spec op (cell m)) \<and> ready m'"
begin

lemma history:
  assumes "ready m"
  shows "\<exists>m'. performs perform ops m = Some (fst (reg_history ops (cell m)), m') \<and>
    cell m' = snd (reg_history ops (cell m)) \<and> ready m'"
  using assms
proof (induction ops arbitrary: m)
  case Nil
  then show ?case by simp
next
  case (Cons op ops)
  obtain m1 where m1: "perform op m = Some (fst (reg_spec op (cell m)), m1)"
      "cell m1 = snd (reg_spec op (cell m))" "ready m1"
    using refines [OF Cons.prems] by blast
  obtain m2 where "performs perform ops m1 = Some (fst (reg_history ops (cell m1)), m2)"
      "cell m2 = snd (reg_history ops (cell m1))" "ready m2"
    using Cons.IH [OF m1(3)] by blast
  then show ?case using m1 by (simp add: Let_def split: prod.split)
qed

text \<open>An increment by compare-and-swap succeeds when nobody intervenes.\<close>

lemma cas_after_load:
  assumes "ready m"
  shows "\<exists>m'. performs perform [Load, Cas (cell m) (cell m + d), Load] m =
    Some ([Value (cell m), Flag True, Value (cell m + d)], m')"
  using history [OF assms, of "[Load, Cas (cell m) (cell m + d), Load]"] by auto

end

section \<open>The families of atomic.c\<close>

definition family ::
    "('m \<Rightarrow> 'v option) \<Rightarrow> ('v \<Rightarrow> 'm \<Rightarrow> 'm option) \<Rightarrow> ('v \<Rightarrow> 'm \<Rightarrow> ('v \<times> 'm) option) \<Rightarrow>
     ('v \<Rightarrow> 'v \<Rightarrow> 'm \<Rightarrow> (u8 \<times> 'm) option) \<Rightarrow> ('v \<Rightarrow> 'm \<Rightarrow> ('v \<times> 'm) option) \<Rightarrow>
     'v reg_op \<Rightarrow> 'm \<Rightarrow> ('v reg_result \<times> 'm) option" where
  "family load store swap cas add op m = (case op of
     Load \<Rightarrow> map_option (\<lambda>v. (Value v, m)) (load m)
   | StoreOp x \<Rightarrow> map_option (\<lambda>m. (Done, m)) (store x m)
   | Swap x \<Rightarrow> map_option (\<lambda>(v, m). (Value v, m)) (swap x m)
   | Cas old new \<Rightarrow> map_option (\<lambda>(f, m). (Flag (f \<noteq> 0), m)) (cas old new m)
   | AddOp d \<Rightarrow> map_option (\<lambda>(v, m). (Value v, m)) (add d m))"

definition uint32_ops :: "cpu \<Rightarrow> u64 \<Rightarrow> u32 reg_op \<Rightarrow> ram \<Rightarrow> (u32 reg_result \<times> ram) option" where
  "uint32_ops c a = family (load_uint32 a) (store_uint32 c a) (swap_uint32 c a)
     (compare_and_swap_uint32 c a) (add_uint32 c a)"

definition int32_ops :: "cpu \<Rightarrow> u64 \<Rightarrow> u32 reg_op \<Rightarrow> ram \<Rightarrow> (u32 reg_result \<times> ram) option" where
  "int32_ops c a = family (load_int32 a) (store_int32 c a) (swap_int32 c a)
     (compare_and_swap_int32 c a) (add_int32 c a)"

definition uint64_ops :: "cpu \<Rightarrow> u64 \<Rightarrow> u64 reg_op \<Rightarrow> ram \<Rightarrow> (u64 reg_result \<times> ram) option" where
  "uint64_ops c a = family (load_uint64 a) (store_uint64 c a) (swap_uint64 c a)
     (compare_and_swap_uint64 c a) (add_uint64 c a)"

definition int64_ops :: "cpu \<Rightarrow> u64 \<Rightarrow> u64 reg_op \<Rightarrow> ram \<Rightarrow> (u64 reg_result \<times> ram) option" where
  "int64_ops c a = family (load_int64 a) (store_int64 c a) (swap_int64 c a)
     (compare_and_swap_int64 c a) (add_int64 c a)"

definition uintptr_ops :: "cpu \<Rightarrow> u64 \<Rightarrow> u64 reg_op \<Rightarrow> ram \<Rightarrow> (u64 reg_result \<times> ram) option" where
  "uintptr_ops c a = family (load_uintptr a) (store_uintptr c a) (swap_uintptr c a)
     (compare_and_swap_uintptr c a) (add_uintptr c a)"

lemma cell_set [simp]: "cell32 (set32 m a v) a = v" "cell64 (set64 m a u) a = u"
  by (simp_all add: cell32_def set32_def cell64_def set64_def)

lemma has_set [simp]: "has (set32 m a v) w b = has m w b" "has (set64 m a u) w b = has m w b"
  by (simp_all add: set32_def set64_def)

lemmas ops32 = cas32_eq xadd32_eq xchg32_eq store32_eq c_load_def cell32_def [symmetric]
lemmas ops64 = cas64_eq xadd64_eq xchg64_eq store64_eq c_load64_def cell64_def [symmetric]

interpretation uint32: atomic_register "uint32_ops c a" "\<lambda>m. cell32 m a" "\<lambda>m. has m W32 a" for c a
proof
  fix m op assume "has m W32 a"
  then show "\<exists>m'. uint32_ops c a op m = Some (fst (reg_spec op (cell32 m a)), m') \<and>
      cell32 m' a = snd (reg_spec op (cell32 m a)) \<and> has m' W32 a"
    by (cases op) (auto simp: uint32_ops_def family_def wrappers ops32)
qed

interpretation uint64: atomic_register "uint64_ops c a" "\<lambda>m. cell64 m a" "\<lambda>m. has m W64 a" for c a
proof
  fix m op assume "has m W64 a"
  then show "\<exists>m'. uint64_ops c a op m = Some (fst (reg_spec op (cell64 m a)), m') \<and>
      cell64 m' a = snd (reg_spec op (cell64 m a)) \<and> has m' W64 a"
    by (cases op) (auto simp: uint64_ops_def family_def wrappers ops64)
qed

text \<open>The other two 64-bit families are the same functions under other C types.\<close>

lemma families64: "int64_ops = uint64_ops" "uintptr_ops = uint64_ops"
  by (intro ext, simp add: int64_ops_def uint64_ops_def family_def wrappers split: reg_op.split)
    (intro ext, simp add: uintptr_ops_def uint64_ops_def family_def wrappers split: reg_op.split)

lemma int32_no_load: "op \<noteq> Load \<Longrightarrow> int32_ops c a op m = uint32_ops c a op m"
  by (cases op) (simp_all add: int32_ops_def uint32_ops_def family_def wrappers)

end
