(* ===== verification/Goruntime.thy ===== *)
theory Goruntime
  imports Atomic_Register
begin

text \<open>
  The test program \<open>rgoffi/go/gocruntime/goruntime.c\<close> but for its test with two threads: threads
  that call \<open>_xadd\<close>, interleaved instruction by instruction; filling and printing of memory; and
  \<open>main\<close>, which swaps a pointer. The scheduler appears as the choice of the thread that makes the
  next step.
\<close>

section \<open>Threads\<close>

type_synonym thread = "cpu \<times> instr list"

text \<open>One call \<open>_xadd(p, d)\<close>: the caller passes the arguments and calls the routine.\<close>

definition xadd_call :: "u64 \<Rightarrow> u32 \<Rightarrow> instr list" where
  "xadd_call p d = Imm RDI p # Imm RSI (ucast d) # xadd_code"

text \<open>A step of the machine: some thread that has not ended executes its next instruction.\<close>

inductive sched :: "thread list \<times> ram \<Rightarrow> thread list \<times> ram \<Rightarrow> bool" where
  run: "i < length ts \<Longrightarrow> ts ! i = (c, x # is) \<Longrightarrow> step x (c, m) = Some (c', m') \<Longrightarrow>
    sched (ts, m) (ts[i := (c', is)], m')"

inductive_cases schedE: "sched (ts, m) tm"

definition ended :: "thread list \<Rightarrow> bool" where
  "ended ts \<longleftrightarrow> list_all (\<lambda>(c, is). is = []) ts"

section \<open>What a thread still owes the cell\<close>

text \<open>
  \<open>owes p c is s\<close>: a thread with registers \<open>c\<close> and the instructions \<open>is\<close> before it is somewhere
  in a sequence of calls of \<open>_xadd\<close> on \<open>p\<close>, and will still add \<open>s\<close> in all.
\<close>

inductive owes :: "u64 \<Rightarrow> cpu \<Rightarrow> instr list \<Rightarrow> u32 \<Rightarrow> bool" for p where
  finished: "owes p c [] 0"
| entry: "(\<And>c''. owes p c'' is s) \<Longrightarrow> owes p c (xadd_call p d @ is) (d + s)"
| has_rdi: "rdi c = p \<Longrightarrow> (\<And>c''. owes p c'' is s) \<Longrightarrow> owes p c (Imm RSI (ucast d) # xadd_code @ is) (d + s)"
| has_args: "rdi c = p \<Longrightarrow> rsi c = ucast d \<Longrightarrow> (\<And>c''. owes p c'' is s) \<Longrightarrow>
    owes p c (xadd_code @ is) (d + s)"
| has_rax: "rdi c = p \<Longrightarrow> rax c = ucast d \<Longrightarrow> (\<And>c''. owes p c'' is s) \<Longrightarrow>
    owes p c (Xadd W32 RAX RDI # Add W32 RSI RAX # is) (d + s)"
| added: "(\<And>c''. owes p c'' is s) \<Longrightarrow> owes p c (Add W32 RSI RAX # is) s"

lemma owes_calls: "owes p c (concat (map (xadd_call p) ds)) (sum_list ds)"
  by (induction ds arbitrary: c) (auto intro: owes.intros)

text \<open>A step moves what is added from what is owed to the cell.\<close>

lemma owes_step:
  assumes "owes p c (x # is) s" and "has m W32 p"
  shows "\<exists>c' m' s'. step x (c, m) = Some (c', m') \<and> owes p c' is s' \<and>
    cell32 m' p + s' = cell32 m p + s \<and> (\<forall>w a. has m' w a = has m w a)"
  using assms(1)
proof (cases rule: owes.cases)
  case (entry is' s' d)
  then have "x = Imm RDI p" "is = Imm RSI (ucast d) # xadd_code @ is'" by (simp_all add: xadd_call_def)
  moreover have "owes p (c\<lparr>rdi := p\<rparr>) (Imm RSI (ucast d) # xadd_code @ is') (d + s')"
    using entry by (intro owes.has_rdi) simp_all
  ultimately show ?thesis using entry(2) by auto
next
  case (has_rdi is' s' d)
  have "owes p (c\<lparr>rsi := ucast d\<rparr>) (xadd_code @ is') (d + s')"
    using has_rdi by (intro owes.has_args) simp_all
  then show ?thesis using has_rdi by auto
next
  case (has_args d is' s')
  then have x: "x = Mov W32 RSI RAX" "is = Xadd W32 RAX RDI # Add W32 RSI RAX # is'"
    by (simp_all add: xadd_code_def)
  have "owes p (c\<lparr>rax := ucast d\<rparr>) (Xadd W32 RAX RDI # Add W32 RSI RAX # is') (d + s')"
    using has_args by (intro owes.has_rax) simp_all
  then show ?thesis using has_args x by (auto simp: put_w_def get_w_def)
next
  case (has_rax d is' s')
  have m: "wrw m W32 p (ucast (cell32 m p) + ucast d) = set32 m p (cell32 m p + d)"
    by (simp add: set32_def wrw_add32)
  have "owes p c'' (Add W32 RSI RAX # is') s'" for c'' using has_rax by (intro owes.added)
  then show ?thesis
    using has_rax assms(2) m
    by (auto simp: put_w_def get_w_def Let_def rdw_cell32)
next
  case (added)
  then show ?thesis by (auto simp: put_w_def)
qed

section \<open>Every interleaving\<close>

definition sums_to :: "u64 \<Rightarrow> u32 \<Rightarrow> thread list \<times> ram \<Rightarrow> bool" where
  "sums_to p v tm \<longleftrightarrow> (case tm of (ts, m) \<Rightarrow> has m W32 p \<and>
     (\<exists>ss. list_all2 (\<lambda>(c, is) s. owes p c is s) ts ss \<and> cell32 m p + sum_list ss = v))"

lemma sum_list_replace:
  fixes xs :: "u32 list"
  assumes "i < length xs"
  shows "sum_list (xs[i := y]) = sum_list xs + y - xs ! i"
  using assms
proof (induction xs arbitrary: i)
  case Nil
  then show ?case by simp
next
  case (Cons x xs)
  then show ?case by (cases i) (simp_all add: algebra_simps)
qed

lemma sched_sums:
  assumes "sched tm tm'" and "sums_to p v tm"
  shows "sums_to p v tm'"
  using assms(1)
proof cases
  case (run i ts c x "is" m c' m')
  obtain ss where ss: "has m W32 p" "list_all2 (\<lambda>(c, is) s. owes p c is s) ts ss"
      "cell32 m p + sum_list ss = v"
    using assms(2) run(1) by (auto simp: sums_to_def)
  have len: "i < length ss" using run(3) list_all2_lengthD [OF ss(2)] by simp
  have "owes p c (x # is) (ss ! i)" using list_all2_nthD [OF ss(2) run(3)] run(4) by simp
  then obtain s' where s': "owes p c' is s'" "cell32 m' p + s' = cell32 m p + ss ! i"
      "\<forall>w a. has m' w a = has m w a"
    using owes_step [OF _ ss(1)] run(5) by fastforce
  have "list_all2 (\<lambda>(c, is) s. owes p c is s) (ts[i := (c', is)]) (ss[i := s'])"
    using ss(2) s'(1) by (intro list_all2_update_cong) simp_all
  moreover have "cell32 m' p + sum_list (ss[i := s']) = v"
  proof -
    have "cell32 m' p + sum_list (ss[i := s']) = (cell32 m' p + s') + sum_list ss - ss ! i"
      unfolding sum_list_replace [OF len] by (simp add: algebra_simps)
    also have "\<dots> = cell32 m p + sum_list ss" unfolding s'(2) by (simp add: algebra_simps)
    finally show ?thesis using ss(3) by simp
  qed
  ultimately show ?thesis using run(2) ss(1) s'(3) by (auto simp: sums_to_def)
qed

lemma reach_sums: "sched\<^sup>*\<^sup>* tm tm' \<Longrightarrow> sums_to p v tm \<Longrightarrow> sums_to p v tm'"
  by (induction rule: rtranclp_induct) (auto intro: sched_sums)

lemma sums_progress:
  assumes "sums_to p v (ts, m)" and "\<not> ended ts"
  shows "\<exists>tm. sched (ts, m) tm"
proof -
  obtain ss where ss: "has m W32 p" "list_all2 (\<lambda>(c, is) s. owes p c is s) ts ss"
    using assms(1) by (auto simp: sums_to_def)
  obtain i where i: "i < length ts" "snd (ts ! i) \<noteq> []"
    using assms(2) unfolding ended_def list_all_length by (auto simp: split_beta)
  obtain c x "is" where t: "ts ! i = (c, x # is)" using i(2) by (cases "ts ! i"; cases "snd (ts ! i)") auto
  have "owes p c (x # is) (ss ! i)" using list_all2_nthD [OF ss(2) i(1)] t by simp
  then obtain c' m' where "step x (c, m) = Some (c', m')" using owes_step [OF _ ss(1)] by blast
  then show ?thesis using sched.run [OF i(1) t] by blast
qed

lemma ended_sum:
  assumes "sums_to p v (ts, m)" and "ended ts"
  shows "cell32 m p = v"
proof -
  obtain ss where ss: "list_all2 (\<lambda>(c, is) s. owes p c is s) ts ss" "cell32 m p + sum_list ss = v"
    using assms(1) by (auto simp: sums_to_def)
  have "sum_list ss = 0"
    using ss(1) assms(2)
  proof (induction ts ss rule: list_all2_induct)
    case Nil
    then show ?case by simp
  next
    case (Cons t ts s ss)
    then have "owes p (fst t) [] s" "sum_list ss = 0" by (auto simp: ended_def)
    then show ?case by (auto elim: owes.cases simp: xadd_call_def xadd_code_def)
  qed
  then show ?thesis using ss(2) by simp
qed

text \<open>The number of instructions left is the number of steps to come.\<close>

definition left :: "thread list \<Rightarrow> nat" where
  "left ts = sum_list (map (\<lambda>(c, is). length is) ts)"

lemma sched_left: "sched (ts, m) (ts', m') \<Longrightarrow> left ts = Suc (left ts')"
proof (erule schedE)
  fix i c x "is" c' m'' assume *: "i < length ts" "ts ! i = (c, x # is)" "(ts', m') = (ts[i := (c', is)], m'')"
  have "map (\<lambda>(c, is). length is) (ts[i := (c', is)]) = (map (\<lambda>(c, is). length is) ts)[i := length is]"
    by (simp add: map_update)
  moreover have "map (\<lambda>(c, is). length is) ts ! i = Suc (length is)" using * by simp
  ultimately show "left ts = Suc (left ts')"
    using * elem_le_sum_list [of i "map (\<lambda>(c, is). length is) ts"]
    by (simp add: left_def sum_list_update)
qed


lemma owes_threads:
  "sums_to p (cell32 m p + sum_list (map sum_list dss)) (map (\<lambda>(c, ds). (c, concat (map (xadd_call p) ds))) (zip cs dss), m)"
  if "has m W32 p" and "length cs = length dss"
proof -
  have "list_all2 (\<lambda>(c, is) s. owes p c is s)
      (map (\<lambda>(c, ds). (c, concat (map (xadd_call p) ds))) (zip cs dss)) (map sum_list dss)"
    using that(2)
  proof (induction cs dss rule: list_induct2)
    case Nil
    then show ?case by simp
  next
    case (Cons c cs ds dss)
    then show ?case using owes_calls by simp
  qed
  then show ?thesis using that(1) by (auto simp: sums_to_def)
qed

text \<open>Every run can be continued until all threads have ended.\<close>

lemma sums_complete:
  assumes "sums_to p v (ts, m)"
  shows "\<exists>ts' m'. (sched ^^ left ts) (ts, m) (ts', m') \<and> ended ts'"
  using assms
proof (induction "left ts" arbitrary: ts m)
  case 0
  then have "ended ts" by (auto simp: ended_def left_def list_all_iff)
  then show ?case using 0(1) by (intro exI [of _ ts] exI [of _ m]) (simp flip: 0(1))
next
  case (Suc k)
  have "left ts = 0" if "ended ts" using that by (induction ts) (auto simp: ended_def left_def)
  then have "\<not> ended ts" using Suc(2) by auto
  then obtain ts1 m1 where s: "sched (ts, m) (ts1, m1)" using sums_progress [OF Suc(3)] by auto
  then have l: "k = left ts1" using sched_left Suc(2) by fastforce
  obtain ts' m' where "(sched ^^ left ts1) (ts1, m1) (ts', m')" "ended ts'"
    using Suc(1) [OF l sched_sums [OF s Suc(3)]] by blast
  then have "(sched ^^ Suc (left ts1)) (ts, m) (ts', m')" by (intro relpowp_Suc_I2 [of _ _ "(ts1, m1)"] s)
  then have "(sched ^^ left ts) (ts, m) (ts', m')" using Suc(2) l by (simp only:)
  then show ?case using \<open>ended ts'\<close> by blast
qed

section \<open>Filling and printing memory\<close>

text \<open>
  \<open>for (i = 0; i < size; i++) *(ptr + i) = rand() % 0xff\<close>: \<open>rnd i\<close> is what the \<open>i\<close>-th call of
  \<open>rand\<close> after \<open>srand\<close> returns. The loop counts in \<open>intptr_t\<close>, so a negative size is none.
\<close>

fun write_loop :: "(nat \<Rightarrow> nat) \<Rightarrow> u64 \<Rightarrow> nat \<Rightarrow> nat \<Rightarrow> ram \<Rightarrow> ram option" where
  "write_loop rnd p i 0 m = Some m"
| "write_loop rnd p i (Suc k) m =
     (if has m W8 (p + of_nat i)
      then write_loop rnd p (Suc i) k (wrw m W8 (p + of_nat i) (of_nat (rnd i mod 0xff)))
      else None)"

definition write_memory :: "(nat \<Rightarrow> nat) \<Rightarrow> u64 \<Rightarrow> u64 \<Rightarrow> ram \<Rightarrow> ram option" where
  "write_memory rnd p sz m = write_loop rnd p 0 (nat (sint sz)) m"

text \<open>\<open>read_memory\<close>: the bytes it prints.\<close>

fun read_loop :: "u64 \<Rightarrow> nat \<Rightarrow> nat \<Rightarrow> ram \<Rightarrow> u8 list option" where
  "read_loop p i 0 m = Some []"
| "read_loop p i (Suc k) m =
     (if has m W8 (p + of_nat i)
      then map_option (\<lambda>bs. ucast (rdw m W8 (p + of_nat i)) # bs) (read_loop p (Suc i) k m)
      else None)"

definition read_memory :: "u64 \<Rightarrow> u64 \<Rightarrow> ram \<Rightarrow> u8 list option" where
  "read_memory p sz m = read_loop p 0 (nat (sint sz)) m"

lemma byte_cell:
  "has m W8 a \<longleftrightarrow> present m a" "(ucast (rdw m W8 a) :: u8) = cells m a"
  "cells (wrw m W8 a v) = (cells m)(a := ucast v)" "present (wrw m w a v) = present m"
proof -
  show "has m W8 a \<longleftrightarrow> present m a" by (simp add: has_def)
  show "(ucast (rdw m W8 a) :: u8) = cells m a"
    by (rule bit_word_eqI) (auto simp: rdw_def bit_ucast_iff bit_or_iff)
  show "cells (wrw m W8 a v) = (cells m)(a := ucast v)"
    by (rule ext) (auto simp: wrw_def st_bytes_def byte_of_def unat_eq_0)
qed (simp add: wrw_def)

lemma ucast_of_nat8: "(ucast (of_nat n :: u64) :: u8) = of_nat n"
  by (rule bit_word_eqI) (auto simp: bit_ucast_iff bit_of_nat_iff)

text \<open>Both loops of the repository that fill memory store a byte that depends on the index.\<close>

fun store_loop :: "(nat \<Rightarrow> u64) \<Rightarrow> u64 \<Rightarrow> nat \<Rightarrow> nat \<Rightarrow> ram \<Rightarrow> ram option" where
  "store_loop g p i 0 m = Some m"
| "store_loop g p i (Suc k) m =
     (if has m W8 (p + of_nat i) then store_loop g p (Suc i) k (wrw m W8 (p + of_nat i) (g i))
      else None)"

lemma write_loop_store: "write_loop rnd p i k m = store_loop (\<lambda>i. of_nat (rnd i mod 0xff)) p i k m"
  by (induction rnd p i k m rule: write_loop.induct) simp_all

lemma store_loop_ok:
  assumes "\<And>j. j < n \<Longrightarrow> present m (p + of_nat j)" and "n \<le> 2 ^ 64" and "i + k \<le> n"
  shows "\<exists>m'. store_loop g p i k m = Some m' \<and> present m' = present m \<and>
    (\<forall>j < n. cells m' (p + of_nat j) =
       (if i \<le> j \<and> j < i + k then ucast (g j) else cells m (p + of_nat j))) \<and>
    (\<forall>x. (\<forall>j < n. x \<noteq> p + of_nat j) \<longrightarrow> cells m' x = cells m x)"
  using assms(1,3)
proof (induction k arbitrary: i m)
  case 0
  then show ?case by (intro exI [of _ m]) auto
next
  case (Suc k)
  let ?m = "wrw m W8 (p + of_nat i) (g i)"
  have i: "i < n" using Suc.prems(2) by simp
  have inj: "p + of_nat j = p + of_nat i \<longleftrightarrow> j = i" if "j < n" for j
  proof -
    have "unat (of_nat j :: u64) = j" "unat (of_nat i :: u64) = i"
      using that i assms(2) by (auto intro!: unat_of_nat64)
    then show ?thesis by (metis add_left_cancel)
  qed
  obtain m' where m': "store_loop g p (Suc i) k ?m = Some m'" "present m' = present ?m"
      "\<forall>j < n. cells m' (p + of_nat j) =
         (if Suc i \<le> j \<and> j < Suc i + k then ucast (g j) else cells ?m (p + of_nat j))"
      "\<forall>x. (\<forall>j < n. x \<noteq> p + of_nat j) \<longrightarrow> cells m' x = cells ?m x"
    using Suc.IH [of ?m "Suc i"] Suc.prems by (auto simp: byte_cell(4))
  have "cells m' (p + of_nat j) =
      (if i \<le> j \<and> j < i + Suc k then ucast (g j) else cells m (p + of_nat j))"
    if "j < n" for j
    using m'(3) that inj [OF that] by (auto simp: byte_cell(3))
  moreover have "has m W8 (p + of_nat i)" using Suc.prems(1) [OF i] by (simp add: byte_cell(1))
  ultimately show ?case
    using m'(1,2,4) i by (intro exI [of _ m']) (auto simp: byte_cell(3,4))
qed

lemma write_loop_ok:
  assumes "\<And>j. j < n \<Longrightarrow> present m (p + of_nat j)" and "n \<le> 2 ^ 64" and "i + k \<le> n"
  shows "\<exists>m'. write_loop rnd p i k m = Some m' \<and> present m' = present m \<and>
    (\<forall>j < n. cells m' (p + of_nat j) =
       (if i \<le> j \<and> j < i + k then of_nat (rnd j mod 0xff) else cells m (p + of_nat j))) \<and>
    (\<forall>x. (\<forall>j < n. x \<noteq> p + of_nat j) \<longrightarrow> cells m' x = cells m x)"
  using store_loop_ok [OF assms, of "\<lambda>i. of_nat (rnd i mod 0xff)"]
  by (simp only: write_loop_store ucast_of_nat8)

lemma read_loop_ok:
  assumes "\<And>j. j < i + k \<Longrightarrow> present m (p + of_nat j)"
  shows "read_loop p i k m = Some (map (\<lambda>j. cells m (p + of_nat j)) [i..<i + k])"
  using assms
proof (induction k arbitrary: i)
  case 0
  then show ?case by simp
next
  case (Suc k)
  have "read_loop p (Suc i) k m = Some (map (\<lambda>j. cells m (p + of_nat j)) [Suc i..<Suc i + k])"
    using Suc.prems by (intro Suc.IH) simp
  moreover have "present m (p + of_nat i)" using Suc.prems by simp
  moreover have "[i..<i + Suc k] = i # [Suc i..<Suc i + k]" by (simp add: upt_conv_Cons)
  ultimately show ?case by (simp add: byte_cell(1,2))
qed

section \<open>main\<close>

text \<open>
  \<open>ptr\<close> and \<open>val\<close> are local variables at the addresses \<open>ap\<close> and \<open>av\<close>; \<open>g\<close> is the memory the Go
  runtime returns. The value is the pair of numbers printed.
\<close>

definition goruntime_main :: "u64 \<Rightarrow> u64 \<Rightarrow> u64 \<Rightarrow> cpu \<Rightarrow> ram \<Rightarrow> (u32 \<times> u32) option" where
  "goruntime_main g ap av c m =
     (if has m W64 ap \<and> has m W32 av \<and> has m W32 g then do {
        let m = set64 m ap g;
        let m = set32 m (cell64 m ap) 80;
        let m = set32 m av 0xca;
        (temp, m) \<leftarrow> swap_pointer c ap av m;
        if has m W32 (cell64 m ap) then Some (cell32 m (cell64 m ap), cell32 m av) else None
      } else None)"

end
