(* ===== verification/Goruntime_Theorems.thy ===== *)
theory Goruntime_Theorems
  imports Goruntime
begin

text \<open>
  The theorems on the atomic operations and the programs that use them, each with an instance on a
  memory that is zero and present everywhere but on the page at 0.
\<close>

section \<open>A memory\<close>

definition zero_ram :: ram where
  "zero_ram = \<lparr>cells = (\<lambda>_. 0), present = (\<lambda>x. 4096 \<le> x)\<rparr>"

definition any_cpu :: cpu where
  "any_cpu = \<lparr>rax = 7, rdi = 0, rsi = 1, rdx = 2, zf = True\<rparr>"

lemma zero_cells: "cell32 zero_ram a = 0" "cell64 zero_ram a = 0" "cells zero_ram a = 0"
  by (simp_all add: cell32_def cell64_def rdw_def zero_ram_def ld_bytes_zero)

lemma zero_has:
  assumes "4096 \<le> unat a" and "unat a + 8 \<le> 2 ^ 47"
  shows "has zero_ram w a"
proof -
  have "unat (a + of_nat i) = unat a + i" if "i < 8" for i
    using assms that by (intro unat_offset) simp
  moreover have "nbytes w \<le> 8" by (cases w) simp_all
  ultimately show ?thesis
    using assms(1) by (auto simp: has_def zero_ram_def word_le_nat_alt)
qed

section \<open>Registers\<close>

text \<open>Called one after the other, the \<open>uint32\<close> operations make the cell a register: whatever sequence
  of loads, stores, swaps, compare-and-swaps and additions is made through them, the results and
  the final contents are those of the specification, in which addition wraps and returns the new
  value. Calls that interleave are the subject of \<open>Atomic_Linear\<close>.\<close>

theorem uint32_register:
  assumes "has m W32 a"
  shows "\<exists>m'. performs (uint32_ops c a) ops m = Some (fst (reg_history ops (cell32 m a)), m') \<and>
    cell32 m' a = snd (reg_history ops (cell32 m a))"
  using uint32.history [OF assms] by blast

lemma uint32_register_witness:
  "\<exists>m'. performs (uint32_ops any_cpu 0x1000) [AddOp 5, Cas 5 7, Cas 5 8, Swap 1, AddOp (- 2), Load] zero_ram =
      Some ([Value 5, Flag True, Flag False, Value 7, Value (- 1), Value (- 1)], m') \<and> cell32 m' 0x1000 = - 1"
proof -
  have "has zero_ram W32 0x1000" by (rule zero_has) simp_all
  then show ?thesis
    using uint32_register [of zero_ram "0x1000" any_cpu "[AddOp 5, Cas 5 7, Cas 5 8, Swap 1, AddOp (- 2), Load]"]
    by (simp add: zero_cells)
qed

text \<open>So do the \<open>uint64\<close>, \<open>int64\<close> and \<open>uintptr\<close> operations, which are the same functions.\<close>

theorem wide_registers:
  assumes "has m W64 a" and "fam \<in> {uint64_ops, int64_ops, uintptr_ops}"
  shows "\<exists>m'. performs (fam c a) ops m = Some (fst (reg_history ops (cell64 m a)), m') \<and>
    cell64 m' a = snd (reg_history ops (cell64 m a))"
  using uint64.history [OF assms(1)] assms(2) families64 by auto

lemma wide_registers_witness:
  "\<exists>m'. performs (int64_ops any_cpu 0x1000) [AddOp 1, AddOp (- 2), Swap 9, Load] zero_ram =
      Some ([Value 1, Value (- 1), Value (- 1), Value 9], m')"
proof -
  have "has zero_ram W64 0x1000" by (rule zero_has) simp_all
  then show ?thesis
    using wide_registers [of zero_ram "0x1000" int64_ops any_cpu "[AddOp 1, AddOp (- 2), Swap 9, Load]"]
    by (auto simp: zero_cells)
qed

text \<open>\<open>load_int32\<close> is a stub: whatever was stored before, it returns 0, where \<open>load_uint32\<close>
  returns what \<open>store_int32\<close> stored.\<close>

theorem load_int32_stub:
  assumes "has m W32 a"
  shows "\<exists>m'. store_int32 c a v m = Some m' \<and> load_uint32 a m' = Some v \<and> load_int32 a m' = Some 0"
  using assms by (simp add: store_int32_def store32_eq load_uint32_def c_load_def
      load_int32_def cell32_def [symmetric])

lemma load_int32_stub_witness:
  "\<exists>m'. store_int32 any_cpu 0x1000 5 zero_ram = Some m' \<and> load_int32 0x1000 m' = Some 0"
proof -
  have "has zero_ram W32 0x1000" by (rule zero_has) simp_all
  then show ?thesis using load_int32_stub by blast
qed

text \<open>\<open>compare_and_swap_pointer\<close> does not look at the cell it is given: it compares the word the
  old value points to with the old value, replaces that word, and faults when the old value is no
  valid address, as NULL is not.\<close>

theorem cas_pointer_ignores_cell:
  "compare_and_swap_pointer c a old new m =
    (if has m W64 old then
       Some (if cell64 m old = old then (1, set64 m old new) else (0, m))
     else None)"
  by (simp add: compare_and_swap_pointer_def casp1_eq)

text \<open>The bit routines replace the word by its disjunction or conjunction with the argument and
  fault only where the word is absent.\<close>

theorem bit_routines:
  "callv or_code c a (ucast v) 0 m = (if has m W32 a then Some (set32 m a (cell32 m a OR v)) else None) \<and>
   callv and_code c a (ucast v) 0 m = (if has m W32 a then Some (set32 m a (cell32 m a AND v)) else None)"
proof -
  have "(ucast x OR ucast y :: u64) = ucast (x OR y)" "(ucast x AND ucast y :: u64) = ucast (x AND y)"
    for x y :: u32
    by (rule bit_word_eqI, auto simp: bit_ucast_iff bit_or_iff bit_and_iff)+
  then show ?thesis
    by (simp add: machine or_code_def and_code_def rdw_cell32 set32_def)
qed

section \<open>Threads\<close>

text \<open>C40: Any number of threads that each add a list of numbers with \<open>_xadd\<close> leave in the cell its old
  value plus all of them, in every interleaving.\<close>

theorem xadd_threads_sum:
  assumes "has m W32 p" and "length cs = length dss"
    and "sched\<^sup>*\<^sup>* (map (\<lambda>(c, ds). (c, concat (map (xadd_call p) ds))) (zip cs dss), m) (ts, m')"
    and "ended ts"
  shows "cell32 m' p = cell32 m p + sum_list (map sum_list dss)"
  using ended_sum [OF reach_sums [OF assms(3) owes_threads [OF assms(1,2)]] assms(4)] .

lemma xadd_threads_sum_witness:
  "\<exists>ts m'. sched\<^sup>*\<^sup>* (map (\<lambda>(c, ds). (c, concat (map (xadd_call 0x1000) ds)))
      (zip [any_cpu, any_cpu, any_cpu] [[1, 2], [3], [- 1]]), zero_ram) (ts, m') \<and> ended ts \<and> cell32 m' 0x1000 = 5"
proof -
  let ?ts = "map (\<lambda>(c, ds). (c, concat (map (xadd_call 0x1000) ds)))
    (zip [any_cpu, any_cpu, any_cpu] [[1, 2], [3], [- 1]])"
  have h: "has zero_ram W32 0x1000" by (rule zero_has) simp_all
  have len: "length [any_cpu, any_cpu, any_cpu] = length [[1, 2], [3], [- 1 :: u32]]" by simp
  obtain ts m' where r: "sched\<^sup>*\<^sup>* (?ts, zero_ram) (ts, m')" "ended ts"
    using sums_complete [OF owes_threads [OF h len]] relpowp_imp_rtranclp by metis
  then have "cell32 m' 0x1000 = 5" using xadd_threads_sum [OF h len r] by (simp add: zero_cells)
  then show ?thesis using r by blast
qed

section \<open>goruntime.c\<close>

text \<open>\<open>read_memory\<close> after \<open>write_memory\<close> prints what the random numbers are modulo 255, one byte
  for each position; nothing outside the block is changed, and a negative size writes nothing.\<close>

theorem write_read_memory:
  assumes "\<And>j. j < nat (sint sz) \<Longrightarrow> present m (p + of_nat j)"
  shows "\<exists>m'. write_memory rnd p sz m = Some m' \<and>
    read_memory p sz m' = Some (map (\<lambda>j. of_nat (rnd j mod 255)) [0..<nat (sint sz)]) \<and>
    (\<forall>x. (\<forall>j < nat (sint sz). x \<noteq> p + of_nat j) \<longrightarrow> cells m' x = cells m x)"
proof -
  let ?n = "nat (sint sz)"
  have n: "?n \<le> 2 ^ 64" using sint_lt [of sz] by simp
  obtain m' where m': "write_loop rnd p 0 ?n m = Some m'" "present m' = present m"
      "\<forall>j < ?n. cells m' (p + of_nat j) =
         (if 0 \<le> j \<and> j < 0 + ?n then of_nat (rnd j mod 0xff) else cells m (p + of_nat j))"
      "\<forall>x. (\<forall>j < ?n. x \<noteq> p + of_nat j) \<longrightarrow> cells m' x = cells m x"
    using write_loop_ok [OF assms n, of 0 ?n rnd] by auto
  have "read_loop p 0 ?n m' = Some (map (\<lambda>j. cells m' (p + of_nat j)) [0..<0 + ?n])"
    using assms m'(2) by (intro read_loop_ok) simp
  also have "map (\<lambda>j. cells m' (p + of_nat j)) [0..<0 + ?n] = map (\<lambda>j. of_nat (rnd j mod 255)) [0..<?n]"
    using m'(3) by simp
  finally show ?thesis using m'(1,4) by (auto simp: write_memory_def read_memory_def)
qed

lemma write_read_memory_witness:
  "\<exists>m'. write_memory ((+) 254) 0x1000 3 zero_ram = Some m' \<and> read_memory 0x1000 3 m' = Some [254, 0, 1]"
proof -
  have n: "nat (sint (3 :: u64)) = 3" by simp
  have "present zero_ram (0x1000 + of_nat j)" if "j < nat (sint (3 :: u64))" for j
  proof -
    have "unat ((0x1000 :: u64) + of_nat j) = 4096 + j"
      using that unfolding n by (subst unat_offset) simp_all
    then show ?thesis by (simp add: zero_ram_def word_le_nat_alt)
  qed
  from write_read_memory [of 3 zero_ram "0x1000" "(+) 254", OF this] show ?thesis
    unfolding n by (auto simp: upt_rec)
qed

text \<open>\<open>main\<close> of \<open>goruntime.c\<close>: the swap makes \<open>ptr\<close> point to \<open>val\<close>, so both numbers printed are
  202; the 80 stored in the memory of the Go runtime is not reached any more.\<close>

theorem goruntime_main_prints:
  assumes "has m W64 ap" and "has m W32 av" and "has m W32 g"
    and "unat ap + 8 \<le> unat av \<or> unat av + 4 \<le> unat ap"
    and "unat ap + 8 \<le> 2 ^ 47" and "unat av + 4 \<le> 2 ^ 47"
  shows "goruntime_main g ap av c m = Some (202, 202)"
proof -
  have "8 \<le> unat (av + of_nat i - ap)" if i: "i < 4" for i
  proof -
    have u: "unat (av + of_nat i) = unat av + i" using i assms(6) by (intro unat_offset) simp
    show ?thesis
    proof (cases "unat ap + 8 \<le> unat av")
      case True
      then show ?thesis using u by (simp add: unat_sub_nowrap)
    next
      case False
      then have "unat (av + of_nat i) < unat ap" using u i assms(4) by simp
      then show ?thesis using u i assms(5) by (simp add: unat_sub_wrap)
    qed
  qed
  then have "rdw (wrw m W64 ap v) W32 av = rdw m W32 av" for m v
    by (intro rdw_wrw_apart) simp
  then have "cell32 (set64 m ap v) av = cell32 m av" for m v
    by (simp add: cell32_def set64_def)
  then show ?thesis
    using assms(1-3) by (simp add: goruntime_main_def swap_pointer_def xchgp_code_def xchg64_eq Let_def)
qed

lemma goruntime_main_prints_witness: "goruntime_main 0x9000 0x2000 0x3000 any_cpu zero_ram = Some (202, 202)"
proof -
  have "has zero_ram W64 0x2000" "has zero_ram W32 0x3000" "has zero_ram W32 0x9000"
    by (rule zero_has; simp)+
  then show ?thesis by (intro goruntime_main_prints) simp_all
qed

end
