(* ===== verification/Atomic_Linear.thy ===== *)
theory Atomic_Linear
  imports Goruntime_Theorems
begin

text \<open>
  The atomic operations called by several threads at once. A routine runs instruction by
  instruction, between any two of which other threads run. The locale states when this cannot be
  told from an atomic object: the routine run alone meets the specification, and only one of its
  instructions touches memory. The effect of a call is then placed at that instruction.

  Memory is that of \<open>Machine\<close>: an instruction is one step. On the processor this is so for the
  locked instructions, and for a load when the cell is aligned; no routine stores without a lock.
\<close>

section \<open>Routines\<close>

text \<open>The three loads are C functions, \<open>return *ptr\<close>: one read of the cell into the result.\<close>

datatype micro = Asm instr | Fetch width

fun mstep :: "micro \<Rightarrow> cpu \<times> ram \<Rightarrow> (cpu \<times> ram) option" where
  "mstep (Asm i) cm = step i cm"
| "mstep (Fetch w) (c, m) =
     (if has m w (rdi c) then Some (put_w w RAX (rdw m w (rdi c)) c, m) else None)"

fun mexec :: "micro list \<Rightarrow> cpu \<times> ram \<Rightarrow> (cpu \<times> ram) option" where
  "mexec [] cm = Some cm"
| "mexec (x # xs) cm = do { cm \<leftarrow> mstep x cm; mexec xs cm }"

text \<open>What a family of operations is made of: the code of each operation, what the call puts in the
  registers, and the result as the caller takes it from them.\<close>

record 'v routines =
  body :: "'v reg_op \<Rightarrow> micro list"
  enter :: "'v reg_op \<Rightarrow> cpu \<Rightarrow> cpu"
  leave :: "'v reg_op \<Rightarrow> cpu \<Rightarrow> 'v reg_result"

definition alone :: "'v routines \<Rightarrow> cpu \<Rightarrow> 'v reg_op \<Rightarrow> ram \<Rightarrow> ('v reg_result \<times> ram) option" where
  "alone R c op m = map_option (\<lambda>(c, m). (leave R op c, m)) (mexec (body R op) (enter R op c, m))"

fun uint32_body :: "u32 reg_op \<Rightarrow> micro list" where
  "uint32_body Load = [Fetch W32]"
| "uint32_body (StoreOp x) = map Asm store_code"
| "uint32_body (Swap x) = map Asm xchg_code"
| "uint32_body (Cas old new) = map Asm cas_code"
| "uint32_body (AddOp d) = map Asm xadd_code"

fun uint32_enter :: "u64 \<Rightarrow> u32 reg_op \<Rightarrow> cpu \<Rightarrow> cpu" where
  "uint32_enter a Load c = c\<lparr>rdi := a\<rparr>"
| "uint32_enter a (StoreOp x) c = c\<lparr>rdi := a, rsi := ucast x, rdx := 0\<rparr>"
| "uint32_enter a (Swap x) c = c\<lparr>rdi := a, rsi := ucast x, rdx := 0\<rparr>"
| "uint32_enter a (Cas old new) c = c\<lparr>rdi := a, rsi := ucast old, rdx := ucast new\<rparr>"
| "uint32_enter a (AddOp d) c = c\<lparr>rdi := a, rsi := ucast d, rdx := 0\<rparr>"

fun uint32_leave :: "u32 reg_op \<Rightarrow> cpu \<Rightarrow> u32 reg_result" where
  "uint32_leave (StoreOp x) c = Done"
| "uint32_leave (Cas old new) c = Flag ((ucast (rax c) :: u8) \<noteq> 0)"
| "uint32_leave _ c = Value (ucast (rax c))"

definition uint32_routines :: "u64 \<Rightarrow> u32 routines" where
  "uint32_routines a = \<lparr>body = uint32_body, enter = uint32_enter a, leave = uint32_leave\<rparr>"

fun uint64_body :: "u64 reg_op \<Rightarrow> micro list" where
  "uint64_body Load = [Fetch W64]"
| "uint64_body (StoreOp x) = map Asm store64_code"
| "uint64_body (Swap x) = map Asm xchg64_code"
| "uint64_body (Cas old new) = map Asm cas64_code"
| "uint64_body (AddOp d) = map Asm xadd64_code"

fun uint64_enter :: "u64 \<Rightarrow> u64 reg_op \<Rightarrow> cpu \<Rightarrow> cpu" where
  "uint64_enter a Load c = c\<lparr>rdi := a\<rparr>"
| "uint64_enter a (StoreOp x) c = c\<lparr>rdi := a, rsi := x, rdx := 0\<rparr>"
| "uint64_enter a (Swap x) c = c\<lparr>rdi := a, rsi := x, rdx := 0\<rparr>"
| "uint64_enter a (Cas old new) c = c\<lparr>rdi := a, rsi := old, rdx := new\<rparr>"
| "uint64_enter a (AddOp d) c = c\<lparr>rdi := a, rsi := d, rdx := 0\<rparr>"

fun uint64_leave :: "u64 reg_op \<Rightarrow> cpu \<Rightarrow> u64 reg_result" where
  "uint64_leave (StoreOp x) c = Done"
| "uint64_leave (Cas old new) c = Flag ((ucast (rax c) :: u8) \<noteq> 0)"
| "uint64_leave _ c = Value (rax c)"

definition uint64_routines :: "u64 \<Rightarrow> u64 routines" where
  "uint64_routines a = \<lparr>body = uint64_body, enter = uint64_enter a, leave = uint64_leave\<rparr>"

text \<open>Run alone, the routines are the operations of \<open>atomic.c\<close>.\<close>

lemma mexec_asm: "mexec (map Asm is) = exec is"
  by (induction "is"; rule ext) simp_all

lemma map_bind_exec:
  "map_option g (Option.bind x (\<lambda>(c, m). Some (f c, m))) = map_option (\<lambda>(c, m). g (f c, m)) x"
  by (cases x) auto

lemmas routine_sides =
  alone_def family_def wrappers mexec_asm call8_def call32_def callv_def call_def map_bind_exec
  option.map_comp comp_def case_prod_unfold

lemma alone_uint32: "alone (uint32_routines a) c op m = uint32_ops c a op m"
  by (cases op)
    (simp_all add: routine_sides uint32_routines_def uint32_ops_def c_load_def put_w_def
      map_bind_exec [unfolded case_prod_unfold])

lemma alone_uint64: "alone (uint64_routines a) c op m = uint64_ops c a op m"
  by (cases op)
    (simp_all add: routine_sides uint64_routines_def uint64_ops_def c_load64_def put_w_def
      map_bind_exec [unfolded case_prod_unfold])

section \<open>Threads\<close>

text \<open>Every thread may call any operation at any time, with whatever its own code has left in the
  registers; then it runs the body, one instruction at a time, and returns. A move that is not
  possible, or an instruction that faults, has the value \<^term>\<open>None\<close>. The calls and returns are
  what the threads see.\<close>

datatype 'v thread = Idle | Inside "'v reg_op" cpu "micro list"
datatype 'v move = Invoke nat "'v reg_op" cpu | Advance nat | Finish nat
datatype 'v event = Calls nat "'v reg_op" | Takes nat | Returns nat "'v reg_result"

fun con_move :: "'v routines \<Rightarrow> 'v move \<Rightarrow> 'v thread list \<times> ram \<Rightarrow>
    ('v event list \<times> 'v thread list \<times> ram) option" where
  "con_move R (Invoke i op c) (ts, m) =
     (if i < length ts then case ts ! i of
        Idle \<Rightarrow> Some ([Calls i op], ts[i := Inside op (enter R op c) (body R op)], m)
      | Inside _ _ _ \<Rightarrow> None else None)"
| "con_move R (Advance i) (ts, m) =
     (if i < length ts then case ts ! i of
        Inside op c (x # xs) \<Rightarrow>
          map_option (\<lambda>(c, m). ([], ts[i := Inside op c xs], m)) (mstep x (c, m))
      | _ \<Rightarrow> None else None)"
| "con_move R (Finish i) (ts, m) =
     (if i < length ts then case ts ! i of
        Inside op c [] \<Rightarrow> Some ([Returns i (leave R op c)], ts[i := Idle], m)
      | _ \<Rightarrow> None else None)"

fun con_exec :: "'v routines \<Rightarrow> 'v move list \<Rightarrow> 'v thread list \<times> ram \<Rightarrow>
    ('v event list \<times> 'v thread list \<times> ram) option" where
  "con_exec R [] s = Some ([], s)"
| "con_exec R (mv # mvs) s = do {
     (ev, s) \<leftarrow> con_move R mv s;
     (tr, s) \<leftarrow> con_exec R mvs s;
     Some (ev @ tr, s) }"

text \<open>A thread that, from here, would return within three instructions of its own.\<close>

fun returns_soon :: "ram \<Rightarrow> 'v thread \<Rightarrow> bool" where
  "returns_soon m Idle = True"
| "returns_soon m (Inside op c xs) = (length xs \<le> 3 \<and> mexec xs (c, m) \<noteq> None)"

section \<open>The atomic object\<close>

text \<open>Between its call and its return an operation takes effect once, in one step, in which it gets
  the result and the new value of the specification.\<close>

datatype 'v phase = Rest | Asked "'v reg_op" | Answered "'v reg_result"

fun atom_move :: "'v::plus event \<Rightarrow> 'v phase list \<times> 'v \<Rightarrow> ('v phase list \<times> 'v) option" where
  "atom_move (Calls i op) (ps, v) =
     (if i < length ps \<and> ps ! i = Rest then Some (ps[i := Asked op], v) else None)"
| "atom_move (Takes i) (ps, v) =
     (if i < length ps then case ps ! i of
        Asked op \<Rightarrow> Some (ps[i := Answered (fst (reg_spec op v))], snd (reg_spec op v))
      | _ \<Rightarrow> None else None)"
| "atom_move (Returns i r) (ps, v) =
     (if i < length ps \<and> ps ! i = Answered r then Some (ps[i := Rest], v) else None)"

fun atom_exec :: "'v::plus event list \<Rightarrow> 'v phase list \<times> 'v \<Rightarrow> ('v phase list \<times> 'v) option" where
  "atom_exec [] s = Some s"
| "atom_exec (e # es) s = Option.bind (atom_move e s) (atom_exec es)"

fun visible :: "'v event \<Rightarrow> bool" where
  "visible (Takes i) = False"
| "visible _ = True"

lemma atom_exec_append: "atom_exec (xs @ ys) s = Option.bind (atom_exec xs s) (atom_exec ys)"
proof (induction xs arbitrary: s)
  case (Cons e xs)
  then show ?case by (cases "atom_move e s") simp_all
qed simp

section \<open>The simulation\<close>

fun register_only :: "micro \<Rightarrow> bool" where
  "register_only (Asm (Mov w s d)) = True"
| "register_only (Asm (Imm d v)) = True"
| "register_only (Asm (Add w s d)) = True"
| "register_only (Asm (Sete d)) = True"
| "register_only _ = False"

fun one_access :: "micro list \<Rightarrow> bool" where
  "one_access [] = False"
| "one_access (x # xs) = (list_all register_only xs \<or> register_only x \<and> one_access xs)"

lemma register_only_step:
  assumes "register_only x"
  obtains c' where "\<And>m. mstep x (c, m) = Some (c', m)"
  using assms by (cases x rule: register_only.cases) auto

lemma register_only_exec:
  assumes "list_all register_only xs"
  obtains c' where "\<And>m. mexec xs (c, m) = Some (c', m)"
  using assms
proof (induction xs arbitrary: c thesis)
  case (Cons x xs)
  from Cons.prems(2) have "register_only x" by simp
  then obtain c1 where c1: "\<And>m. mstep x (c, m) = Some (c1, m)" using register_only_step by metis
  obtain c' where "\<And>m. mexec xs (c1, m) = Some (c', m)" using Cons.IH Cons.prems(2) by auto
  then show ?case using c1 by (intro Cons.prems(1)) simp
qed simp

text \<open>The rest of a routine before and after its access.\<close>

definition undecided :: "'v::plus routines \<Rightarrow> (ram \<Rightarrow> 'v) \<Rightarrow> (ram \<Rightarrow> bool) \<Rightarrow> 'v reg_op \<Rightarrow> cpu \<Rightarrow> micro list \<Rightarrow> bool" where
  "undecided R cell ready op c xs \<longleftrightarrow> length xs \<le> 3 \<and> one_access xs \<and>
     (\<forall>m. ready m \<longrightarrow> (\<exists>c' m'. mexec xs (c, m) = Some (c', m') \<and>
        leave R op c' = fst (reg_spec op (cell m)) \<and> cell m' = snd (reg_spec op (cell m)) \<and> ready m'))"

definition decided :: "'v routines \<Rightarrow> 'v reg_op \<Rightarrow> 'v reg_result \<Rightarrow> cpu \<Rightarrow> micro list \<Rightarrow> bool" where
  "decided R op r c xs \<longleftrightarrow> length xs \<le> 3 \<and> list_all register_only xs \<and>
     (\<exists>c'. (\<forall>m. mexec xs (c, m) = Some (c', m)) \<and> leave R op c' = r)"

fun matches :: "'v::plus routines \<Rightarrow> (ram \<Rightarrow> 'v) \<Rightarrow> (ram \<Rightarrow> bool) \<Rightarrow> 'v thread \<Rightarrow> 'v phase \<Rightarrow> bool" where
  "matches R cell ready Idle p = (p = Rest)"
| "matches R cell ready (Inside op c xs) Rest = False"
| "matches R cell ready (Inside op c xs) (Asked op') = (op' = op \<and> undecided R cell ready op c xs)"
| "matches R cell ready (Inside op c xs) (Answered r) = decided R op r c xs"

lemma decided_step:
  assumes "decided R op r c (x # xs)" and "mstep x (c, m) = Some (c1, m1)"
  shows "decided R op r c1 xs \<and> m1 = m"
proof -
  from assms(1) have "register_only x" by (simp add: decided_def)
  then obtain c2 where c2: "\<And>m. mstep x (c, m) = Some (c2, m)" using register_only_step by metis
  moreover from this have "c2 = c1" "m1 = m" using assms(2) by simp_all
  ultimately show ?thesis using assms(1) by (auto simp: decided_def)
qed

text \<open>An instruction before the access changes nothing; the access decides the call.\<close>

lemma undecided_step:
  assumes u: "undecided R cell ready op c (x # xs)" and "ready m" and s: "mstep x (c, m) = Some (c1, m1)"
  shows "undecided R cell ready op c1 xs \<and> m1 = m \<or>
    decided R op (fst (reg_spec op (cell m))) c1 xs \<and> cell m1 = snd (reg_spec op (cell m)) \<and> ready m1"
proof -
  from u have "one_access (x # xs)" by (simp add: undecided_def)
  then consider "list_all register_only xs" | "register_only x" "one_access xs"
    by auto
  then show ?thesis
  proof cases
    case 1
    obtain c' where c': "\<And>m. mexec xs (c1, m) = Some (c', m)" using register_only_exec [OF 1] by metis
    from u \<open>ready m\<close> s c' have "leave R op c' = fst (reg_spec op (cell m))"
      "cell m1 = snd (reg_spec op (cell m))" "ready m1" by (auto simp: undecided_def)
    then show ?thesis using 1 c' u by (auto simp: decided_def undecided_def)
  next
    case 2
    obtain c2 where c2: "\<And>m. mstep x (c, m) = Some (c2, m)" using register_only_step [OF 2(1)] by metis
    then have "c2 = c1" "m1 = m" using s by simp_all
    then show ?thesis using u 2 c2 by (auto simp: undecided_def)
  qed
qed

lemma matches_returns_soon:
  assumes "matches R cell ready t p" and "ready m"
  shows "returns_soon m t"
  using assms by (cases t; cases p) (auto simp: undecided_def decided_def)

locale single_access =
  fixes R :: "'v::plus routines"
    and cell :: "ram \<Rightarrow> 'v"
    and ready :: "ram \<Rightarrow> bool"
  assumes meets: "atomic_register (alone R c) cell ready"
    and access: "one_access (body R op)"
    and short: "length (body R op) \<le> 3"
begin

lemma enter_undecided: "undecided R cell ready op (enter R op c) (body R op)"
proof -
  have "\<exists>c' m'. mexec (body R op) (enter R op c, m) = Some (c', m') \<and>
      leave R op c' = fst (reg_spec op (cell m)) \<and> cell m' = snd (reg_spec op (cell m)) \<and> ready m'"
    if "ready m" for m
    using atomic_register.refines [OF meets that, of c op] by (auto simp: alone_def)
  then show ?thesis by (simp add: undecided_def access short)
qed

text \<open>One move is answered by at most one step of the object besides the visible ones.\<close>

lemma move_simulated:
  assumes "con_move R mv (ts, m) = Some (ev, ts', m')"
    and "list_all2 (matches R cell ready) ts ps" and "ready m"
  shows "\<exists>lin ps'. filter visible lin = ev \<and> atom_exec lin (ps, cell m) = Some (ps', cell m') \<and>
    list_all2 (matches R cell ready) ts' ps' \<and> ready m'"
proof (cases mv)
  case (Invoke i op c)
  with assms have i: "i < length ts" "ts ! i = Idle" and ev: "ev = [Calls i op]" "m' = m"
      "ts' = ts[i := Inside op (enter R op c) (body R op)]"
    by (auto split: if_splits thread.splits)
  from i assms(2) have "ps ! i = Rest" "i < length ps" by (auto simp: list_all2_conv_all_nth)
  then have "atom_exec [Calls i op] (ps, cell m) = Some (ps[i := Asked op], cell m)" by simp
  moreover have "list_all2 (matches R cell ready) ts' (ps[i := Asked op])"
    unfolding ev using assms(2) by (rule list_all2_update_cong) (simp add: enter_undecided)
  moreover have "filter visible [Calls i op] = ev" by (simp add: ev)
  ultimately show ?thesis using ev assms(3) by blast
next
  case (Finish i)
  with assms(1) obtain op c where i: "i < length ts" "ts ! i = Inside op c []"
    and ev: "ev = [Returns i (leave R op c)]" "m' = m" "ts' = ts[i := Idle]"
    by (auto split: if_splits thread.splits list.splits)
  from i assms(2) have "matches R cell ready (Inside op c []) (ps ! i)" "i < length ps"
    by (auto simp: list_all2_conv_all_nth)
  then have "atom_exec ev (ps, cell m) = Some (ps[i := Rest], cell m)" unfolding ev
    by (cases "ps ! i") (auto simp: undecided_def decided_def)
  moreover have "list_all2 (matches R cell ready) ts' (ps[i := Rest])"
    unfolding ev using assms(2) by (rule list_all2_update_cong) simp
  moreover have "filter visible ev = ev" by (simp add: ev)
  ultimately show ?thesis using ev assms(3) by blast
next
  case (Advance i)
  with assms(1) obtain op c x xs c1 where i: "i < length ts" "ts ! i = Inside op c (x # xs)"
    and s: "mstep x (c, m) = Some (c1, m')" and ev: "ev = []" "ts' = ts[i := Inside op c1 xs]"
    by (auto split: if_splits thread.splits list.splits)
  have p: "matches R cell ready (Inside op c (x # xs)) (ps ! i)" "i < length ps"
    using i assms(2) by (auto simp: list_all2_conv_all_nth)
  have same: ?thesis if "matches R cell ready (Inside op c1 xs) (ps ! i)" "m' = m"
  proof -
    have "list_all2 (matches R cell ready) ts' (ps[i := ps ! i])"
      unfolding ev using assms(2) that(1) by (rule list_all2_update_cong)
    moreover have "atom_exec [] (ps, cell m) = Some (ps, cell m')" by (simp add: that)
    moreover have "filter visible [] = ev" by (simp add: ev)
    ultimately show ?thesis using that(2) assms(3) unfolding list_update_id by blast
  qed
  show ?thesis
  proof (cases "ps ! i")
    case Rest
    then show ?thesis using p by simp
  next
    case (Answered r)
    then have "decided R op r c1 xs \<and> m' = m" using decided_step [OF _ s] p by simp
    then show ?thesis using same Answered by simp
  next
    case (Asked op')
    with p have op': "op' = op" and u: "undecided R cell ready op c (x # xs)" by simp_all
    from undecided_step [OF u assms(3) s] show ?thesis
    proof
      assume "undecided R cell ready op c1 xs \<and> m' = m"
      then show ?thesis using Asked op' same by simp
    next
      assume d: "decided R op (fst (reg_spec op (cell m))) c1 xs \<and>
        cell m' = snd (reg_spec op (cell m)) \<and> ready m'"
      let ?p = "Answered (fst (reg_spec op (cell m)))"
      have "list_all2 (matches R cell ready) ts' (ps[i := ?p])"
        unfolding ev using assms(2) by (rule list_all2_update_cong) (simp add: d)
      moreover have "atom_exec [Takes i] (ps, cell m) = Some (ps[i := ?p], cell m')"
        using Asked op' p d by simp
      moreover have "filter visible [Takes i] = ev" by (simp add: ev)
      ultimately show ?thesis using d by blast
    qed
  qed
qed

lemma exec_simulated:
  assumes "con_exec R mvs (ts, m) = Some (tr, ts', m')"
    and "list_all2 (matches R cell ready) ts ps" and "ready m"
  shows "\<exists>lin ps'. filter visible lin = tr \<and> atom_exec lin (ps, cell m) = Some (ps', cell m') \<and>
    list_all2 (matches R cell ready) ts' ps' \<and> ready m'"
  using assms
proof (induction mvs arbitrary: ts m tr ps)
  case Nil
  then have "filter visible [] = tr" "atom_exec [] (ps, cell m) = Some (ps, cell m')" by simp_all
  moreover have "list_all2 (matches R cell ready) ts' ps" "ready m'" using Nil by simp_all
  ultimately show ?case by blast
next
  case (Cons mv mvs)
  then obtain ev ts1 m1 tr1 where one: "con_move R mv (ts, m) = Some (ev, ts1, m1)"
    and rest: "con_exec R mvs (ts1, m1) = Some (tr1, ts', m')" and tr: "tr = ev @ tr1"
    by (auto split: bind_splits)
  obtain lin1 ps1 where l1: "filter visible lin1 = ev"
      "atom_exec lin1 (ps, cell m) = Some (ps1, cell m1)"
    and s1: "list_all2 (matches R cell ready) ts1 ps1" "ready m1"
    using move_simulated [OF one Cons.prems(2,3)] by blast
  obtain lin2 ps2 where l2: "filter visible lin2 = tr1"
      "atom_exec lin2 (ps1, cell m1) = Some (ps2, cell m')"
    and s2: "list_all2 (matches R cell ready) ts' ps2" "ready m'"
    using Cons.IH [OF rest s1] by blast
  have "filter visible (lin1 @ lin2) = tr" by (simp add: l1 l2 tr)
  moreover have "atom_exec (lin1 @ lin2) (ps, cell m) = Some (ps2, cell m')"
    by (simp add: atom_exec_append l1 l2)
  ultimately show ?case using s2 by blast
qed

lemma linearizable:
  assumes "con_exec R mvs (replicate n Idle, m) = Some (tr, ts, m')" and "ready m"
  shows "\<exists>lin ps. filter visible lin = tr \<and>
    atom_exec lin (replicate n Rest, cell m) = Some (ps, cell m')"
  using exec_simulated [OF assms(1) _ assms(2), of "replicate n Rest"]
  by (auto simp: list_all2_conv_all_nth)

lemma wait_free:
  assumes "con_exec R mvs (replicate n Idle, m) = Some (tr, ts, m')" and "ready m"
  shows "list_all (returns_soon m') ts"
proof -
  obtain ps where "list_all2 (matches R cell ready) ts ps" "ready m'"
    using exec_simulated [OF assms(1) _ assms(2), of "replicate n Rest"]
    by (auto simp: list_all2_conv_all_nth)
  then show ?thesis
    using matches_returns_soon by (force simp: list_all2_conv_all_nth list_all_length)
qed

end

section \<open>The families of atomic.c\<close>

lemmas code_defs = store_code_def xchg_code_def cas_code_def xadd_code_def store64_code_def
  xchg64_code_def cas64_code_def xadd64_code_def

interpretation threads32: single_access "uint32_routines a" "\<lambda>m. cell32 m a" "\<lambda>m. has m W32 a" for a
proof
  fix m c op assume "has m W32 a"
  then show "\<exists>m'. alone (uint32_routines a) c op m = Some (fst (reg_spec op (cell32 m a)), m') \<and>
      cell32 m' a = snd (reg_spec op (cell32 m a)) \<and> has m' W32 a"
    unfolding alone_uint32 by (rule uint32.refines)
next
  fix op :: "u32 reg_op"
  show "one_access (body (uint32_routines a) op)"
    by (cases op) (simp_all add: uint32_routines_def code_defs)
  show "length (body (uint32_routines a) op) \<le> 3"
    by (cases op) (simp_all add: uint32_routines_def code_defs)
qed

interpretation threads64: single_access "uint64_routines a" "\<lambda>m. cell64 m a" "\<lambda>m. has m W64 a" for a
proof
  fix m c op assume "has m W64 a"
  then show "\<exists>m'. alone (uint64_routines a) c op m = Some (fst (reg_spec op (cell64 m a)), m') \<and>
      cell64 m' a = snd (reg_spec op (cell64 m a)) \<and> has m' W64 a"
    unfolding alone_uint64 by (rule uint64.refines)
next
  fix op :: "u64 reg_op"
  show "one_access (body (uint64_routines a) op)"
    by (cases op) (simp_all add: uint64_routines_def code_defs)
  show "length (body (uint64_routines a) op) \<le> 3"
    by (cases op) (simp_all add: uint64_routines_def code_defs)
qed

section \<open>Linearizability\<close>

text \<open>The instructions on the cell, for evaluating a run.\<close>

lemma xadd_cell: "has m W32 (rdi c) \<Longrightarrow> step (Xadd W32 RAX RDI) (c, m) =
    Some (c\<lparr>rax := ucast (cell32 m (rdi c))\<rparr>, set32 m (rdi c) (cell32 m (rdi c) + ucast (rax c)))"
  by (simp add: put_w_def get_w_def rdw_cell32 set32_def Let_def)
    (metis wrw_low wrw_add32 ucast_ucast_low32)

lemma cas_cell: "has m W32 (rdi c) \<Longrightarrow> step (Cmpxchg W32 RDX RDI) (c, m) =
    Some (if ucast (rax c) = cell32 m (rdi c) then (c\<lparr>zf := True\<rparr>, set32 m (rdi c) (ucast (rdx c)))
     else (c\<lparr>zf := False, rax := ucast (cell32 m (rdi c))\<rparr>, m))"
  by (simp add: put_w_def get_w_def rdw_cell32 set32_def Let_def)
    (metis wrw_low ucast_ucast_low32 ucast_u32_inj)

lemma fetch_cell: "has m W32 (rdi c) \<Longrightarrow> mstep (Fetch W32) (c, m) =
    Some (c\<lparr>rax := ucast (cell32 m (rdi c))\<rparr>, m)"
  by (simp add: put_w_def rdw_cell32)

lemma two_threads: "replicate 2 x = [x, x]"
  by (simp add: numeral_2_eq_2)

text \<open>C7: The \<open>uint32\<close> operations of \<open>atomic.c\<close>, called by any number of threads whose instructions
  interleave in any way, are those of one atomic register: to the calls and returns of every run
  effects can be added, one for each call, between it and its return, such that an atomic object,
  in which each effect gives the documented result and value in one step, makes the same calls and
  returns and ends with the same contents. No call faults or waits: in every reached state each
  thread that is inside a call returns within three instructions of its own. Run alone, the bodies
  are the functions of \<open>atomic.c\<close>.\<close>

theorem uint32_linearizable:
  assumes "has m W32 a" and "con_exec (uint32_routines a) mvs (replicate n Idle, m) = Some (tr, ts, m')"
  shows "(\<exists>lin ps. filter visible lin = tr \<and>
      atom_exec lin (replicate n Rest, cell32 m a) = Some (ps, cell32 m' a)) \<and>
    list_all (returns_soon m') ts \<and>
    alone (uint32_routines a) c op m = uint32_ops c a op m"
  using threads32.linearizable [OF assms(2,1)] threads32.wait_free [OF assms(2,1)] alone_uint32 by blast

lemma uint32_linearizable_witness:
  "\<exists>ts m' lin ps. con_exec (uint32_routines 0x1000)
      [Invoke 0 (AddOp 5) any_cpu, Invoke 1 (Cas 0 7) any_cpu, Advance 0, Advance 1, Advance 1,
       Advance 0, Advance 0, Finish 0, Invoke 0 Load any_cpu, Advance 0, Advance 1, Finish 0, Finish 1]
      (replicate 2 Idle, zero_ram) =
        Some ([Calls 0 (AddOp 5), Calls 1 (Cas 0 7), Returns 0 (Value 12), Calls 0 Load,
          Returns 0 (Value 12), Returns 1 (Flag True)], ts, m') \<and>
    filter visible lin = [Calls 0 (AddOp 5), Calls 1 (Cas 0 7), Returns 0 (Value 12), Calls 0 Load,
          Returns 0 (Value 12), Returns 1 (Flag True)] \<and>
    atom_exec lin (replicate 2 Rest, 0) = Some (ps, cell32 m' 0x1000)"
proof -
  have h: "has zero_ram W32 0x1000" by (rule zero_has) simp_all
  have "\<exists>ts m'. con_exec (uint32_routines 0x1000)
      [Invoke 0 (AddOp 5) any_cpu, Invoke 1 (Cas 0 7) any_cpu, Advance 0, Advance 1, Advance 1,
       Advance 0, Advance 0, Finish 0, Invoke 0 Load any_cpu, Advance 0, Advance 1, Finish 0, Finish 1]
      (replicate 2 Idle, zero_ram) =
        Some ([Calls 0 (AddOp 5), Calls 1 (Cas 0 7), Returns 0 (Value 12), Calls 0 Load,
          Returns 0 (Value 12), Returns 1 (Flag True)], ts, m')"
    using h by (simp add: uint32_routines_def code_defs two_threads any_cpu_def zero_cells put_w_def
        get_w_def low_def xadd_cell cas_cell fetch_cell del: step.simps(5,6) mstep.simps(2))
  then show ?thesis using uint32_linearizable [OF h] zero_cells(1) by metis
qed

end
