(* ===== verification/Atomic_Abi.thy ===== *)
theory Atomic_Abi
  imports Atomics
begin

text \<open>
  The prototypes of \<open>atomic_amd64.h\<close> against the routines of \<open>atomic_amd64.s\<close>. A caller in C
  knows a routine by its prototype only: it passes arguments whose registers hold anything beyond
  the width of their type, leaves any values in the other registers, reads as much of \<open>%rax\<close> as
  the result type has, and expects that nothing but the cell is touched.
\<close>

section \<open>Prototypes\<close>

datatype cty = Void | U8 | I32 | U32 | I64 | U64 | Ptr

fun cty_width :: "cty \<Rightarrow> width option" where
  "cty_width Void = None"
| "cty_width U8 = Some W8"
| "cty_width I32 = Some W32"
| "cty_width U32 = Some W32"
| "cty_width I64 = Some W64"
| "cty_width U64 = Some W64"
| "cty_width Ptr = Some W64"

text \<open>The first parameter points to a \<open>cell\<close> of the given type; \<open>args\<close> are the others.\<close>

record proto =
  result :: cty
  cell :: cty
  args :: "cty list"

definition proto_load :: proto where
  "proto_load = \<lparr>result = U32, cell = U32, args = []\<rparr>"

definition proto_loadp :: proto where
  "proto_loadp = \<lparr>result = Ptr, cell = Ptr, args = []\<rparr>"

definition proto_load64 :: proto where
  "proto_load64 = \<lparr>result = U64, cell = U64, args = []\<rparr>"

definition proto_cas :: proto where
  "proto_cas = \<lparr>result = U8, cell = I32, args = [I32, I32]\<rparr>"

definition proto_cas64 :: proto where
  "proto_cas64 = \<lparr>result = U8, cell = I64, args = [I64, I64]\<rparr>"

definition proto_casp1 :: proto where
  "proto_casp1 = \<lparr>result = U8, cell = Ptr, args = [Ptr, Ptr]\<rparr>"

definition proto_xadd :: proto where
  "proto_xadd = \<lparr>result = U32, cell = U32, args = [I32]\<rparr>"

definition proto_xadd64 :: proto where
  "proto_xadd64 = \<lparr>result = U64, cell = U64, args = [I64]\<rparr>"

definition proto_xchg :: proto where
  "proto_xchg = \<lparr>result = U32, cell = U32, args = [U32]\<rparr>"

definition proto_xchg64 :: proto where
  "proto_xchg64 = \<lparr>result = U64, cell = U64, args = [U64]\<rparr>"

definition proto_xchgp :: proto where
  "proto_xchgp = \<lparr>result = Ptr, cell = Ptr, args = [Ptr]\<rparr>"

definition proto_store :: proto where
  "proto_store = \<lparr>result = Void, cell = U32, args = [U32]\<rparr>"

definition proto_store64 :: proto where
  "proto_store64 = \<lparr>result = Void, cell = U64, args = [U64]\<rparr>"

definition proto_storep :: proto where
  "proto_storep = \<lparr>result = Void, cell = Ptr, args = [Ptr]\<rparr>"

definition proto_store8 :: proto where
  "proto_store8 = \<lparr>result = Void, cell = U8, args = [U8]\<rparr>"

definition proto_or8 :: proto where
  "proto_or8 = \<lparr>result = U8, cell = U8, args = [U8]\<rparr>"

definition proto_and8 :: proto where
  "proto_and8 = \<lparr>result = U8, cell = U8, args = [U8]\<rparr>"

definition proto_or :: proto where
  "proto_or = \<lparr>result = U32, cell = U32, args = [U32]\<rparr>"

definition proto_and :: proto where
  "proto_and = \<lparr>result = U32, cell = U32, args = [U32]\<rparr>"

lemmas protos =
  proto_cas_def proto_cas64_def proto_casp1_def proto_xadd_def proto_xadd64_def proto_xchg_def
  proto_xchg64_def proto_xchgp_def proto_store_def proto_store64_def proto_storep_def
  proto_store8_def proto_or8_def proto_and8_def proto_or_def proto_and_def

text \<open>The prototypes whose routine is in the assembler file, in the order of the header.\<close>

definition amd64 :: "(string \<times> proto \<times> instr list) list" where
  "amd64 = [
     (''_cas'', proto_cas, cas_code), (''_cas64'', proto_cas64, cas64_code),
     (''_casp1'', proto_casp1, casp1_code), (''_xadd'', proto_xadd, xadd_code),
     (''_xadd64'', proto_xadd64, xadd64_code), (''_xchg'', proto_xchg, xchg_code),
     (''_xchg64'', proto_xchg64, xchg64_code), (''_xchgp'', proto_xchgp, xchgp_code),
     (''_store'', proto_store, store_code), (''_store64'', proto_store64, store64_code),
     (''_storep'', proto_storep, storep_code), (''_store8'', proto_store8, store8_code),
     (''_or8'', proto_or8, or8_code), (''_and8'', proto_and8, and8_code),
     (''_or'', proto_or, or_code), (''_and'', proto_and, and_code)]"

section \<open>Conformance\<close>

text \<open>What a value of a type shows of a register.\<close>

definition seen :: "cty \<Rightarrow> u64 \<Rightarrow> u64" where
  "seen t v = (case cty_width t of None \<Rightarrow> 0 | Some w \<Rightarrow> low w v)"

fun agree :: "cty list \<Rightarrow> u64 list \<Rightarrow> u64 list \<Rightarrow> bool" where
  "agree (t # ts) (x # xs) (y # ys) \<longleftrightarrow> seen t x = seen t y \<and> agree ts xs ys"
| "agree _ _ _ \<longleftrightarrow> True"

definition outcome :: "proto \<Rightarrow> instr list \<Rightarrow> cpu \<Rightarrow> u64 \<Rightarrow> u64 \<Rightarrow> u64 \<Rightarrow> ram \<Rightarrow> (u64 \<times> ram) option" where
  "outcome p code c a b d m = map_option (\<lambda>(v, m). (seen (result p) v, m)) (call code c a b d m)"

text \<open>The result and the memory depend on nothing but the arguments as they are declared.\<close>

definition determined :: "proto \<Rightarrow> instr list \<Rightarrow> bool" where
  "determined p code \<longleftrightarrow> (\<forall>c c' a b b' d d' m. agree (args p) [b, d] [b', d'] \<longrightarrow>
     outcome p code c a b d m = outcome p code c' a b' d' m)"

text \<open>The routine faults exactly when the cell is absent and writes only to it.\<close>

definition confined :: "proto \<Rightarrow> instr list \<Rightarrow> bool" where
  "confined p code \<longleftrightarrow> (\<forall>w. cty_width (cell p) = Some w \<longrightarrow> (\<forall>c a b d m.
     case call code c a b d m of
       None \<Rightarrow> \<not> has m w a
     | Some (_, m') \<Rightarrow> has m w a \<and> present m' = present m \<and>
         (\<forall>x. nbytes w \<le> unat (x - a) \<longrightarrow> cells m' x = cells m x)))"

lemma confinedD:
  "confined p code \<Longrightarrow> cty_width (cell p) = Some w \<Longrightarrow> call code c a b d m = None \<Longrightarrow> \<not> has m w a"
  unfolding confined_def by (drule spec [of _ w], drule mp, assumption, drule spec [of _ c],
      drule spec [of _ a], drule spec [of _ b], drule spec [of _ d], drule spec [of _ m]) simp

definition conforms :: "proto \<Rightarrow> instr list \<Rightarrow> bool" where
  "conforms p code \<longleftrightarrow> determined p code \<and> confined p code"

lemma seen_simps [simp]:
  "seen Void v = 0" "seen U8 v = low W8 v" "seen I32 v = low W32 v" "seen U32 v = low W32 v"
  "seen I64 v = v" "seen U64 v = v" "seen Ptr v = v"
  by (simp_all add: seen_def)

lemma low8_merge [simp]: "low W8 (push_bit 8 x OR low W8 v) = low W8 v"
  by (rule bit_word_eqI) (auto simp: low_def bit_take_bit_iff bit_or_iff bit_push_bit_iff)

lemma present_wrw [simp]: "present (wrw m w a v) = present m"
  by (simp add: wrw_def)

lemma agree_refl: "agree ts xs xs"
proof (induction ts arbitrary: xs)
  case (Cons t ts)
  then show ?case by (cases xs) simp_all
qed simp

lemmas abi = outcome_def call_def put_w_def get_w_def Let_def protos

lemma determined_codes:
  "determined proto_cas cas_code" "determined proto_cas64 cas64_code"
  "determined proto_xadd xadd_code" "determined proto_xadd64 xadd64_code"
  "determined proto_xchg xchg_code" "determined proto_xchg64 xchg64_code"
  "determined proto_xchgp xchgp_code" "determined proto_store store_code"
  "determined proto_store64 store64_code" "determined proto_storep storep_code"
  "determined proto_store8 store8_code"
  by (simp_all add: determined_def abi cas_code_def cas64_code_def xadd_code_def xadd64_code_def
      xchg_code_def xchg64_code_def xchgp_code_def store_code_def store64_code_def storep_code_def
      store8_code_def)

lemma confined_codes:
  "confined proto_cas cas_code" "confined proto_cas64 cas64_code"
  "confined proto_xadd xadd_code" "confined proto_xadd64 xadd64_code"
  "confined proto_xchg xchg_code" "confined proto_xchg64 xchg64_code"
  "confined proto_xchgp xchgp_code" "confined proto_store store_code"
  "confined proto_store64 store64_code" "confined proto_storep storep_code"
  "confined proto_store8 store8_code"
  by (simp_all add: confined_def abi wrw_outside cas_code_def cas64_code_def xadd_code_def
      xadd64_code_def xchg_code_def xchg64_code_def xchgp_code_def store_code_def
      store64_code_def storep_code_def store8_code_def)

text \<open>The labels that jump keep the prototypes of where they jump to.\<close>

lemma aliases_conform:
  "list_all (\<lambda>code. conforms proto_cas code) [casint32_code, casrel_code] \<and>
   list_all (\<lambda>code. conforms proto_cas64 code) [casint64_code, casuintptr_code] \<and>
   list_all (\<lambda>code. conforms proto_store code) [store_int32_code, store_rel_code] \<and>
   list_all (\<lambda>code. conforms proto_store64 code)
     [store_no_wb_code, store_int64_code, store_uintptr_code, store_rel_64_code, store_rel_uintptr_code]"
  using determined_codes confined_codes
  by (simp add: conforms_def casint32_code_def casrel_code_def casint64_code_def casuintptr_code_def
      store_int32_code_def store_rel_code_def store_no_wb_code_def store64_code_def
      store_int64_code_def store_uintptr_code_def store_rel_64_code_def store_rel_uintptr_code_def)

text \<open>The three loads are written in C: they return the cell, and fault when it is absent.\<close>

lemma loads_conform:
  "list_all (\<lambda>(p, load). \<forall>a m. load a m =
      (if has m (the (cty_width (cell p))) a
       then Some (seen (result p) (rdw m (the (cty_width (cell p))) a)) else None))
     [(proto_load, \<lambda>a m. map_option ucast (c_load a m)), (proto_loadp, c_loadp),
      (proto_load64, c_load64)]"
  by (simp add: proto_load_def proto_loadp_def proto_load64_def c_load_def c_loadp_def c_load64_def
      ucast_ucast_low32)

section \<open>The routines that do not conform\<close>

definition full_ram :: ram where
  "full_ram = \<lparr>cells = (\<lambda>_. 0), present = (\<lambda>_. True)\<rparr>"

definition rax_cpu :: "u64 \<Rightarrow> cpu" where
  "rax_cpu v = \<lparr>rax = v, rdi = 0, rsi = 0, rdx = 0, zf = False\<rparr>"

lemma full_ram_has [simp]: "has full_ram w a"
  by (simp add: has_def full_ram_def)

text \<open>Without a write to \<open>%rax\<close> the result is what the caller left there.\<close>

lemma leftover_result:
  assumes "\<And>v. \<exists>m. call code (rax_cpu v) 0 0 0 full_ram = Some (v, m)" and "seen (result p) 0 \<noteq> seen (result p) 1"
  shows "\<not> determined p code"
proof
  assume "determined p code"
  moreover have "agree (args p) [0, 0] [0, 0]" by (rule agree_refl)
  ultimately have "outcome p code (rax_cpu 0) 0 0 0 full_ram = outcome p code (rax_cpu 1) 0 0 0 full_ram"
    unfolding determined_def by blast
  then show False using assms(1) [of 0] assms(1) [of 1] assms(2) by (auto simp: outcome_def)
qed

lemma bit_routines_leftover:
  "\<not> determined proto_or8 or8_code" "\<not> determined proto_and8 and8_code"
  "\<not> determined proto_or or_code" "\<not> determined proto_and and_code"
  by (rule leftover_result; simp add: call_def or8_code_def and8_code_def or_code_def and_code_def
      rax_cpu_def protos low_def)+

lemma casp1_strays: "\<not> confined proto_casp1 casp1_code"
proof
  let ?m = "\<lparr>cells = (\<lambda>_. 0), present = (\<lambda>x. x < 8)\<rparr>"
  assume *: "confined proto_casp1 casp1_code"
  have "\<not> has m W64 a" if "call casp1_code c a b d m = None" for c a b d m
    using confinedD [OF *, of W64 c a b d m] that by (simp add: proto_casp1_def)
  moreover have "\<not> has ?m W64 0x1000" by (auto simp: has_def intro: bexI [of _ 0])
  then have "call casp1_code (rax_cpu 0) 0 0x1000 0 ?m = None"
    by (simp add: call_def casp1_code_def put_w_def get_w_def)
  moreover have "has ?m W64 0"
    by (auto simp: has_def word_less_nat_alt unat_of_nat64 simp del: unsigned_of_nat)
  ultimately show False by blast
qed

text \<open>C10: Eleven of the sixteen routines keep what their prototype promises: result and memory are
  determined by the declared arguments, and nothing but the cell is accessed. The others do not:
  \<open>_casp1\<close> accesses another address, and what \<open>_or8\<close>, \<open>_and8\<close>, \<open>_or\<close> and \<open>_and\<close>, declared with a
  result, return is not determined by their arguments: they never write \<open>%rax\<close>.\<close>

theorem amd64_abi:
  "map fst (filter (\<lambda>(_, p, code). conforms p code) amd64) =
     [''_cas'', ''_cas64'', ''_xadd'', ''_xadd64'', ''_xchg'', ''_xchg64'', ''_xchgp'', ''_store'',
      ''_store64'', ''_storep'', ''_store8''] \<and>
   list_all (\<lambda>(p, code). \<not> determined p code)
     [(proto_or8, or8_code), (proto_and8, and8_code), (proto_or, or_code), (proto_and, and_code)] \<and>
   \<not> confined proto_casp1 casp1_code"
  by (simp add: amd64_def conforms_def determined_codes confined_codes bit_routines_leftover casp1_strays)

end
