(* ===== verification/Gostring.thy ===== *)
theory Gostring
  imports Prelude
begin

text \<open>
  Go strings, \<open>rgoffi/go/gocruntime/string.c\<close>. The file does not compile as it is: \<open>string_at\<close>
  uses its loop counter after the loop that declares it, and \<open>string_data_on_stack\<close> is called
  with one argument of the two it takes. It is modelled under the evident reading: the counter
  outlives the loop, and \<open>string_data_on_stack\<close> returns the 0 in its body. \<open>int\<close> arithmetic that
  overflows, and a function that ends without a \<open>return\<close>, are undefined.
\<close>

section \<open>Data\<close>

record go_string =
  str :: u64
  len :: u64

datatype str_fault = Thrown string | Undefined

text \<open>A \<open>string_list\<close> is a linked list of strings: the list of what its nodes point to.\<close>

definition new_string_list :: "go_string \<Rightarrow> go_string list \<Rightarrow> go_string list" where
  "new_string_list s tail = s # tail"

definition empty_string :: go_string where
  "empty_string = \<lparr>str = 0, len = 0\<rparr>"

definition staticuint64s :: "u64 list" where
  "staticuint64s = [
     0x00, 0x01, 0x02, 0x03, 0x04, 0x05, 0x06, 0x07,
     0x08, 0x09, 0x0a, 0x0b, 0x0c, 0x0d, 0x0e, 0x0f,
     0x10, 0x11, 0x12, 0x13, 0x14, 0x15, 0x16, 0x17,
     0x18, 0x19, 0x1a, 0x1b, 0x1c, 0x1d, 0x1e, 0x1f,
     0x20, 0x21, 0x22, 0x23, 0x24, 0x25, 0x26, 0x27,
     0x28, 0x29, 0x2a, 0x2b, 0x2c, 0x2d, 0x2e, 0x2f,
     0x30, 0x31, 0x32, 0x33, 0x34, 0x35, 0x36, 0x37,
     0x38, 0x39, 0x3a, 0x3b, 0x3c, 0x3d, 0x3e, 0x3f,
     0x40, 0x41, 0x42, 0x43, 0x44, 0x45, 0x46, 0x47,
     0x48, 0x49, 0x4a, 0x4b, 0x4c, 0x4d, 0x4e, 0x4f,
     0x50, 0x51, 0x52, 0x53, 0x54, 0x55, 0x56, 0x57,
     0x58, 0x59, 0x5a, 0x5b, 0x5c, 0x5d, 0x5e, 0x5f,
     0x60, 0x61, 0x62, 0x63, 0x64, 0x65, 0x66, 0x67,
     0x68, 0x69, 0x6a, 0x6b, 0x6c, 0x6d, 0x6e, 0x6f,
     0x70, 0x71, 0x72, 0x73, 0x74, 0x75, 0x76, 0x77,
     0x78, 0x79, 0x7a, 0x7b, 0x7c, 0x7d, 0x7e, 0x7f,
     0x80, 0x81, 0x82, 0x83, 0x84, 0x85, 0x86, 0x87,
     0x88, 0x89, 0x8a, 0x8b, 0x8c, 0x8d, 0x8e, 0x8f,
     0x90, 0x91, 0x92, 0x93, 0x94, 0x95, 0x96, 0x97,
     0x98, 0x99, 0x9a, 0x9b, 0x9c, 0x9d, 0x9e, 0x9f,
     0xa0, 0xa1, 0xa2, 0xa3, 0xa4, 0xa5, 0xa6, 0xa7,
     0xa8, 0xa9, 0xaa, 0xab, 0xac, 0xad, 0xae, 0xaf,
     0xb0, 0xb1, 0xb2, 0xb3, 0xb4, 0xb5, 0xb6, 0xb7,
     0xb8, 0xb9, 0xba, 0xbb, 0xbc, 0xbd, 0xbe, 0xbf,
     0xc0, 0xc1, 0xc2, 0xc3, 0xc4, 0xc5, 0xc6, 0xc7,
     0xc8, 0xc9, 0xca, 0xcb, 0xcc, 0xcd, 0xce, 0xcf,
     0xd0, 0xd1, 0xd2, 0xd3, 0xd4, 0xd5, 0xd6, 0xd7,
     0xd8, 0xd9, 0xda, 0xdb, 0xdc, 0xdd, 0xde, 0xdf,
     0xe0, 0xe1, 0xe2, 0xe3, 0xe4, 0xe5, 0xe6, 0xe7,
     0xe8, 0xe9, 0xea, 0xeb, 0xec, 0xed, 0xee, 0xef,
     0xf0, 0xf1, 0xf2, 0xf3, 0xf4, 0xf5, 0xf6, 0xf7,
     0xf8, 0xf9, 0xfa, 0xfb, 0xfc, 0xfd, 0xfe, 0xff
    ]"

definition string_data_on_stack :: "go_string \<Rightarrow> u8" where
  "string_data_on_stack s = 0"

section \<open>Operations\<close>

text \<open>\<open>i++\<close> on an \<open>int\<close>.\<close>

definition int_inc :: "u32 \<Rightarrow> (u32 \<Rightarrow> str_fault + 'a) \<Rightarrow> str_fault + 'a" where
  "int_inc i k = (if i = 0x7fffffff then Inl Undefined else k (i + 1))"

text \<open>\<open>for (int i = 0; sl != NULL && i < idx; sl = sl->tail, i++)\<close>, then the test of \<open>i\<close>.\<close>

fun string_at_loop :: "go_string list \<Rightarrow> u64 \<Rightarrow> u32 \<Rightarrow> str_fault + go_string list" where
  "string_at_loop [] idx i =
     (if int_to_long i \<noteq> idx then Inl (Thrown ''index is out of bounds'') else Inr [])"
| "string_at_loop (s # sl) idx i =
     (if int_to_long i < idx then int_inc i (\<lambda>i. string_at_loop sl idx i)
      else if int_to_long i \<noteq> idx then Inl (Thrown ''index is out of bounds'') else Inr (s # sl))"

definition string_at :: "go_string list \<Rightarrow> u64 \<Rightarrow> str_fault + go_string list" where
  "string_at sl idx = string_at_loop sl idx 0"

text \<open>
  The loop of \<open>concatstrings\<close>: \<open>idx\<close>, \<open>l\<close>, \<open>count\<close> and \<open>i\<close> are \<open>int\<close>. A sum that leaves the range
  of \<open>int\<close> is undefined before it can be compared.
\<close>

definition int_sum_fits :: "u32 \<Rightarrow> u32 \<Rightarrow> bool" where
  "int_sum_fits a b \<longleftrightarrow> - (2 ^ 31) \<le> sint a + sint b \<and> sint a + sint b < 2 ^ 31"

fun concat_loop ::
    "go_string list \<Rightarrow> u32 \<Rightarrow> u32 \<Rightarrow> u32 \<Rightarrow> u32 \<Rightarrow> str_fault + (u32 \<times> u32 \<times> u32)" where
  "concat_loop [] i idx l count = Inr (idx, l, count)"
| "concat_loop (s # x) i idx l count =
     (let n = ucast (len s) in
      if n = 0 then int_inc i (\<lambda>i. concat_loop x i idx l count)
      else if \<not> int_sum_fits l n then Inl Undefined
      else if l + n <s l then Inl (Thrown ''string concatenation too long'')
      else int_inc count (\<lambda>count. int_inc i (\<lambda>i'. concat_loop x i' i (l + n) count)))"

text \<open>The result, with \<^term>\<open>None\<close> for \<open>NULL\<close>; \<open>buf\<close> says whether a buffer was passed.\<close>

definition concatstrings :: "bool \<Rightarrow> go_string list \<Rightarrow> str_fault + go_string option" where
  "concatstrings buf a =
     (case concat_loop a 0 0 0 0 of
        Inl e \<Rightarrow> Inl e
      | Inr (idx, l, count) \<Rightarrow>
          if count = 0 then Inr (Some empty_string)
          else (case string_at a (int_to_long idx) of
                  Inl e \<Rightarrow> Inl e
                | Inr [] \<Rightarrow> Inl Undefined
                | Inr (s # _) \<Rightarrow>
                    if count = 1 \<and> (buf \<or> string_data_on_stack s \<noteq> 0) then Inr (Some s)
                    else Inr None))"

text \<open>
  \<open>slice_byte_to_string\<close>: with one byte the inner \<open>ptr\<close> is read in its own initialiser, and after
  the first \<open>if\<close> nothing is returned.
\<close>

definition slice_byte_to_string :: "u64 \<Rightarrow> u32 \<Rightarrow> str_fault + go_string" where
  "slice_byte_to_string p n = (if n = 0 then Inr empty_string else Inl Undefined)"

section \<open>What concatstrings finds\<close>

definition lens_fit :: "go_string list \<Rightarrow> bool" where
  "lens_fit a \<longleftrightarrow> length a < 2 ^ 31 \<and> sum_list (map (\<lambda>s. unat (len s)) a) < 2 ^ 31"

lemma static_length: "length staticuint64s = 256"
  by (simp add: staticuint64s_def)

lemma static_value: "staticuint64s = map of_nat [0..<256]"
  by (simp add: staticuint64s_def upt_rec)

lemma int_inc_small: "Suc n < 2 ^ 31 \<Longrightarrow> int_inc (of_nat n) k = k (of_nat (Suc n))"
proof -
  assume n: "Suc n < 2 ^ 31"
  then have "unat (of_nat n :: u32) = n" by (intro unat_of_nat32) simp
  then have "(of_nat n :: u32) \<noteq> 0x7fffffff" using n by (auto simp del: unsigned_of_nat)
  then show ?thesis by (simp add: int_inc_def add.commute)
qed

lemma string_at_loop_spec:
  assumes "unat idx < 2 ^ 31" and "i \<le> unat idx"
  shows "string_at_loop sl idx (of_nat i) =
    (if unat idx - i \<le> length sl then Inr (drop (unat idx - i) sl)
     else Inl (Thrown ''index is out of bounds''))"
  using assms
proof (induction sl arbitrary: i)
  case Nil
  then have "unat (int_to_long (of_nat i)) = i" by (subst unat_int_to_long) (simp_all add: unat_of_nat32)
  then show ?case using Nil by (auto simp: word_unat_eq_iff)
next
  case (Cons s sl)
  have u: "unat (int_to_long (of_nat i)) = i"
    using Cons.prems by (subst unat_int_to_long) (simp_all add: unat_of_nat32)
  show ?case
  proof (cases "i < unat idx")
    case True
    then have "int_to_long (of_nat i) < idx" using u by (simp only: word_less_nat_alt)
    then have "string_at_loop (s # sl) idx (of_nat i) = string_at_loop sl idx (of_nat (Suc i))"
      using int_inc_small [of i] True Cons.prems(1) by (simp only: string_at_loop.simps if_True) simp
    moreover have "unat idx - i = Suc (unat idx - Suc i)" using True by simp
    ultimately show ?thesis using Cons.IH [of "Suc i"] Cons.prems True by simp
  next
    case False
    then have "i = unat idx" using Cons.prems(2) by simp
    then have "int_to_long (of_nat i) = idx" using u by (intro unat_eqI) simp
    then show ?thesis using \<open>i = unat idx\<close> by (simp only: string_at_loop.simps) simp
  qed
qed

lemma ucast_len:
  assumes "unat (v :: u64) < 2 ^ 31"
  shows "unat (ucast v :: u32) = unat v"
  using assms by (simp add: unsigned_ucast_eq take_bit_nat_eq_self)

text \<open>Without overflow the loop counts the non-empty strings and finds the last of them.\<close>

fun last_nonempty :: "go_string list \<Rightarrow> nat \<Rightarrow> nat \<Rightarrow> nat" where
  "last_nonempty [] i idx = idx"
| "last_nonempty (s # x) i idx = last_nonempty x (Suc i) (if len s = 0 then idx else i)"

lemma concat_loop_spec:
  assumes "i + length a < 2 ^ 31" and "l + sum_list (map (\<lambda>s. unat (len s)) a) < 2 ^ 31"
    and "k + length a < 2 ^ 31"
  shows "concat_loop a (of_nat i) (of_nat idx) (of_nat l) (of_nat k) =
    Inr (of_nat (last_nonempty a i idx), of_nat (l + sum_list (map (\<lambda>s. unat (len s)) a)),
      of_nat (k + length (filter (\<lambda>s. len s \<noteq> 0) a)))"
  using assms
proof (induction a arbitrary: i idx l k)
  case Nil
  then show ?case by simp
next
  case (Cons s a)
  let ?n = "ucast (len s) :: u32"
  have small: "unat (len s) < 2 ^ 31" using Cons.prems(2) by simp
  have n: "unat ?n = unat (len s)" using small by (rule ucast_len)
  have inc: "int_inc (of_nat i) f = f (of_nat (Suc i))" "int_inc (of_nat k) f = f (of_nat (Suc k))"
    for f :: "u32 \<Rightarrow> str_fault + (u32 \<times> u32 \<times> u32)"
    using Cons.prems by (auto intro!: int_inc_small simp del: of_nat_Suc)
  show ?case
  proof (cases "len s = 0")
    case True
    then have "?n = 0" by simp
    then have "concat_loop (s # a) (of_nat i) (of_nat idx) (of_nat l) (of_nat k) =
        concat_loop a (of_nat (Suc i)) (of_nat idx) (of_nat l) (of_nat k)"
      by (simp only: concat_loop.simps Let_def refl if_True inc)
    then show ?thesis using True Cons.IH [of "Suc i" l k idx] Cons.prems by simp
  next
    case False
    have "unat (len s) \<noteq> 0" using False by (simp add: unat_eq_0)
    then have nz: "?n \<noteq> 0" using n by auto
    have l: "unat (of_nat l :: u32) = l" using Cons.prems(2) by (intro unat_of_nat32) simp
    have sl: "sint (of_nat l :: u32) = int l" using sint_small32 [of "of_nat l"] l Cons.prems(2) by simp
    have sn: "sint ?n = int (unat (len s))" using sint_small32 [of ?n] n small by simp
    have sum: "(of_nat l :: u32) + ?n = of_nat (l + unat (len s))"
      using n l Cons.prems(2) by (intro unat_eqI) (simp add: unat_word_ariths unat_of_nat32 del: unsigned_of_nat)
    have u: "unat (of_nat (l + unat (len s)) :: u32) = l + unat (len s)"
      using Cons.prems(2) by (intro unat_of_nat32) simp
    have fits: "int_sum_fits (of_nat l) ?n"
    proof -
      have "l + unat (len s) < 2 ^ 31" using Cons.prems(2) by simp
      then have "int l + int (unat (len s)) < 2 ^ 31"
        by (metis of_nat_less_iff of_nat_numeral of_nat_power of_nat_add)
      moreover have "- (2 ^ 31) \<le> int l + int (unat (len s))" by (rule order_trans [of _ 0]) simp_all
      ultimately show ?thesis unfolding int_sum_fits_def sl sn by blast
    qed
    have "\<not> (of_nat (l + unat (len s)) :: u32) <s of_nat l"
      using u l Cons.prems(2) by (subst sless_unat32) simp_all
    then have "concat_loop (s # a) (of_nat i) (of_nat idx) (of_nat l) (of_nat k) =
        concat_loop a (of_nat (Suc i)) (of_nat i) (of_nat (l + unat (len s))) (of_nat (Suc k))"
      using nz fits by (simp only: concat_loop.simps Let_def if_False not_True_eq_False sum inc)
    then show ?thesis
      using False Cons.IH [of "Suc i" "l + unat (len s)" "Suc k" i] Cons.prems by (simp add: add.assoc)
  qed
qed


lemma small_count:
  assumes "n < 2 ^ 31"
  shows "(of_nat n :: u32) = 0 \<longleftrightarrow> n = 0" and "(of_nat n :: u32) = 1 \<longleftrightarrow> n = 1"
proof -
  have "unat (of_nat n :: u32) = n" using assms by (intro unat_of_nat32) simp
  then show "(of_nat n :: u32) = 0 \<longleftrightarrow> n = 0" "(of_nat n :: u32) = 1 \<longleftrightarrow> n = 1"
    by (auto simp: word_unat_eq_iff simp del: unsigned_of_nat)
qed

lemma last_nonempty_last:
  assumes "filter (\<lambda>s. len s \<noteq> 0) a \<noteq> []"
  shows "\<exists>j < length a. last_nonempty a i idx = i + j \<and> len (a ! j) \<noteq> 0 \<and>
    a ! j = last (filter (\<lambda>s. len s \<noteq> 0) a)"
  using assms
proof (induction a arbitrary: i idx)
  case Nil
  then show ?case by simp
next
  case (Cons s a)
  show ?case
  proof (cases "filter (\<lambda>s. len s \<noteq> 0) a = []")
    case True
    have skip: "last_nonempty x i idx = idx" if "filter (\<lambda>s. len s \<noteq> 0) x = []" for x i idx
      using that by (induction x arbitrary: i) (auto split: if_splits)
    have "len s \<noteq> 0" using Cons.prems True by auto
    then show ?thesis using skip [OF True] True by (intro exI [of _ 0]) simp
  next
    case False
    obtain j where j: "j < length a" "last_nonempty a (Suc i) (if len s = 0 then idx else i) = Suc i + j"
        "len (a ! j) \<noteq> 0" "a ! j = last (filter (\<lambda>s. len s \<noteq> 0) a)"
      using Cons.IH [OF False] by blast
    then show ?thesis using False by (intro exI [of _ "Suc j"]) simp
  qed
qed

text \<open>
  The outcome of \<open>concatstrings\<close> by the number of non-empty strings: a new empty string for none,
  the string itself for one when a buffer is given, and nothing from two on.
\<close>

lemma concatstrings_spec:
  assumes "lens_fit a"
  shows "concatstrings buf a = Inr
    (case filter (\<lambda>s. len s \<noteq> 0) a of
       [] \<Rightarrow> Some empty_string
     | [s] \<Rightarrow> if buf then Some s else None
     | _ \<Rightarrow> None)"
proof -
  let ?f = "filter (\<lambda>s. len s \<noteq> 0) a" and ?idx = "last_nonempty a 0 0"
  have fit: "length a < 2 ^ 31" "sum_list (map (\<lambda>s. unat (len s)) a) < 2 ^ 31"
    using assms by (simp_all add: lens_fit_def)
  have loop: "concat_loop a 0 0 0 0 = Inr (of_nat ?idx, of_nat (sum_list (map (\<lambda>s. unat (len s)) a)),
      of_nat (length ?f))"
    using concat_loop_spec [of 0 a 0 0 0] fit by simp
  have "length ?f < 2 ^ 31" by (rule le_less_trans [OF length_filter_le fit(1)])
  have cnt0: "(of_nat (length ?f) :: u32) = 0 \<longleftrightarrow> ?f = []"
    using small_count(1) [OF \<open>length ?f < 2 ^ 31\<close>] by (simp only: length_0_conv)
  note cnt1 = small_count(2) [OF \<open>length ?f < 2 ^ 31\<close>]
  show ?thesis
  proof (cases "?f = []")
    case True
    then show ?thesis using loop by (simp add: concatstrings_def)
  next
    case False
    obtain j where j: "j < length a" "?idx = 0 + j" "a ! j = last ?f"
      using last_nonempty_last [OF False] by blast
    have u: "unat (of_nat ?idx :: u32) = j" using j fit(1) by (simp add: unat_of_nat32 del: unsigned_of_nat)
    then have long: "unat (int_to_long (of_nat ?idx)) = j"
      using j fit(1) by (subst unat_int_to_long) simp_all
    have "string_at a (int_to_long (of_nat ?idx)) = Inr (drop j a)"
      unfolding string_at_def using long j fit(1) string_at_loop_spec [of _ 0] by simp
    also have "drop j a = last ?f # drop (Suc j) a" using j by (metis Cons_nth_drop_Suc)
    finally have at: "string_at a (int_to_long (of_nat ?idx)) = Inr (last ?f # drop (Suc j) a)" .
    have "concatstrings buf a = Inr (if length ?f = 1 \<and> buf then Some (last ?f) else None)"
      using False cnt0
      by (simp only: concatstrings_def loop sum.case prod.case at list.case cnt1 string_data_on_stack_def)
        simp
    then show ?thesis using False by (auto split: list.split)
  qed
qed

end
