(* ===== verification/Runtime_Enums.thy ===== *)
theory Runtime_Enums
  imports Prelude
begin

text \<open>
  The enumerations of the runtime port: lock ranks (\<open>lockrank.h\<close>) with the operations of
  \<open>lockrank_off.c\<close>, goroutine states (\<open>runtime2.h\<close>) and type flags (\<open>type.h\<close>). A rank is ordered
  by its number. \<open>runtime_lock2\<close> and \<open>runtime_unlock2\<close> belong to the Go runtime and are parameters.
\<close>

section \<open>Lock ranks\<close>

datatype (plugins only: code) lock_rank =
    LOCK_RANK_Dummy | LOCK_RANK_SYSMON | LOCK_RANK_SCAVENGE | LOCK_RANK_FORCE_GC |
    LOCK_RANK_SWEEP_WAITERS | LOCK_RANK_ASSIST_QUEUE | LOCK_RANK_CPU_PROF | LOCK_RANK_SWEEP
    | LOCK_RANK_POLL_DESC | LOCK_RANK_SCHED | LOCK_RANK_DEAD_LOCK | LOCK_RANK_ALL_G |
    LOCK_RANK_ALL_P | LOCK_RANK_TIMERS | LOCK_RANK_ITAB | LOCK_RANK_REFLECT_OFFS |
    LOCK_RANK_HCHAN | LOCK_RANK_TRACE_BUF | LOCK_RANK_FIN | LOCK_RANK_NOTIFY_LIST |
    LOCK_RANK_TRACE_STRINGS | LOCK_RANK_MSPAN_SPECIAL | LOCK_RANK_PROF |
    LOCK_RANK_GC_BITS_ARENAS | LOCK_RANK_ROOT | LOCK_RANK_TRACE | LOCK_RANK_TRACE_STACK_TAB
    | LOCK_RANK_NETPOLL_INIT | LOCK_RANK_RW_MUTEX_W | LOCK_RANK_RW_MUTEX_R |
    LOCK_RANK_SPAN_SET_SPINE | LOCK_RANK_GSCAN | LOCK_RANK_STACK_POOL |
    LOCK_RANK_STACK_LARGE | LOCK_RANK_DEFER | LOCK_RANK_SUDOG | LOCK_RANK_WBUF_SPANS |
    LOCK_RANK_MHEAP | LOCK_RANK_MHEAP_SPECIAL | LOCK_RANK_GLOBAL_ALLOC |
    LOCK_RANK_PAGE_ALLOC_SCAV | LOCK_RANK_GFREE | LOCK_RANK_HCHAN_LEAF | LOCK_RANK_PANIC |
    LOCK_RANK_NEW_MHANDOFF | LOCK_RANK_DEBUG_PTR_MASK | LOCK_RANK_FAKETIME_STATE |
    LOCK_RANK_TICKS | LOCK_RANK_RACE_FINI | LOCK_RANK_POLL_CACHE | LOCK_RANK_DEBUG

primrec lock_rank_value :: "lock_rank \<Rightarrow> nat" where
  "lock_rank_value LOCK_RANK_Dummy = 0"
| "lock_rank_value LOCK_RANK_SYSMON = 1"
| "lock_rank_value LOCK_RANK_SCAVENGE = 2"
| "lock_rank_value LOCK_RANK_FORCE_GC = 3"
| "lock_rank_value LOCK_RANK_SWEEP_WAITERS = 4"
| "lock_rank_value LOCK_RANK_ASSIST_QUEUE = 5"
| "lock_rank_value LOCK_RANK_CPU_PROF = 6"
| "lock_rank_value LOCK_RANK_SWEEP = 7"
| "lock_rank_value LOCK_RANK_POLL_DESC = 8"
| "lock_rank_value LOCK_RANK_SCHED = 9"
| "lock_rank_value LOCK_RANK_DEAD_LOCK = 10"
| "lock_rank_value LOCK_RANK_ALL_G = 11"
| "lock_rank_value LOCK_RANK_ALL_P = 12"
| "lock_rank_value LOCK_RANK_TIMERS = 13"
| "lock_rank_value LOCK_RANK_ITAB = 14"
| "lock_rank_value LOCK_RANK_REFLECT_OFFS = 15"
| "lock_rank_value LOCK_RANK_HCHAN = 16"
| "lock_rank_value LOCK_RANK_TRACE_BUF = 17"
| "lock_rank_value LOCK_RANK_FIN = 18"
| "lock_rank_value LOCK_RANK_NOTIFY_LIST = 19"
| "lock_rank_value LOCK_RANK_TRACE_STRINGS = 20"
| "lock_rank_value LOCK_RANK_MSPAN_SPECIAL = 21"
| "lock_rank_value LOCK_RANK_PROF = 22"
| "lock_rank_value LOCK_RANK_GC_BITS_ARENAS = 23"
| "lock_rank_value LOCK_RANK_ROOT = 24"
| "lock_rank_value LOCK_RANK_TRACE = 25"
| "lock_rank_value LOCK_RANK_TRACE_STACK_TAB = 26"
| "lock_rank_value LOCK_RANK_NETPOLL_INIT = 27"
| "lock_rank_value LOCK_RANK_RW_MUTEX_W = 28"
| "lock_rank_value LOCK_RANK_RW_MUTEX_R = 29"
| "lock_rank_value LOCK_RANK_SPAN_SET_SPINE = 30"
| "lock_rank_value LOCK_RANK_GSCAN = 31"
| "lock_rank_value LOCK_RANK_STACK_POOL = 32"
| "lock_rank_value LOCK_RANK_STACK_LARGE = 33"
| "lock_rank_value LOCK_RANK_DEFER = 34"
| "lock_rank_value LOCK_RANK_SUDOG = 35"
| "lock_rank_value LOCK_RANK_WBUF_SPANS = 36"
| "lock_rank_value LOCK_RANK_MHEAP = 37"
| "lock_rank_value LOCK_RANK_MHEAP_SPECIAL = 38"
| "lock_rank_value LOCK_RANK_GLOBAL_ALLOC = 39"
| "lock_rank_value LOCK_RANK_PAGE_ALLOC_SCAV = 40"
| "lock_rank_value LOCK_RANK_GFREE = 41"
| "lock_rank_value LOCK_RANK_HCHAN_LEAF = 42"
| "lock_rank_value LOCK_RANK_PANIC = 43"
| "lock_rank_value LOCK_RANK_NEW_MHANDOFF = 44"
| "lock_rank_value LOCK_RANK_DEBUG_PTR_MASK = 45"
| "lock_rank_value LOCK_RANK_FAKETIME_STATE = 46"
| "lock_rank_value LOCK_RANK_TICKS = 47"
| "lock_rank_value LOCK_RANK_RACE_FINI = 48"
| "lock_rank_value LOCK_RANK_POLL_CACHE = 49"
| "lock_rank_value LOCK_RANK_DEBUG = 50"

definition lock_ranks :: "lock_rank list" where
  "lock_ranks = [
    LOCK_RANK_Dummy, LOCK_RANK_SYSMON, LOCK_RANK_SCAVENGE, LOCK_RANK_FORCE_GC,
    LOCK_RANK_SWEEP_WAITERS, LOCK_RANK_ASSIST_QUEUE, LOCK_RANK_CPU_PROF, LOCK_RANK_SWEEP,
    LOCK_RANK_POLL_DESC, LOCK_RANK_SCHED, LOCK_RANK_DEAD_LOCK, LOCK_RANK_ALL_G,
    LOCK_RANK_ALL_P, LOCK_RANK_TIMERS, LOCK_RANK_ITAB, LOCK_RANK_REFLECT_OFFS,
    LOCK_RANK_HCHAN, LOCK_RANK_TRACE_BUF, LOCK_RANK_FIN, LOCK_RANK_NOTIFY_LIST,
    LOCK_RANK_TRACE_STRINGS, LOCK_RANK_MSPAN_SPECIAL, LOCK_RANK_PROF,
    LOCK_RANK_GC_BITS_ARENAS, LOCK_RANK_ROOT, LOCK_RANK_TRACE, LOCK_RANK_TRACE_STACK_TAB,
    LOCK_RANK_NETPOLL_INIT, LOCK_RANK_RW_MUTEX_W, LOCK_RANK_RW_MUTEX_R,
    LOCK_RANK_SPAN_SET_SPINE, LOCK_RANK_GSCAN, LOCK_RANK_STACK_POOL, LOCK_RANK_STACK_LARGE,
    LOCK_RANK_DEFER, LOCK_RANK_SUDOG, LOCK_RANK_WBUF_SPANS, LOCK_RANK_MHEAP,
    LOCK_RANK_MHEAP_SPECIAL, LOCK_RANK_GLOBAL_ALLOC, LOCK_RANK_PAGE_ALLOC_SCAV,
    LOCK_RANK_GFREE, LOCK_RANK_HCHAN_LEAF, LOCK_RANK_PANIC, LOCK_RANK_NEW_MHANDOFF,
    LOCK_RANK_DEBUG_PTR_MASK, LOCK_RANK_FAKETIME_STATE, LOCK_RANK_TICKS,
    LOCK_RANK_RACE_FINI, LOCK_RANK_POLL_CACHE, LOCK_RANK_DEBUG
    ]"

lemma lock_ranks_nth: "lock_rank_value r < length lock_ranks \<and> lock_ranks ! lock_rank_value r = r"
  by (cases r) (simp_all add: lock_ranks_def)

lemma lock_rank_value_inj: "lock_rank_value r = lock_rank_value q \<longleftrightarrow> r = q"
  using lock_ranks_nth [of r] lock_ranks_nth [of q] by metis

instantiation lock_rank :: linorder
begin

definition less_eq_lock_rank :: "lock_rank \<Rightarrow> lock_rank \<Rightarrow> bool" where
  "less_eq_lock_rank r q \<longleftrightarrow> lock_rank_value r \<le> lock_rank_value q"

definition less_lock_rank :: "lock_rank \<Rightarrow> lock_rank \<Rightarrow> bool" where
  "less_lock_rank r q \<longleftrightarrow> lock_rank_value r < lock_rank_value q"

instance
  by standard (auto simp: less_eq_lock_rank_def less_lock_rank_def lock_rank_value_inj)

end

text \<open>
  With ranking off (\<open>lockrank_off.c\<close>) only the two calls into the runtime have an effect; the
  rank is an \<open>int\<close> that nothing reads.
\<close>

definition lock_init :: "u64 \<Rightarrow> int \<Rightarrow> 's \<Rightarrow> 's" where
  "lock_init l rank s = s"

definition get_lock_rank :: "u64 \<Rightarrow> 's \<Rightarrow> int" where
  "get_lock_rank l s = 0"

definition lock_with_rank :: "(u64 \<Rightarrow> 's \<Rightarrow> 's option) \<Rightarrow> u64 \<Rightarrow> int \<Rightarrow> 's \<Rightarrow> 's option" where
  "lock_with_rank runtime_lock2 l rank s = runtime_lock2 l s"

definition acquire_lock_rank :: "int \<Rightarrow> 's \<Rightarrow> 's" where
  "acquire_lock_rank rank s = s"

definition unlock_with_rank :: "(u64 \<Rightarrow> 's \<Rightarrow> 's option) \<Rightarrow> u64 \<Rightarrow> 's \<Rightarrow> 's option" where
  "unlock_with_rank runtime_unlock2 l s = runtime_unlock2 l s"

definition release_lock_rank :: "int \<Rightarrow> 's \<Rightarrow> 's" where
  "release_lock_rank rank s = s"

definition lock_with_rank_may_acquire :: "u64 \<Rightarrow> int \<Rightarrow> 's \<Rightarrow> 's" where
  "lock_with_rank_may_acquire l rank s = s"

definition assert_lock_held :: "u64 \<Rightarrow> 's \<Rightarrow> 's" where
  "assert_lock_held l s = s"

definition assert_rank_held :: "int \<Rightarrow> 's \<Rightarrow> 's" where
  "assert_rank_held r s = s"

definition world_stopped :: "'s \<Rightarrow> 's" where
  "world_stopped s = s"

definition world_started :: "'s \<Rightarrow> 's" where
  "world_started s = s"

definition assert_world_stopped :: "'s \<Rightarrow> 's" where
  "assert_world_stopped s = s"

definition assert_world_stopped_or_lock_held :: "u64 \<Rightarrow> 's \<Rightarrow> 's" where
  "assert_world_stopped_or_lock_held l s = s"

section \<open>Goroutine states\<close>

datatype g_status =
    G_IDLE | G_RUNNABLE | G_RUNNING | G_SYSCALL | G_WAITING | G_MORIBUND_UNUSED | G_DEAD
  | G_ENQUEUE_UNUSED | G_COPY_STACK | G_PREEMPTED | G_SCAN | G_SCAN_NRUNNABLE | G_SCAN_RUNNING
  | G_SCAN_SYSCALL | G_SCAN_WAITING | G_SCAN_PREEMPTED

primrec g_status_value :: "g_status \<Rightarrow> u32" where
  "g_status_value G_IDLE = 0"
| "g_status_value G_RUNNABLE = 1"
| "g_status_value G_RUNNING = 2"
| "g_status_value G_SYSCALL = 3"
| "g_status_value G_WAITING = 4"
| "g_status_value G_MORIBUND_UNUSED = 5"
| "g_status_value G_DEAD = 6"
| "g_status_value G_ENQUEUE_UNUSED = 7"
| "g_status_value G_COPY_STACK = 8"
| "g_status_value G_PREEMPTED = 9"
| "g_status_value G_SCAN = 0x1000"
| "g_status_value G_SCAN_NRUNNABLE = 0x1000 + 1"
| "g_status_value G_SCAN_RUNNING = 0x1000 + 2"
| "g_status_value G_SCAN_SYSCALL = 0x1000 + 3"
| "g_status_value G_SCAN_WAITING = 0x1000 + 4"
| "g_status_value G_SCAN_PREEMPTED = 0x1000 + 9"

definition g_statuses :: "g_status list" where
  "g_statuses = [G_IDLE, G_RUNNABLE, G_RUNNING, G_SYSCALL, G_WAITING, G_MORIBUND_UNUSED, G_DEAD,
     G_ENQUEUE_UNUSED, G_COPY_STACK, G_PREEMPTED, G_SCAN, G_SCAN_NRUNNABLE, G_SCAN_RUNNING,
     G_SCAN_SYSCALL, G_SCAN_WAITING, G_SCAN_PREEMPTED]"

text \<open>\<open>atomicstatus & ~G_SCAN\<close>: the state the goroutine returns to when the scan completes.\<close>

fun after_scan :: "g_status \<Rightarrow> g_status" where
  "after_scan G_SCAN = G_IDLE"
| "after_scan G_SCAN_NRUNNABLE = G_RUNNABLE"
| "after_scan G_SCAN_RUNNING = G_RUNNING"
| "after_scan G_SCAN_SYSCALL = G_SYSCALL"
| "after_scan G_SCAN_WAITING = G_WAITING"
| "after_scan G_SCAN_PREEMPTED = G_PREEMPTED"
| "after_scan s = s"

datatype (plugins only: code) wait_reason =
    WAIT_REASON_ZERO | WAIT_REASON_GC_ASSIST_MARKING | WAIT_REASON_IO_WAIT |
    WAIT_REASON_CHAN_RECEIVE_NIL_CHAN | WAIT_REASON_CHAN_SEND_NIL_CHAN |
    WAIT_REASON_DUMPING_HEAP | WAIT_REASON_GARBAGE_COLLECTION |
    WAIT_REASON_GARBAGE_COLLECTION_SCAN | WAIT_REASON_PANIC_WAIT | WAIT_REASON_SELECT |
    WAIT_REASON_SELECT_NO_CASES | WAIT_REASON_GC_ASSIST_WAIT | WAIT_REASON_GC_SWEEP_WAIT |
    WAIT_REASON_GC_SCAVENGE_WAIT | WAIT_REASON_CHAN_RECEIVE | WAIT_REASON_CHAN_SEND |
    WAIT_REASON_FINALIZER_WAIT | WAIT_REASON_FORCE_GC_IDLE | WAIT_REASON_SEMACQUIRE |
    WAIT_REASON_SLEEP | WAIT_REASON_SYNC_COND_WAIT | WAIT_REASON_TIMER_GOROUTINE_IDLE |
    WAIT_REASON_TRACE_READER_BLOCKED | WAIT_REASON_WAIT_FOR_GC_CYCLE |
    WAIT_REASON_GC_WORKER_IDLE | WAIT_REASON_PREEMPTED | WAIT_REASON_DEBUG_CALL

primrec wait_reason_value :: "wait_reason \<Rightarrow> u8" where
  "wait_reason_value WAIT_REASON_ZERO = 0"
| "wait_reason_value WAIT_REASON_GC_ASSIST_MARKING = 1"
| "wait_reason_value WAIT_REASON_IO_WAIT = 2"
| "wait_reason_value WAIT_REASON_CHAN_RECEIVE_NIL_CHAN = 3"
| "wait_reason_value WAIT_REASON_CHAN_SEND_NIL_CHAN = 4"
| "wait_reason_value WAIT_REASON_DUMPING_HEAP = 5"
| "wait_reason_value WAIT_REASON_GARBAGE_COLLECTION = 6"
| "wait_reason_value WAIT_REASON_GARBAGE_COLLECTION_SCAN = 7"
| "wait_reason_value WAIT_REASON_PANIC_WAIT = 8"
| "wait_reason_value WAIT_REASON_SELECT = 9"
| "wait_reason_value WAIT_REASON_SELECT_NO_CASES = 10"
| "wait_reason_value WAIT_REASON_GC_ASSIST_WAIT = 11"
| "wait_reason_value WAIT_REASON_GC_SWEEP_WAIT = 12"
| "wait_reason_value WAIT_REASON_GC_SCAVENGE_WAIT = 13"
| "wait_reason_value WAIT_REASON_CHAN_RECEIVE = 14"
| "wait_reason_value WAIT_REASON_CHAN_SEND = 15"
| "wait_reason_value WAIT_REASON_FINALIZER_WAIT = 16"
| "wait_reason_value WAIT_REASON_FORCE_GC_IDLE = 17"
| "wait_reason_value WAIT_REASON_SEMACQUIRE = 18"
| "wait_reason_value WAIT_REASON_SLEEP = 19"
| "wait_reason_value WAIT_REASON_SYNC_COND_WAIT = 20"
| "wait_reason_value WAIT_REASON_TIMER_GOROUTINE_IDLE = 21"
| "wait_reason_value WAIT_REASON_TRACE_READER_BLOCKED = 22"
| "wait_reason_value WAIT_REASON_WAIT_FOR_GC_CYCLE = 23"
| "wait_reason_value WAIT_REASON_GC_WORKER_IDLE = 24"
| "wait_reason_value WAIT_REASON_PREEMPTED = 25"
| "wait_reason_value WAIT_REASON_DEBUG_CALL = 26"

section \<open>Mark worker modes\<close>

datatype gc_mark_worker_mode =
    GC_MARK_WORKER_NOT_WORKER | GC_MARK_WORKER_DEDICATED_MODE
  | GC_MARK_WORKER_FRACTIONAL_MODE | GC_MARK_WORKER_IDLE_MODE

primrec gc_mark_worker_mode_value :: "gc_mark_worker_mode \<Rightarrow> nat" where
  "gc_mark_worker_mode_value GC_MARK_WORKER_NOT_WORKER = 0"
| "gc_mark_worker_mode_value GC_MARK_WORKER_DEDICATED_MODE = 1"
| "gc_mark_worker_mode_value GC_MARK_WORKER_FRACTIONAL_MODE = 2"
| "gc_mark_worker_mode_value GC_MARK_WORKER_IDLE_MODE = 3"

section \<open>Type flags\<close>

datatype tflag = TFLAG_UNCOMMON | TFLAG_EXTRA_STAR | TFLAG_NAMED | TFLAG_REGULAR_MEMORY

primrec tflag_value :: "tflag \<Rightarrow> u8" where
  "tflag_value TFLAG_UNCOMMON = push_bit 0 1"
| "tflag_value TFLAG_EXTRA_STAR = push_bit 1 1"
| "tflag_value TFLAG_NAMED = push_bit 2 1"
| "tflag_value TFLAG_REGULAR_MEMORY = push_bit 3 1"

end
