(* ===== verification/Runtime_Theorems.thy ===== *)
theory Runtime_Theorems
  imports Gostring Runtime_Enums
begin

text \<open>
  The theorems on the strings and the enumerations of the Go runtime port.
\<close>

section \<open>Strings\<close>

text \<open>\<open>concatstrings\<close> returns a new empty string when all strings are empty and the string itself
  when one is not and a buffer is given. In every other case it returns NULL: it never
  concatenates.\<close>

theorem concatstrings_outcome:
  assumes "lens_fit a"
  shows "concatstrings buf a = Inr
    (case filter (\<lambda>s. len s \<noteq> 0) a of
       [] \<Rightarrow> Some empty_string
     | [s] \<Rightarrow> if buf then Some s else None
     | _ \<Rightarrow> None)"
  by (rule concatstrings_spec [OF assms])

lemma concatstrings_outcome_witness:
  "concatstrings True [empty_string, \<lparr>str = 0x1000, len = 3\<rparr>, \<lparr>str = 0x2000, len = 4\<rparr>] = Inr None"
  using concatstrings_outcome [of "[empty_string, \<lparr>str = 0x1000, len = 3\<rparr>, \<lparr>str = 0x2000, len = 4\<rparr>]" True]
  by (simp add: lens_fit_def empty_string_def)

text \<open>The check of \<open>concatstrings\<close> for a sum that is too long catches no overflow of the sum, which
  is undefined before it; it fires only on a string whose length is negative as an \<open>int\<close>.\<close>

theorem concatstrings_throws:
  assumes "concatstrings buf a = Inl (Thrown ''string concatenation too long'')"
  shows "\<exists>s \<in> set a. (ucast (len s) :: u32) <s 0"
proof -
  have loop: "\<exists>s \<in> set x. (ucast (len s) :: u32) <s 0"
    if "concat_loop x i idx l count = Inl (Thrown msg)" for x i idx l count msg
    using that
  proof (induction x arbitrary: i idx l count)
    case Nil
    then show ?case by simp
  next
    case (Cons s x)
    let ?n = "ucast (len s) :: u32"
    show ?case
    proof (cases "?n \<noteq> 0 \<and> int_sum_fits l ?n \<and> l + ?n <s l")
      case True
      then have "sint (l + ?n) = sint l + sint ?n"
        unfolding int_sum_fits_def
        by (simp add: sint_word_ariths(1) signed_take_bit_int_eq_self)
      then have "sint ?n < 0" using True by (simp add: word_sless_alt)
      then show ?thesis by (simp add: word_sless_alt)
    next
      case False
      then show ?thesis
        using Cons by (auto simp: Let_def int_inc_def split: if_splits)
    qed
  qed
  have at: "string_at_loop sl i j \<noteq> Inl (Thrown ''string concatenation too long'')" for sl i j
    by (induction sl i j rule: string_at_loop.induct) (auto simp: int_inc_def)
  show ?thesis
  proof (cases "concat_loop a 0 0 0 0")
    case (Inl e)
    then have "e = Thrown ''string concatenation too long''" using assms by (simp add: concatstrings_def)
    then show ?thesis using loop Inl by blast
  next
    case (Inr r)
    then have False
      using assms at by (auto simp: concatstrings_def string_at_def split: prod.splits if_splits sum.splits list.splits)
    then show ?thesis ..
  qed
qed

lemma concatstrings_throws_witness:
  "concatstrings True [\<lparr>str = 0x1000, len = 0xffffffff\<rparr>] = Inl (Thrown ''string concatenation too long'') \<and>
   (ucast (0xffffffff :: u64) :: u32) <s 0"
proof -
  have "concatstrings True [\<lparr>str = 0x1000, len = 0xffffffff\<rparr>] = Inl (Thrown ''string concatenation too long'')"
    by (simp add: concatstrings_def int_sum_fits_def word_sless_alt)
  then show ?thesis using concatstrings_throws [of True "[\<lparr>str = 0x1000, len = 0xffffffff\<rparr>]"] by simp
qed

text \<open>\<open>string_at\<close> returns the list from the given position on, NULL at the position just behind
  its end, and throws beyond that.\<close>

theorem string_at_correct:
  assumes "unat idx < 2 ^ 31"
  shows "string_at sl idx = (if unat idx \<le> length sl then Inr (drop (unat idx) sl)
    else Inl (Thrown ''index is out of bounds''))"
  using string_at_loop_spec [OF assms, of 0] by (simp add: string_at_def)

lemma string_at_correct_witness:
  "string_at [empty_string, \<lparr>str = 0x1000, len = 3\<rparr>] 1 = Inr [\<lparr>str = 0x1000, len = 3\<rparr>] \<and>
   string_at [empty_string] 2 = Inl (Thrown ''index is out of bounds'')"
  using string_at_correct [of 1 "[empty_string, \<lparr>str = 0x1000, len = 3\<rparr>]"]
    string_at_correct [of 2 "[empty_string]"] by simp

section \<open>Enumerations\<close>

text \<open>Clearing the scan bit of a goroutine state gives the state the goroutine returns to, and the
  numbers of the states determine them.\<close>

theorem scan_bit:
  "g_status_value (after_scan s) = g_status_value s AND NOT (g_status_value G_SCAN) \<and>
   after_scan (after_scan s) = after_scan s \<and>
   (g_status_value s = g_status_value t) = (s = t)"
  by (cases s; cases t; simp)

text \<open>The order of the lock ranks is that of their numbers, which are their positions in the
  enumeration: the declaration lists all ranks from the first to the last, without gap.\<close>

theorem lock_ranks_in_order:
  "map lock_rank_value lock_ranks = [0..<51] \<and> sorted lock_ranks \<and> distinct lock_ranks \<and> r \<in> set lock_ranks"
proof -
  have m: "map lock_rank_value lock_ranks = [0..<51]" by (simp add: lock_ranks_def upt_rec)
  have "sorted (map lock_rank_value lock_ranks)" unfolding m by simp
  then have "sorted lock_ranks" by (simp add: sorted_map less_eq_lock_rank_def [abs_def])
  moreover have "distinct lock_ranks" using m distinct_map [of lock_rank_value lock_ranks] by simp
  moreover have "r \<in> set lock_ranks" using lock_ranks_nth [of r] by (metis nth_mem)
  ultimately show ?thesis using m by blast
qed

end
