(* ===== verification/Runtime_Layout.thy ===== *)
theory Runtime_Layout
  imports Fixalloc
begin

text \<open>
  The structs of \<open>runtime2.h\<close>, \<open>type.h\<close>, \<open>string.h\<close> and \<open>fixalloc.h\<close> and how a C compiler lays them
  out. A struct is the list of its fields with their sizes and alignments, in the order of the
  source; the rules of the System V ABI place them. Two targets matter: the 64-bit one the port is
  built for, and 32-bit x86, where integers of eight bytes are aligned to four, which the comments on
  atomically accessed fields are about. A third, 32-bit ARM, is one where C and Go align such
  integers differently. \<open>tls_slots\<close>, a constant object in the source, is read as
  the constant expression it is meant to be.
\<close>

section \<open>Layout\<close>

text \<open>Size and alignment.\<close>

type_synonym shape = "nat \<times> nat"
type_synonym fields = "(string \<times> shape) list"

record abi =
  word_bytes :: nat
  int64_align :: nat
  go_int64_align :: nat

definition lp64 :: abi where
  "lp64 = \<lparr>word_bytes = 8, int64_align = 8, go_int64_align = 8\<rparr>"

definition ilp32 :: abi where
  "ilp32 = \<lparr>word_bytes = 4, int64_align = 4, go_int64_align = 4\<rparr>"

definition arm32 :: abi where
  "arm32 = \<lparr>word_bytes = 4, int64_align = 8, go_int64_align = 4\<rparr>"

definition c_int8 :: shape where "c_int8 = (1, 1)"
definition c_int32 :: shape where "c_int32 = (4, 4)"
definition c_int64 :: "abi \<Rightarrow> shape" where "c_int64 a = (8, int64_align a)"
definition c_word :: "abi \<Rightarrow> shape" where "c_word a = (word_bytes a, word_bytes a)"
definition c_ptr :: "abi \<Rightarrow> shape" where "c_ptr a = c_word a"
definition c_array :: "nat \<Rightarrow> shape \<Rightarrow> shape" where "c_array n s = (n * fst s, snd s)"

definition round_up :: "nat \<Rightarrow> nat \<Rightarrow> nat" where
  "round_up n al = (n + al - 1) div al * al"

text \<open>Each field goes to the next offset that has its alignment.\<close>

fun place :: "nat \<Rightarrow> fields \<Rightarrow> (string \<times> nat \<times> shape) list" where
  "place off [] = []"
| "place off ((f, s) # fs) =
     (f, round_up off (snd s), s) # place (round_up off (snd s) + fst s) fs"

fun end_of :: "nat \<Rightarrow> fields \<Rightarrow> nat" where
  "end_of off [] = off"
| "end_of off ((f, s) # fs) = end_of (round_up off (snd s) + fst s) fs"

definition struct_align :: "fields \<Rightarrow> nat" where
  "struct_align fs = foldr (\<lambda>f. max (snd (snd f))) fs 1"

definition struct_shape :: "fields \<Rightarrow> shape" where
  "struct_shape fs = (round_up (end_of 0 fs) (struct_align fs), struct_align fs)"

definition offset_of :: "string \<Rightarrow> fields \<Rightarrow> nat option" where
  "offset_of f fs = map_option fst (map_of (place 0 fs) f)"

named_theorems layout

declare c_int8_def [layout] c_int32_def [layout] c_int64_def [layout] c_word_def [layout]
  c_ptr_def [layout] c_array_def [layout]

section \<open>type.h\<close>

definition tflag_t :: shape where "tflag_t = c_int8"
definition name_off_t :: shape where "name_off_t = c_int32"
definition type_off_t :: shape where "type_off_t = c_int32"

definition struct_name :: "abi \<Rightarrow> fields" where
  "struct_name a = [
     (''bytes'', c_ptr a)]"

definition struct_type :: "abi \<Rightarrow> fields" where
  "struct_type a = [
     (''size'', c_word a), (''ptrdata'', c_word a), (''hash'', c_int32), (''tflag'', tflag_t),
     (''align'', c_int8), (''field_align'', c_int8), (''kind'', c_int8), (''equal'', c_ptr a),
     (''gcdata'', c_ptr a), (''str'', name_off_t), (''ptr_to_this'', type_off_t)]"

definition struct_imethod :: "abi \<Rightarrow> fields" where
  "struct_imethod a = [
     (''name'', name_off_t), (''ityp'', type_off_t)]"

definition struct_interface_type :: "abi \<Rightarrow> fields" where
  "struct_interface_type a = [
     (''typ'', struct_shape (struct_type a)), (''pkgpath'', struct_shape (struct_name a)),
     (''mhdr'', c_ptr a)]"

section \<open>runtime2.h\<close>

definition guintptr_t :: "abi \<Rightarrow> shape" where "guintptr_t a = c_word a"
definition muintptr_t :: "abi \<Rightarrow> shape" where "muintptr_t a = c_word a"
definition puintptr_t :: "abi \<Rightarrow> shape" where "puintptr_t a = c_word a"
definition tracebufptr_t :: "abi \<Rightarrow> shape" where "tracebufptr_t a = c_word a"
definition gc_mark_worker_mode_t :: shape where "gc_mark_worker_mode_t = c_int32"
definition wait_reason_t :: shape where "wait_reason_t = c_int8"
definition tls_slots :: nat where "tls_slots = 6"

text \<open>Structs still without fields have size 0.\<close>

definition struct_stack :: "abi \<Rightarrow> fields" where
  "struct_stack a = []"

definition struct_gqueue :: "abi \<Rightarrow> fields" where
  "struct_gqueue a = []"

definition struct_gobuf :: "abi \<Rightarrow> fields" where
  "struct_gobuf a = []"

definition struct_gsignalstack :: "abi \<Rightarrow> fields" where
  "struct_gsignalstack a = []"

definition struct_sigset :: "abi \<Rightarrow> fields" where
  "struct_sigset a = []"

definition struct_time_histogram :: "abi \<Rightarrow> fields" where
  "struct_time_histogram a = []"

definition struct_note :: "abi \<Rightarrow> fields" where
  "struct_note a = []"

definition struct_libcall :: "abi \<Rightarrow> fields" where
  "struct_libcall a = []"

definition struct_dlog_per_m :: "abi \<Rightarrow> fields" where
  "struct_dlog_per_m a = []"

definition struct_glist :: "abi \<Rightarrow> fields" where
  "struct_glist a = []"

definition struct_m_os :: "abi \<Rightarrow> fields" where
  "struct_m_os a = []"

definition struct_held_lock_info :: "abi \<Rightarrow> fields" where
  "struct_held_lock_info a = []"

definition struct_sysmontick :: "abi \<Rightarrow> fields" where
  "struct_sysmontick a = []"

definition struct_page_cache :: "abi \<Rightarrow> fields" where
  "struct_page_cache a = []"

definition struct_wbbuf :: "abi \<Rightarrow> fields" where
  "struct_wbbuf a = []"

definition struct_mcache :: "abi \<Rightarrow> fields" where
  "struct_mcache a = []"

definition struct_persistent_alloc :: "abi \<Rightarrow> fields" where
  "struct_persistent_alloc a = []"

definition struct_gc_work :: "abi \<Rightarrow> fields" where
  "struct_gc_work a = []"

definition struct_func_info :: "abi \<Rightarrow> fields" where
  "struct_func_info a = []"

definition struct_lock_rank_struct :: "abi \<Rightarrow> fields" where
  "struct_lock_rank_struct a = []"

definition struct_mutex :: "abi \<Rightarrow> fields" where
  "struct_mutex a = [
     (''lock_rank'', struct_shape (struct_lock_rank_struct a)), (''key'', c_word a)]"

definition struct_itab :: "abi \<Rightarrow> fields" where
  "struct_itab a = [
     (''inter'', c_ptr a), (''type'', c_ptr a), (''hash'', c_int32), (''_'', c_array 4 c_int8),
     (''fun'', c_array 1 (c_word a))]"

definition struct_lfnode :: "abi \<Rightarrow> fields" where
  "struct_lfnode a = [
     (''next'', c_int64 a), (''pushcnt'', c_word a)]"

definition struct_forcegcstate :: "abi \<Rightarrow> fields" where
  "struct_forcegcstate a = [
     (''lock'', struct_shape (struct_mutex a)), (''g'', c_ptr a), (''idle'', c_int32)]"

definition struct_defer :: "abi \<Rightarrow> fields" where
  "struct_defer a = [
     (''started'', c_int8), (''heap'', c_int8), (''open_defer'', c_int8), (''sp'', c_word a),
     (''pc'', c_word a), (''fn'', c_ptr a), (''_panic'', c_ptr a), (''link'', c_ptr a),
     (''fd'', c_ptr a), (''varp'', c_word a), (''framepc'', c_word a)]"

definition struct_panic :: "abi \<Rightarrow> fields" where
  "struct_panic a = [
     (''argp'', c_ptr a), (''arg'', c_ptr a), (''link'', c_ptr a), (''pc'', c_word a),
     (''sp'', c_ptr a), (''recovered'', c_int8), (''aborted'', c_int8), (''goexit'', c_int8)]"

definition struct_stkframe :: "abi \<Rightarrow> fields" where
  "struct_stkframe a = [
     (''fn'', struct_shape (struct_func_info a)), (''pc'', c_word a), (''continpc'', c_word a),
     (''lr'', c_word a), (''sp'', c_word a), (''fp'', c_word a), (''varp'', c_word a),
     (''argp'', c_word a), (''arglen'', c_word a), (''argmap'', c_ptr a)]"

definition struct_funcinl :: "abi \<Rightarrow> fields" where
  "struct_funcinl a = [
     (''ones'', c_int32), (''entry'', c_word a), (''name'', c_ptr a), (''file'', c_ptr a),
     (''line'', c_int32)]"

definition struct_ancestor_info :: "abi \<Rightarrow> fields" where
  "struct_ancestor_info a = [
     (''pcs'', c_ptr a), (''goid'', c_int64 a), (''gopc'', c_word a)]"

definition struct_g :: "abi \<Rightarrow> fields" where
  "struct_g a = [
     (''stack'', struct_shape (struct_stack a)), (''stackguard0'', c_word a),
     (''stackguard1'', c_word a), (''_panic'', c_ptr a), (''_defer'', c_ptr a), (''m'', c_ptr a),
     (''sched'', struct_shape (struct_gobuf a)), (''syscallsp'', c_word a),
     (''syscallpc'', c_word a), (''stktopsp'', c_word a), (''param'', c_ptr a),
     (''atomicstatus'', c_int32), (''stack_lock'', c_int32), (''goid'', c_int64 a),
     (''schedlink'', guintptr_t a), (''waitsince'', c_int64 a), (''waitreason'', wait_reason_t),
     (''preempt'', c_int8), (''preempt_stop'', c_int8), (''preempt_shrink'', c_int8),
     (''async_safe_point'', c_int8), (''paniconfault'', c_int8), (''gcscandone'', c_int8),
     (''throwsplit'', c_int8), (''active_stack_chans'', c_int8), (''parking_on_chan'', c_int8),
     (''raceignore'', c_int8), (''sysblocktraced'', c_int8), (''tracking'', c_int8),
     (''trackingSeq'', c_int8), (''runnableStamp'', c_int64 a), (''runnableTime'', c_int64 a),
     (''sysexitticks'', c_int64 a), (''traceseq'', c_int64 a), (''tracelastp'', puintptr_t a),
     (''lockedm'', muintptr_t a), (''sig'', c_int32), (''writebuf'', c_ptr a),
     (''sigcode0'', c_word a), (''sigcode1'', c_word a), (''sigpc'', c_word a),
     (''gopc'', c_word a), (''ancestors'', c_ptr a), (''startpc'', c_word a),
     (''racectx'', c_word a), (''waiting'', c_ptr a), (''cgo_ctxt'', c_ptr a),
     (''labels'', c_ptr a), (''timer'', c_ptr a), (''select_done'', c_int32),
     (''gc_assist_bytes'', c_int64 a)]"

definition struct_m :: "abi \<Rightarrow> fields" where
  "struct_m a = [
     (''g0'', c_ptr a), (''morebuf'', struct_shape (struct_gobuf a)), (''divmod'', c_int32),
     (''procid'', c_int64 a), (''gsignal'', c_ptr a),
     (''gosigstack'', struct_shape (struct_gsignalstack a)),
     (''sigmask'', struct_shape (struct_sigset a)), (''tls'', c_array tls_slots (c_word a)),
     (''mstartfn'', c_ptr a), (''curg'', c_ptr a), (''caughtsig'', guintptr_t a),
     (''p'', puintptr_t a), (''nextp'', puintptr_t a), (''oldp'', puintptr_t a),
     (''id'', c_int64 a), (''mallocing'', c_int32), (''throwing'', c_int32),
     (''preemptoff'', c_ptr a), (''locks'', c_int32), (''dying'', c_int32),
     (''profilehz'', c_int32), (''spinning'', c_int8), (''blocked'', c_int8),
     (''new_sigstack'', c_int8), (''printlock'', c_int8), (''incgo'', c_int8),
     (''free_wait'', c_int32), (''fastrand'', c_int64 a), (''needextram'', c_int8),
     (''traceback'', c_int8), (''ncgocall'', c_int64 a), (''ncgo'', c_int32),
     (''cgo_callers_use'', c_int32), (''cgo_callers'', c_ptr a),
     (''park'', struct_shape (struct_note a)), (''alllink'', c_ptr a),
     (''schedlink'', muintptr_t a), (''lockedg'', guintptr_t a),
     (''createstack'', c_array 32 (c_word a)), (''locked_ext'', c_int32),
     (''locked_int'', c_int32), (''nextwaitm'', muintptr_t a), (''waitunlockf'', c_ptr a),
     (''waitlock'', c_ptr a), (''waittraceev'', c_int8), (''waittraceskip'', c_int32),
     (''startingtrace'', c_int8), (''syscalltick'', c_int32), (''freelink'', c_ptr a),
     (''libcall'', struct_shape (struct_libcall a)), (''libcallpc'', c_word a),
     (''libcallsp'', c_word a), (''libcallg'', guintptr_t a),
     (''syscall'', struct_shape (struct_libcall a)), (''vdso_sp'', c_word a),
     (''vdso_pc'', c_word a), (''preempt_gen'', c_int32), (''signal_pending'', c_int32),
     (''_'', struct_shape (struct_dlog_per_m a)), (''os'', struct_shape (struct_m_os a)),
     (''locks_held_len'', c_int32),
     (''locks_held'', c_array 10 (struct_shape (struct_held_lock_info a)))]"

definition struct_p :: "abi \<Rightarrow> fields" where
  "struct_p a = [
     (''id'', c_int32), (''status'', c_int32), (''link'', puintptr_t a),
     (''schedtick'', c_int32), (''syscalltick'', c_int32),
     (''sysmontick'', struct_shape (struct_sysmontick a)), (''m'', muintptr_t a),
     (''mcache'', c_ptr a), (''pcache'', struct_shape (struct_page_cache a)),
     (''raceprocctx'', c_word a), (''deferpool'', c_ptr a),
     (''deferpoolbuf'', c_array 32 (c_ptr a)), (''goidcache'', c_int64 a),
     (''goidcacheend'', c_int64 a), (''runqhead'', c_int32), (''runqtail'', c_int32),
     (''runq'', c_array 256 (guintptr_t a)), (''runnext'', guintptr_t a),
     (''gfree'', struct_shape [(''list'', struct_shape (struct_glist a)), (''n'', c_int32)]),
     (''sudogcache'', c_ptr a), (''sudogbuf'', c_array 128 (c_ptr a)),
     (''mspancache'', struct_shape [(''len'', c_int32), (''buf'', c_array 128 (c_ptr a))]),
     (''tracebuf'', tracebufptr_t a), (''trace_sweep'', c_int8), (''trace_swept'', c_word a),
     (''trace_reclaimed'', c_word a), (''palloc'', struct_shape (struct_persistent_alloc a)),
     (''_'', c_int32), (''timer0_when'', c_int64 a), (''timer_modified_earliest'', c_int64 a),
     (''gcAssistTime'', c_int64 a), (''gcFractionalMarkTime'', c_int64 a),
     (''gc_mark_worker_mode'', gc_mark_worker_mode_t),
     (''gc_mark_worker_start_time'', c_int64 a), (''gcw'', struct_shape (struct_gc_work a)),
     (''wbbuf'', struct_shape (struct_wbbuf a)), (''run_safe_point_fn'', c_int32),
     (''stats_seq'', c_int32), (''timersLock'', struct_shape (struct_mutex a)),
     (''timers'', c_ptr a), (''num_timers'', c_int32), (''deleted_timers'', c_int32),
     (''timer_race_ctx'', c_word a), (''scannable_stack_size_delta'', c_int64 a),
     (''preempt'', c_int8)]"

definition struct_schedt :: "abi \<Rightarrow> fields" where
  "struct_schedt a = [
     (''goid_gen'', c_int64 a), (''last_poll'', c_int64 a), (''poll_until'', c_int64 a),
     (''lock'', struct_shape (struct_mutex a)), (''midle'', muintptr_t a), (''nmidle'', c_int32),
     (''nmidlelocked'', c_int32), (''mnext'', c_int64 a), (''maxmcount'', c_int32),
     (''nmsys'', c_int32), (''nmfreed'', c_int64 a), (''ngsys'', c_int32),
     (''pidle'', puintptr_t a), (''npidle'', c_int32), (''nmspinning'', c_int32),
     (''runq'', struct_shape (struct_gqueue a)), (''runqsize'', c_int32),
     (''disable'', struct_shape
       [(''user'', c_int8), (''runnable'', struct_shape (struct_gqueue a)), (''n'', c_int32)]),
     (''gFree'', struct_shape
       [(''lock'', struct_shape (struct_mutex a)), (''stack'', struct_shape (struct_glist a)),
        (''no_stack'', struct_shape (struct_glist a)), (''n'', c_int32)]),
     (''sudoglock'', struct_shape (struct_mutex a)), (''sudogcache'', c_ptr a),
     (''deferlock'', struct_shape (struct_mutex a)), (''deferpool'', c_ptr a),
     (''freem'', c_ptr a), (''gcwaiting'', c_int32), (''stopwait'', c_int32),
     (''stopnote'', struct_shape (struct_note a)), (''sysmonwait'', c_int32),
     (''sysmonnote'', struct_shape (struct_note a)), (''safe_point_fn'', c_ptr a),
     (''safe_point_wait'', c_int32), (''safe_point_note'', struct_shape (struct_note a)),
     (''profilehz'', c_int32), (''procresizetime'', c_int64 a), (''totaltime'', c_int64 a),
     (''sysmonlock'', struct_shape (struct_mutex a)),
     (''timeToRun'', struct_shape (struct_time_histogram a))]"

section \<open>string.h\<close>

definition struct_string :: "abi \<Rightarrow> fields" where
  "struct_string a = [(''str'', c_ptr a), (''len'', c_word a)]"

definition struct_string_list :: "abi \<Rightarrow> fields" where
  "struct_string_list a = [(''s'', c_ptr a), (''tail'', c_ptr a)]"

section \<open>fixalloc\<close>

definition struct_mlink :: "abi \<Rightarrow> fields" where
  "struct_mlink a = [
     (''next'', c_ptr a)]"

definition struct_fixalloc :: "abi \<Rightarrow> fields" where
  "struct_fixalloc a = [
     (''size'', c_word a), (''list'', c_ptr a), (''chunk'', c_word a), (''nchunk'', c_int32),
     (''nalloc'', c_int32), (''inuse'', c_word a), (''zero'', c_int8)]"

definition struct_node :: "abi \<Rightarrow> fields" where
  "struct_node a = [(''data'', c_int64 a), (''next'', c_ptr a)]"

lemmas runtime_layouts [layout] =
  tflag_t_def name_off_t_def type_off_t_def guintptr_t_def muintptr_t_def puintptr_t_def
  tracebufptr_t_def gc_mark_worker_mode_t_def wait_reason_t_def tls_slots_def struct_name_def
  struct_type_def struct_imethod_def struct_interface_type_def struct_stack_def
  struct_gqueue_def struct_gobuf_def struct_gsignalstack_def struct_sigset_def
  struct_time_histogram_def struct_note_def struct_libcall_def struct_dlog_per_m_def
  struct_glist_def struct_m_os_def struct_held_lock_info_def struct_sysmontick_def
  struct_page_cache_def struct_wbbuf_def struct_mcache_def struct_persistent_alloc_def
  struct_gc_work_def struct_func_info_def struct_lock_rank_struct_def struct_mutex_def
  struct_itab_def struct_lfnode_def struct_forcegcstate_def struct_defer_def struct_panic_def
  struct_stkframe_def struct_funcinl_def struct_ancestor_info_def struct_g_def struct_m_def
  struct_p_def struct_schedt_def struct_mlink_def struct_fixalloc_def struct_node_def
  struct_string_def struct_string_list_def

end
