(* ===== verification/Layout_Theorems.thy ===== *)
theory Layout_Theorems
  imports Runtime_Layout
begin

text \<open>
  What the layouts of \<open>Runtime_Layout\<close> promise: a well-formedness predicate on shapes that every
  constructor of shapes keeps, so that every struct built from them is laid out soundly, and the
  offsets that the comments of \<open>runtime2.h\<close> rely on.
\<close>

section \<open>Sound layouts\<close>

text \<open>A shape is sound when its alignment is a power of two and divides its size.\<close>

definition power_of_2 :: "nat \<Rightarrow> bool" where
  "power_of_2 n \<longleftrightarrow> (\<exists>k. n = 2 ^ k)"

definition shape_ok :: "shape \<Rightarrow> bool" where
  "shape_ok s \<longleftrightarrow> power_of_2 (snd s) \<and> snd s dvd fst s"

definition fields_ok :: "fields \<Rightarrow> bool" where
  "fields_ok fs \<longleftrightarrow> (\<forall>f \<in> set fs. shape_ok (snd f))"

definition abi_ok :: "abi \<Rightarrow> bool" where
  "abi_ok a \<longleftrightarrow> power_of_2 (word_bytes a) \<and> power_of_2 (int64_align a) \<and> int64_align a dvd 8 \<and>
     power_of_2 (go_int64_align a) \<and> go_int64_align a dvd 8"

text \<open>The fields do not overlap, are aligned and lie inside the struct, also in an array of it.\<close>

definition laid_out :: "fields \<Rightarrow> bool" where
  "laid_out fs \<longleftrightarrow>
     sorted_wrt (\<lambda>(_, off, s) (_, off', _). off + fst s \<le> off') (place 0 fs) \<and>
     (\<forall>(_, off, s) \<in> set (place 0 fs). snd s dvd off \<and> off + fst s \<le> fst (struct_shape fs) \<and>
        snd s dvd fst (struct_shape fs))"

lemma power_of_2_pos: "power_of_2 n \<Longrightarrow> 0 < n"
  by (auto simp: power_of_2_def)

lemma power_of_2_1: "power_of_2 1"
  unfolding power_of_2_def by (rule exI [of _ 0]) simp

lemma power_of_2_4: "power_of_2 4"
  unfolding power_of_2_def by (rule exI [of _ 2]) simp

lemma power_of_2_8: "power_of_2 8"
  unfolding power_of_2_def by (rule exI [of _ 3]) simp

lemma power_of_2_max: "power_of_2 m \<Longrightarrow> power_of_2 n \<Longrightarrow> power_of_2 (max m n)"
  by (simp add: max_def)

lemma power_of_2_le_dvd: "power_of_2 m \<Longrightarrow> power_of_2 n \<Longrightarrow> m \<le> n \<Longrightarrow> m dvd n"
  by (auto simp: power_of_2_def le_imp_power_dvd)

lemma round_up_ge: "0 < al \<Longrightarrow> n \<le> round_up n al"
proof -
  assume "0 < al"
  then have "(n + al - 1) mod al < al" by simp
  moreover have "n + al - 1 = (n + al - 1) div al * al + (n + al - 1) mod al" by simp
  ultimately show ?thesis unfolding round_up_def using \<open>0 < al\<close> by linarith
qed

lemma round_up_dvd: "al dvd round_up n al"
  by (simp add: round_up_def)

lemma round_up_multiple: "0 < al \<Longrightarrow> al dvd n \<Longrightarrow> round_up n al = n"
proof -
  assume al: "0 < al" "al dvd n"
  then obtain k where "n = al * k" by blast
  moreover have "(al * k + (al - 1)) div al = k"
    using al(1) by (metis div_mult_self2 add.commute add.right_neutral div_less diff_less less_numeral_extra(1) not_less_zero neq0_conv)
  ultimately show ?thesis using al(1) by (simp add: round_up_def)
qed

lemma struct_align_ok: "fields_ok fs \<Longrightarrow> power_of_2 (struct_align fs)"
  by (induction fs)
    (auto simp: struct_align_def fields_ok_def shape_ok_def power_of_2_1 [unfolded One_nat_def]
       power_of_2_max)

lemma struct_align_ge: "f \<in> set fs \<Longrightarrow> snd (snd f) \<le> struct_align fs"
  by (induction fs) (auto simp: struct_align_def)

lemma struct_shape_ok: "fields_ok fs \<Longrightarrow> shape_ok (struct_shape fs)"
  by (simp add: shape_ok_def struct_shape_def struct_align_ok round_up_dvd)

lemma fields_ok_Nil: "fields_ok []"
  by (simp add: fields_ok_def)

lemma fields_ok_Cons: "fields_ok ((f, s) # fs) \<longleftrightarrow> shape_ok s \<and> fields_ok fs"
  by (simp add: fields_ok_def)

lemma place_names: "map (\<lambda>(f, _, s). (f, s)) (place off fs) = fs"
  by (induction off fs rule: place.induct) auto

lemma end_of_ge: "fields_ok fs \<Longrightarrow> off \<le> end_of off fs"
proof (induction off fs rule: end_of.induct)
  case (2 off f s fs)
  then have "round_up off (snd s) + fst s \<le> end_of (round_up off (snd s) + fst s) fs"
    by (simp add: fields_ok_Cons)
  moreover have "off \<le> round_up off (snd s)"
    using "2.prems" by (simp add: fields_ok_Cons shape_ok_def power_of_2_pos round_up_ge)
  ultimately show ?case by simp
qed simp

lemma place_bounds:
  "fields_ok fs \<Longrightarrow> (f, o', s) \<in> set (place off fs) \<Longrightarrow>
     off \<le> o' \<and> snd s dvd o' \<and> o' + fst s \<le> end_of off fs"
proof (induction off fs rule: place.induct)
  case (2 off g t fs)
  have ge: "off \<le> round_up off (snd t)"
    using "2.prems"(1) by (simp add: fields_ok_Cons shape_ok_def power_of_2_pos round_up_ge)
  from "2.prems"(2) consider "(f, o', s) = (g, round_up off (snd t), t)"
    | "(f, o', s) \<in> set (place (round_up off (snd t) + fst t) fs)" by auto
  then show ?case
  proof cases
    case 1
    then show ?thesis using ge "2.prems"(1) by (simp add: round_up_dvd end_of_ge fields_ok_Cons)
  next
    case 2
    with "2.IH" "2.prems"(1) ge show ?thesis by (auto simp: fields_ok_Cons)
  qed
qed simp

lemma place_sorted:
  "fields_ok fs \<Longrightarrow> sorted_wrt (\<lambda>(_, off, s) (_, off', _). off + fst s \<le> off') (place off fs)"
proof (induction off fs rule: place.induct)
  case (2 off f s fs)
  then show ?case by (auto simp: fields_ok_Cons dest: place_bounds)
qed simp

lemma fields_ok_laid_out:
  assumes "fields_ok fs"
  shows "laid_out fs"
proof -
  have "snd s dvd o' \<and> o' + fst s \<le> fst (struct_shape fs) \<and> snd s dvd fst (struct_shape fs)"
    if m: "(f, o', s) \<in> set (place 0 fs)" for f o' s
  proof -
    have al: "power_of_2 (struct_align fs)" by (rule struct_align_ok [OF assms])
    have "(f, s) \<in> set (map (\<lambda>(f, _, s). (f, s)) (place 0 fs))" using m by force
    then have fs: "(f, s) \<in> set fs" by (simp only: place_names)
    then have "snd s dvd struct_align fs"
      using assms al fs struct_align_ge [OF fs] power_of_2_le_dvd [of "snd s"]
      by (auto simp: fields_ok_def shape_ok_def)
    moreover have "end_of 0 fs \<le> fst (struct_shape fs)"
      by (simp add: struct_shape_def round_up_ge power_of_2_pos al)
    moreover have "struct_align fs dvd fst (struct_shape fs)"
      by (simp add: struct_shape_def round_up_dvd)
    ultimately show ?thesis
      using place_bounds [OF assms m] by (meson dvd_trans order_trans)
  qed
  then show ?thesis
    using place_sorted [OF assms] unfolding laid_out_def by blast
qed

section \<open>The structs\<close>

definition runtime_structs :: "abi \<Rightarrow> fields list" where
  "runtime_structs a =
     [struct_type a, struct_imethod a, struct_interface_type a, struct_itab a, struct_mutex a,
      struct_lfnode a, struct_forcegcstate a, struct_defer a, struct_panic a, struct_stkframe a,
      struct_funcinl a, struct_ancestor_info a, struct_g a, struct_m a, struct_p a,
      struct_schedt a, struct_mlink a, struct_fixalloc a, struct_node a, struct_name a,
      struct_string a, struct_string_list a]"

lemma basic_shapes_ok:
  assumes "abi_ok a"
  shows "shape_ok c_int8" "shape_ok c_int32" "shape_ok (c_int64 a)" "shape_ok (c_word a)"
    "shape_ok (c_ptr a)"
  using assms
  by (simp_all add: abi_ok_def shape_ok_def c_int8_def c_int32_def c_int64_def c_word_def c_ptr_def
      power_of_2_4 power_of_2_1 [unfolded One_nat_def])

lemma c_array_ok: "shape_ok s \<Longrightarrow> shape_ok (c_array n s)"
  by (simp add: shape_ok_def c_array_def)

lemma typedefs_ok:
  assumes "abi_ok a"
  shows "shape_ok tflag_t" "shape_ok name_off_t" "shape_ok type_off_t" "shape_ok (guintptr_t a)"
    "shape_ok (muintptr_t a)" "shape_ok (puintptr_t a)" "shape_ok (tracebufptr_t a)"
    "shape_ok gc_mark_worker_mode_t" "shape_ok wait_reason_t"
  using basic_shapes_ok [OF assms]
  by (simp_all add: tflag_t_def name_off_t_def type_off_t_def guintptr_t_def muintptr_t_def
      puintptr_t_def tracebufptr_t_def gc_mark_worker_mode_t_def wait_reason_t_def)

lemmas shapes_ok = basic_shapes_ok typedefs_ok
lemmas build_ok = struct_shape_ok c_array_ok fields_ok_Nil fields_ok_Cons

lemma empty_structs_ok:
  "fields_ok (struct_stack a)" "fields_ok (struct_gqueue a)" "fields_ok (struct_gobuf a)"
  "fields_ok (struct_gsignalstack a)" "fields_ok (struct_sigset a)"
  "fields_ok (struct_time_histogram a)" "fields_ok (struct_note a)" "fields_ok (struct_libcall a)"
  "fields_ok (struct_dlog_per_m a)" "fields_ok (struct_glist a)" "fields_ok (struct_m_os a)"
  "fields_ok (struct_held_lock_info a)" "fields_ok (struct_sysmontick a)"
  "fields_ok (struct_page_cache a)" "fields_ok (struct_wbbuf a)" "fields_ok (struct_mcache a)"
  "fields_ok (struct_persistent_alloc a)" "fields_ok (struct_gc_work a)"
  "fields_ok (struct_func_info a)" "fields_ok (struct_lock_rank_struct a)"
  by (simp_all add: layout fields_ok_Nil)

lemma small_structs_ok:
  assumes "abi_ok a"
  shows "fields_ok (struct_name a)" "fields_ok (struct_type a)" "fields_ok (struct_mutex a)"
  by (simp_all add: struct_name_def struct_type_def struct_mutex_def build_ok empty_structs_ok
      shapes_ok [OF assms])

lemmas parts_ok = build_ok empty_structs_ok

lemma plain_structs_ok:
  assumes "abi_ok a"
  shows "fields_ok (struct_imethod a)" "fields_ok (struct_interface_type a)"
    "fields_ok (struct_itab a)" "fields_ok (struct_lfnode a)" "fields_ok (struct_forcegcstate a)"
    "fields_ok (struct_defer a)" "fields_ok (struct_panic a)" "fields_ok (struct_stkframe a)"
    "fields_ok (struct_funcinl a)" "fields_ok (struct_ancestor_info a)"
    "fields_ok (struct_mlink a)" "fields_ok (struct_fixalloc a)" "fields_ok (struct_node a)"
    "fields_ok (struct_string a)" "fields_ok (struct_string_list a)"
  by (simp_all add: struct_imethod_def struct_interface_type_def struct_itab_def struct_lfnode_def
      struct_forcegcstate_def struct_defer_def struct_panic_def struct_stkframe_def
      struct_funcinl_def struct_ancestor_info_def struct_mlink_def struct_fixalloc_def
      struct_node_def struct_string_def struct_string_list_def parts_ok shapes_ok [OF assms] small_structs_ok [OF assms])

lemma scheduler_structs_ok:
  assumes "abi_ok a"
  shows "fields_ok (struct_g a)" "fields_ok (struct_m a)" "fields_ok (struct_p a)"
    "fields_ok (struct_schedt a)"
  by (simp_all add: struct_g_def struct_m_def struct_p_def struct_schedt_def
      parts_ok shapes_ok [OF assms] small_structs_ok [OF assms])

text \<open>On every target whose word size and integer alignment are powers of two, each struct of the
  runtime is laid out soundly: its fields come in the order of the source, do not overlap, are
  aligned, and lie inside the struct, whose size is a multiple of every alignment, so that the same
  holds in an array.\<close>

theorem structs_laid_out:
  assumes "abi_ok a"
  shows "list_all laid_out (runtime_structs a)"
  unfolding runtime_structs_def
  by (simp add: fields_ok_laid_out small_structs_ok [OF assms] plain_structs_ok [OF assms]
      scheduler_structs_ok [OF assms])

lemma abi_ok_lp64: "abi_ok lp64"
  by (simp add: abi_ok_def lp64_def power_of_2_8)

lemma abi_ok_ilp32: "abi_ok ilp32"
  by (simp add: abi_ok_def ilp32_def power_of_2_4)

lemma abi_ok_arm32: "abi_ok arm32"
  by (simp add: abi_ok_def arm32_def power_of_2_4 power_of_2_8)

lemma structs_laid_out_witness:
  "list_all laid_out (runtime_structs lp64) \<and> list_all laid_out (runtime_structs ilp32)"
  using structs_laid_out [OF abi_ok_lp64] structs_laid_out [OF abi_ok_ilp32] by blast

section \<open>Offsets\<close>

text \<open>The fields of 64 bits that the comments of \<open>runtime2.h\<close> say are accessed atomically.\<close>

definition atomic_fields :: "abi \<Rightarrow> (fields \<times> string) list" where
  "atomic_fields a =
     [(struct_schedt a, ''goid_gen''), (struct_schedt a, ''last_poll''),
      (struct_schedt a, ''poll_until''), (struct_p a, ''timer0_when''),
      (struct_p a, ''timer_modified_earliest''), (struct_p a, ''gcFractionalMarkTime'')]"

text \<open>To evaluate an offset it is enough to place the fields before it.\<close>

fun offset_from :: "nat \<Rightarrow> string \<Rightarrow> fields \<Rightarrow> nat option" where
  "offset_from off f [] = None"
| "offset_from off f ((g, s) # fs) =
     (if f = g then Some (round_up off (snd s))
      else offset_from (round_up off (snd s) + fst s) f fs)"

lemma map_of_place: "map_option fst (map_of (place off fs) f) = offset_from off f fs"
  by (induction off f fs rule: offset_from.induct) auto

lemma offset_of_from: "offset_of f fs = offset_from 0 f fs"
  by (simp add: offset_of_def map_of_place)

lemma round_up_numeral:
  "round_up (numeral m) (numeral n) = (numeral m + numeral n - 1) div numeral n * numeral n"
  by (simp add: round_up_def)

lemma round_up_0: "round_up 0 n = 0"
  by (cases n) (simp_all add: round_up_def)

lemma round_up_1: "round_up n (Suc 0) = n"
  by (simp add: round_up_def)

lemmas place_eval = round_up_numeral round_up_0 round_up_1 struct_shape_def struct_align_def

lemma schedt_offsets_lp64:
  "offset_of ''goid_gen'' (struct_schedt lp64) = Some 0"
  "offset_of ''last_poll'' (struct_schedt lp64) = Some 8"
  "offset_of ''poll_until'' (struct_schedt lp64) = Some 16"
  unfolding offset_of_from layout lp64_def by (simp_all add: place_eval)

lemma schedt_offsets_ilp32:
  "offset_of ''goid_gen'' (struct_schedt ilp32) = Some 0"
  "offset_of ''last_poll'' (struct_schedt ilp32) = Some 8"
  "offset_of ''poll_until'' (struct_schedt ilp32) = Some 16"
  unfolding offset_of_from layout ilp32_def by (simp_all add: place_eval)

lemma p_offsets_lp64:
  "offset_of ''timer0_when'' (struct_p lp64) = Some 4504"
  "offset_of ''timer_modified_earliest'' (struct_p lp64) = Some 4512"
  "offset_of ''gcFractionalMarkTime'' (struct_p lp64) = Some 4528"
  unfolding offset_of_from layout lp64_def by (simp_all add: place_eval)

lemma p_offsets_ilp32:
  "offset_of ''timer0_when'' (struct_p ilp32) = Some 2272"
  "offset_of ''timer_modified_earliest'' (struct_p ilp32) = Some 2280"
  "offset_of ''gcFractionalMarkTime'' (struct_p ilp32) = Some 2296"
  unfolding offset_of_from layout ilp32_def by (simp_all add: place_eval)

text \<open>C26: The padding does what the comments say: in a struct at an address that is a multiple of 8,
  each field of 64 bits that is accessed atomically is at a multiple of 8, also on a 32-bit target,
  where the compiler alone would align it to 4.\<close>

theorem atomic_fields_aligned:
  assumes "a = lp64 \<or> a = ilp32" and "(fs, f) \<in> set (atomic_fields a)" and "8 dvd base"
  shows "\<exists>off. offset_of f fs = Some off \<and> 8 dvd base + off"
  using assms
  by (auto simp: atomic_fields_def schedt_offsets_lp64 schedt_offsets_ilp32 p_offsets_lp64
      p_offsets_ilp32)

lemma atomic_fields_aligned_witness:
  "\<exists>off. offset_of ''timer0_when'' (struct_p ilp32) = Some off \<and> 8 dvd (4096 :: nat) + off"
  by (rule atomic_fields_aligned [of ilp32]) (simp_all add: atomic_fields_def)

lemma g_offsets_lp64:
  "map (\<lambda>f. offset_of f (struct_g lp64))
     [''stack'', ''stackguard0'', ''stackguard1'', ''_panic'', ''_defer'', ''m''] =
   [Some 0, Some 0, Some 8, Some 16, Some 24, Some 32]"
  unfolding offset_of_from layout lp64_def by (simp add: place_eval)

lemma g_offsets_ilp32:
  "map (\<lambda>f. offset_of f (struct_g ilp32))
     [''stack'', ''stackguard0'', ''stackguard1'', ''_panic'', ''_defer'', ''m''] =
   [Some 0, Some 0, Some 4, Some 8, Some 12, Some 16]"
  unfolding offset_of_from layout ilp32_def by (simp add: place_eval)

text \<open>The first fields of \<open>g\<close>, whose offsets the comments say the linker knows: the stack bounds
  that come first have no fields in this port, so that \<open>stackguard0\<close> is at offset 0 and all the
  others are two words lower than with the two words of bounds.\<close>

theorem linker_offsets:
  assumes "a = lp64 \<or> a = ilp32"
  shows "map (\<lambda>f. offset_of f (struct_g a))
      [''stack'', ''stackguard0'', ''stackguard1'', ''_panic'', ''_defer'', ''m''] =
    [Some 0, Some 0, Some (word_bytes a), Some (2 * word_bytes a), Some (3 * word_bytes a),
     Some (4 * word_bytes a)]"
  using assms g_offsets_lp64 g_offsets_ilp32 by (auto simp: lp64_def ilp32_def)

lemma linker_offsets_witness:
  "offset_of ''_panic'' (struct_g lp64) = Some 16"
  using linker_offsets [of lp64] by (simp add: lp64_def)

section \<open>Sizes\<close>

text \<open>The size of \<open>p\<close> is a multiple of the cache line, as the comment at its end assumes.\<close>

lemma size_of_p: "fst (struct_shape (struct_p lp64)) = 72 * 64"
  unfolding layout lp64_def by (simp add: place_eval)

text \<open>The constants of \<open>Fixalloc\<close>: a link fits the smallest block, and lies over \<open>data\<close> in a node.\<close>

lemma mlink_size: "fst (struct_shape (struct_mlink lp64)) = unat sizeof_mlink"
  unfolding layout lp64_def by (simp add: place_eval sizeof_mlink_def)

lemma node_layout:
  "struct_shape (struct_node lp64) = (16, 8)"
  "offset_of ''data'' (struct_node lp64) = Some 0"
  "offset_of ''next'' (struct_node lp64) = Some 8"
  "offset_of ''next'' (struct_mlink lp64) = Some 0"
  unfolding offset_of_from layout lp64_def by (simp_all add: place_eval)

end
