(* ===== verification/Layout_Tables.thy ===== *)
theory Layout_Tables
  imports Layout_Theorems
begin

text \<open>
  Where the fields of the structs lie, in numbers: the table that \<open>offsetof\<close> and \<open>sizeof\<close> give in a
  64-bit build, with the sizes in a 32-bit x86 build beside it, and the proof that the structs as
  the headers declare them are laid out so.
\<close>

section \<open>The table\<close>

definition offsets :: "fields \<Rightarrow> (string \<times> nat) list" where
  "offsets fs = map (\<lambda>(f, off, _). (f, off)) (place 0 fs)"

text \<open>Each struct with its size and alignment in a 64-bit and in a 32-bit build, and the offsets of
  its fields in the former.\<close>

definition layout_table :: "(string \<times> shape \<times> shape \<times> (string \<times> nat) list) list" where
  "layout_table = [
     (''type'', (48, 8), (32, 4), [
      (''size'', 0), (''ptrdata'', 8), (''hash'', 16), (''tflag'', 20), (''align'', 21),
      (''field_align'', 22), (''kind'', 23), (''equal'', 24), (''gcdata'', 32), (''str'', 40),
      (''ptr_to_this'', 44)]),
     (''imethod'', (8, 4), (8, 4), [
      (''name'', 0), (''ityp'', 4)]),
     (''interface_type'', (64, 8), (40, 4), [
      (''typ'', 0), (''pkgpath'', 48), (''mhdr'', 56)]),
     (''itab'', (32, 8), (20, 4), [
      (''inter'', 0), (''type'', 8), (''hash'', 16), (''_'', 20), (''fun'', 24)]),
     (''mutex'', (8, 8), (4, 4), [
      (''lock_rank'', 0), (''key'', 0)]),
     (''lfnode'', (16, 8), (12, 4), [
      (''next'', 0), (''pushcnt'', 8)]),
     (''forcegcstate'', (24, 8), (12, 4), [
      (''lock'', 0), (''g'', 8), (''idle'', 16)]),
     (''defer'', (72, 8), (36, 4), [
      (''started'', 0), (''heap'', 1), (''open_defer'', 2), (''sp'', 8), (''pc'', 16),
      (''fn'', 24), (''_panic'', 32), (''link'', 40), (''fd'', 48), (''varp'', 56),
      (''framepc'', 64)]),
     (''panic'', (48, 8), (24, 4), [
      (''argp'', 0), (''arg'', 8), (''link'', 16), (''pc'', 24), (''sp'', 32),
      (''recovered'', 40), (''aborted'', 41), (''goexit'', 42)]),
     (''stkframe'', (72, 8), (36, 4), [
      (''fn'', 0), (''pc'', 0), (''continpc'', 8), (''lr'', 16), (''sp'', 24), (''fp'', 32),
      (''varp'', 40), (''argp'', 48), (''arglen'', 56), (''argmap'', 64)]),
     (''funcinl'', (40, 8), (20, 4), [
      (''ones'', 0), (''entry'', 8), (''name'', 16), (''file'', 24), (''line'', 32)]),
     (''ancestor_info'', (24, 8), (16, 4), [
      (''pcs'', 0), (''goid'', 8), (''gopc'', 16)]),
     (''g'', (288, 8), (184, 4), [
      (''stack'', 0), (''stackguard0'', 0), (''stackguard1'', 8), (''_panic'', 16),
      (''_defer'', 24), (''m'', 32), (''sched'', 40), (''syscallsp'', 40), (''syscallpc'', 48),
      (''stktopsp'', 56), (''param'', 64), (''atomicstatus'', 72), (''stack_lock'', 76),
      (''goid'', 80), (''schedlink'', 88), (''waitsince'', 96), (''waitreason'', 104),
      (''preempt'', 105), (''preempt_stop'', 106), (''preempt_shrink'', 107),
      (''async_safe_point'', 108), (''paniconfault'', 109), (''gcscandone'', 110),
      (''throwsplit'', 111), (''active_stack_chans'', 112), (''parking_on_chan'', 113),
      (''raceignore'', 114), (''sysblocktraced'', 115), (''tracking'', 116),
      (''trackingSeq'', 117), (''runnableStamp'', 120), (''runnableTime'', 128),
      (''sysexitticks'', 136), (''traceseq'', 144), (''tracelastp'', 152), (''lockedm'', 160),
      (''sig'', 168), (''writebuf'', 176), (''sigcode0'', 184), (''sigcode1'', 192),
      (''sigpc'', 200), (''gopc'', 208), (''ancestors'', 216), (''startpc'', 224),
      (''racectx'', 232), (''waiting'', 240), (''cgo_ctxt'', 248), (''labels'', 256),
      (''timer'', 264), (''select_done'', 272), (''gc_assist_bytes'', 280)]),
     (''m'', (608, 8), (356, 4), [
      (''g0'', 0), (''morebuf'', 8), (''divmod'', 8), (''procid'', 16), (''gsignal'', 24),
      (''gosigstack'', 32), (''sigmask'', 32), (''tls'', 32), (''mstartfn'', 80), (''curg'', 88),
      (''caughtsig'', 96), (''p'', 104), (''nextp'', 112), (''oldp'', 120), (''id'', 128),
      (''mallocing'', 136), (''throwing'', 140), (''preemptoff'', 144), (''locks'', 152),
      (''dying'', 156), (''profilehz'', 160), (''spinning'', 164), (''blocked'', 165),
      (''new_sigstack'', 166), (''printlock'', 167), (''incgo'', 168), (''free_wait'', 172),
      (''fastrand'', 176), (''needextram'', 184), (''traceback'', 185), (''ncgocall'', 192),
      (''ncgo'', 200), (''cgo_callers_use'', 204), (''cgo_callers'', 208), (''park'', 216),
      (''alllink'', 216), (''schedlink'', 224), (''lockedg'', 232), (''createstack'', 240),
      (''locked_ext'', 496), (''locked_int'', 500), (''nextwaitm'', 504), (''waitunlockf'', 512),
      (''waitlock'', 520), (''waittraceev'', 528), (''waittraceskip'', 532),
      (''startingtrace'', 536), (''syscalltick'', 540), (''freelink'', 544), (''libcall'', 552),
      (''libcallpc'', 552), (''libcallsp'', 560), (''libcallg'', 568), (''syscall'', 576),
      (''vdso_sp'', 576), (''vdso_pc'', 584), (''preempt_gen'', 592), (''signal_pending'', 596),
      (''_'', 600), (''os'', 600), (''locks_held_len'', 600), (''locks_held'', 604)]),
     (''p'', (4608, 8), (2356, 4), [
      (''id'', 0), (''status'', 4), (''link'', 8), (''schedtick'', 16), (''syscalltick'', 20),
      (''sysmontick'', 24), (''m'', 24), (''mcache'', 32), (''pcache'', 40),
      (''raceprocctx'', 40), (''deferpool'', 48), (''deferpoolbuf'', 56), (''goidcache'', 312),
      (''goidcacheend'', 320), (''runqhead'', 328), (''runqtail'', 332), (''runq'', 336),
      (''runnext'', 2384), (''gfree'', 2392), (''sudogcache'', 2400), (''sudogbuf'', 2408),
      (''mspancache'', 3432), (''tracebuf'', 4464), (''trace_sweep'', 4472),
      (''trace_swept'', 4480), (''trace_reclaimed'', 4488), (''palloc'', 4496), (''_'', 4496),
      (''timer0_when'', 4504), (''timer_modified_earliest'', 4512), (''gcAssistTime'', 4520),
      (''gcFractionalMarkTime'', 4528), (''gc_mark_worker_mode'', 4536),
      (''gc_mark_worker_start_time'', 4544), (''gcw'', 4552), (''wbbuf'', 4552),
      (''run_safe_point_fn'', 4552), (''stats_seq'', 4556), (''timersLock'', 4560),
      (''timers'', 4568), (''num_timers'', 4576), (''deleted_timers'', 4580),
      (''timer_race_ctx'', 4584), (''scannable_stack_size_delta'', 4592), (''preempt'', 4600)]),
     (''schedt'', (224, 8), (164, 4), [
      (''goid_gen'', 0), (''last_poll'', 8), (''poll_until'', 16), (''lock'', 24),
      (''midle'', 32), (''nmidle'', 40), (''nmidlelocked'', 44), (''mnext'', 48),
      (''maxmcount'', 56), (''nmsys'', 60), (''nmfreed'', 64), (''ngsys'', 72), (''pidle'', 80),
      (''npidle'', 88), (''nmspinning'', 92), (''runq'', 96), (''runqsize'', 96),
      (''disable'', 100), (''gFree'', 112), (''sudoglock'', 128), (''sudogcache'', 136),
      (''deferlock'', 144), (''deferpool'', 152), (''freem'', 160), (''gcwaiting'', 168),
      (''stopwait'', 172), (''stopnote'', 176), (''sysmonwait'', 176), (''sysmonnote'', 180),
      (''safe_point_fn'', 184), (''safe_point_wait'', 192), (''safe_point_note'', 196),
      (''profilehz'', 196), (''procresizetime'', 200), (''totaltime'', 208),
      (''sysmonlock'', 216), (''timeToRun'', 224)]),
     (''mlink'', (8, 8), (4, 4), [
      (''next'', 0)]),
     (''fixalloc'', (48, 8), (28, 4), [
      (''size'', 0), (''list'', 8), (''chunk'', 16), (''nchunk'', 24), (''nalloc'', 28),
      (''inuse'', 32), (''zero'', 40)]),
     (''node'', (16, 8), (12, 4), [
      (''data'', 0), (''next'', 8)]),
     (''name'', (8, 8), (4, 4), [
      (''bytes'', 0)]),
     (''string'', (16, 8), (8, 4), [
      (''str'', 0), (''len'', 8)]),
     (''string_list'', (16, 8), (8, 4), [
      (''s'', 0), (''tail'', 8)])]"

section \<open>Each struct\<close>

lemma round_up_Suc:
  "round_up (Suc n) (numeral m) = (Suc n + numeral m - 1) div numeral m * numeral m"
  by (simp add: round_up_def)

lemma struct_type_layout:
  "offsets (struct_type lp64) = [
      (''size'', 0), (''ptrdata'', 8), (''hash'', 16), (''tflag'', 20), (''align'', 21),
      (''field_align'', 22), (''kind'', 23), (''equal'', 24), (''gcdata'', 32), (''str'', 40),
      (''ptr_to_this'', 44)]"
  "struct_shape (struct_type lp64) = (48, 8)"
  "struct_shape (struct_type ilp32) = (32, 4)"
  by (unfold offsets_def layout lp64_def ilp32_def) (simp_all add: place_eval round_up_Suc)

lemma struct_imethod_layout:
  "offsets (struct_imethod lp64) = [
      (''name'', 0), (''ityp'', 4)]"
  "struct_shape (struct_imethod lp64) = (8, 4)"
  "struct_shape (struct_imethod ilp32) = (8, 4)"
  by (unfold offsets_def layout lp64_def ilp32_def) (simp_all add: place_eval round_up_Suc)

lemma struct_interface_type_layout:
  "offsets (struct_interface_type lp64) = [
      (''typ'', 0), (''pkgpath'', 48), (''mhdr'', 56)]"
  "struct_shape (struct_interface_type lp64) = (64, 8)"
  "struct_shape (struct_interface_type ilp32) = (40, 4)"
  by (unfold offsets_def layout lp64_def ilp32_def) (simp_all add: place_eval round_up_Suc)

lemma struct_itab_layout:
  "offsets (struct_itab lp64) = [
      (''inter'', 0), (''type'', 8), (''hash'', 16), (''_'', 20), (''fun'', 24)]"
  "struct_shape (struct_itab lp64) = (32, 8)"
  "struct_shape (struct_itab ilp32) = (20, 4)"
  by (unfold offsets_def layout lp64_def ilp32_def) (simp_all add: place_eval round_up_Suc)

lemma struct_mutex_layout:
  "offsets (struct_mutex lp64) = [
      (''lock_rank'', 0), (''key'', 0)]"
  "struct_shape (struct_mutex lp64) = (8, 8)"
  "struct_shape (struct_mutex ilp32) = (4, 4)"
  by (unfold offsets_def layout lp64_def ilp32_def) (simp_all add: place_eval round_up_Suc)

lemma struct_lfnode_layout:
  "offsets (struct_lfnode lp64) = [
      (''next'', 0), (''pushcnt'', 8)]"
  "struct_shape (struct_lfnode lp64) = (16, 8)"
  "struct_shape (struct_lfnode ilp32) = (12, 4)"
  by (unfold offsets_def layout lp64_def ilp32_def) (simp_all add: place_eval round_up_Suc)

lemma struct_forcegcstate_layout:
  "offsets (struct_forcegcstate lp64) = [
      (''lock'', 0), (''g'', 8), (''idle'', 16)]"
  "struct_shape (struct_forcegcstate lp64) = (24, 8)"
  "struct_shape (struct_forcegcstate ilp32) = (12, 4)"
  by (unfold offsets_def layout lp64_def ilp32_def) (simp_all add: place_eval round_up_Suc)

lemma struct_defer_layout:
  "offsets (struct_defer lp64) = [
      (''started'', 0), (''heap'', 1), (''open_defer'', 2), (''sp'', 8), (''pc'', 16),
      (''fn'', 24), (''_panic'', 32), (''link'', 40), (''fd'', 48), (''varp'', 56),
      (''framepc'', 64)]"
  "struct_shape (struct_defer lp64) = (72, 8)"
  "struct_shape (struct_defer ilp32) = (36, 4)"
  by (unfold offsets_def layout lp64_def ilp32_def) (simp_all add: place_eval round_up_Suc)

lemma struct_panic_layout:
  "offsets (struct_panic lp64) = [
      (''argp'', 0), (''arg'', 8), (''link'', 16), (''pc'', 24), (''sp'', 32),
      (''recovered'', 40), (''aborted'', 41), (''goexit'', 42)]"
  "struct_shape (struct_panic lp64) = (48, 8)"
  "struct_shape (struct_panic ilp32) = (24, 4)"
  by (unfold offsets_def layout lp64_def ilp32_def) (simp_all add: place_eval round_up_Suc)

lemma struct_stkframe_layout:
  "offsets (struct_stkframe lp64) = [
      (''fn'', 0), (''pc'', 0), (''continpc'', 8), (''lr'', 16), (''sp'', 24), (''fp'', 32),
      (''varp'', 40), (''argp'', 48), (''arglen'', 56), (''argmap'', 64)]"
  "struct_shape (struct_stkframe lp64) = (72, 8)"
  "struct_shape (struct_stkframe ilp32) = (36, 4)"
  by (unfold offsets_def layout lp64_def ilp32_def) (simp_all add: place_eval round_up_Suc)

lemma struct_funcinl_layout:
  "offsets (struct_funcinl lp64) = [
      (''ones'', 0), (''entry'', 8), (''name'', 16), (''file'', 24), (''line'', 32)]"
  "struct_shape (struct_funcinl lp64) = (40, 8)"
  "struct_shape (struct_funcinl ilp32) = (20, 4)"
  by (unfold offsets_def layout lp64_def ilp32_def) (simp_all add: place_eval round_up_Suc)

lemma struct_ancestor_info_layout:
  "offsets (struct_ancestor_info lp64) = [
      (''pcs'', 0), (''goid'', 8), (''gopc'', 16)]"
  "struct_shape (struct_ancestor_info lp64) = (24, 8)"
  "struct_shape (struct_ancestor_info ilp32) = (16, 4)"
  by (unfold offsets_def layout lp64_def ilp32_def) (simp_all add: place_eval round_up_Suc)

lemma struct_g_layout:
  "offsets (struct_g lp64) = [
      (''stack'', 0), (''stackguard0'', 0), (''stackguard1'', 8), (''_panic'', 16),
      (''_defer'', 24), (''m'', 32), (''sched'', 40), (''syscallsp'', 40), (''syscallpc'', 48),
      (''stktopsp'', 56), (''param'', 64), (''atomicstatus'', 72), (''stack_lock'', 76),
      (''goid'', 80), (''schedlink'', 88), (''waitsince'', 96), (''waitreason'', 104),
      (''preempt'', 105), (''preempt_stop'', 106), (''preempt_shrink'', 107),
      (''async_safe_point'', 108), (''paniconfault'', 109), (''gcscandone'', 110),
      (''throwsplit'', 111), (''active_stack_chans'', 112), (''parking_on_chan'', 113),
      (''raceignore'', 114), (''sysblocktraced'', 115), (''tracking'', 116),
      (''trackingSeq'', 117), (''runnableStamp'', 120), (''runnableTime'', 128),
      (''sysexitticks'', 136), (''traceseq'', 144), (''tracelastp'', 152), (''lockedm'', 160),
      (''sig'', 168), (''writebuf'', 176), (''sigcode0'', 184), (''sigcode1'', 192),
      (''sigpc'', 200), (''gopc'', 208), (''ancestors'', 216), (''startpc'', 224),
      (''racectx'', 232), (''waiting'', 240), (''cgo_ctxt'', 248), (''labels'', 256),
      (''timer'', 264), (''select_done'', 272), (''gc_assist_bytes'', 280)]"
  "struct_shape (struct_g lp64) = (288, 8)"
  "struct_shape (struct_g ilp32) = (184, 4)"
  by (unfold offsets_def layout lp64_def ilp32_def) (simp_all add: place_eval round_up_Suc)

lemma struct_m_layout:
  "offsets (struct_m lp64) = [
      (''g0'', 0), (''morebuf'', 8), (''divmod'', 8), (''procid'', 16), (''gsignal'', 24),
      (''gosigstack'', 32), (''sigmask'', 32), (''tls'', 32), (''mstartfn'', 80), (''curg'', 88),
      (''caughtsig'', 96), (''p'', 104), (''nextp'', 112), (''oldp'', 120), (''id'', 128),
      (''mallocing'', 136), (''throwing'', 140), (''preemptoff'', 144), (''locks'', 152),
      (''dying'', 156), (''profilehz'', 160), (''spinning'', 164), (''blocked'', 165),
      (''new_sigstack'', 166), (''printlock'', 167), (''incgo'', 168), (''free_wait'', 172),
      (''fastrand'', 176), (''needextram'', 184), (''traceback'', 185), (''ncgocall'', 192),
      (''ncgo'', 200), (''cgo_callers_use'', 204), (''cgo_callers'', 208), (''park'', 216),
      (''alllink'', 216), (''schedlink'', 224), (''lockedg'', 232), (''createstack'', 240),
      (''locked_ext'', 496), (''locked_int'', 500), (''nextwaitm'', 504), (''waitunlockf'', 512),
      (''waitlock'', 520), (''waittraceev'', 528), (''waittraceskip'', 532),
      (''startingtrace'', 536), (''syscalltick'', 540), (''freelink'', 544), (''libcall'', 552),
      (''libcallpc'', 552), (''libcallsp'', 560), (''libcallg'', 568), (''syscall'', 576),
      (''vdso_sp'', 576), (''vdso_pc'', 584), (''preempt_gen'', 592), (''signal_pending'', 596),
      (''_'', 600), (''os'', 600), (''locks_held_len'', 600), (''locks_held'', 604)]"
  "struct_shape (struct_m lp64) = (608, 8)"
  "struct_shape (struct_m ilp32) = (356, 4)"
  by (unfold offsets_def layout lp64_def ilp32_def) (simp_all add: place_eval round_up_Suc)

lemma struct_p_layout:
  "offsets (struct_p lp64) = [
      (''id'', 0), (''status'', 4), (''link'', 8), (''schedtick'', 16), (''syscalltick'', 20),
      (''sysmontick'', 24), (''m'', 24), (''mcache'', 32), (''pcache'', 40),
      (''raceprocctx'', 40), (''deferpool'', 48), (''deferpoolbuf'', 56), (''goidcache'', 312),
      (''goidcacheend'', 320), (''runqhead'', 328), (''runqtail'', 332), (''runq'', 336),
      (''runnext'', 2384), (''gfree'', 2392), (''sudogcache'', 2400), (''sudogbuf'', 2408),
      (''mspancache'', 3432), (''tracebuf'', 4464), (''trace_sweep'', 4472),
      (''trace_swept'', 4480), (''trace_reclaimed'', 4488), (''palloc'', 4496), (''_'', 4496),
      (''timer0_when'', 4504), (''timer_modified_earliest'', 4512), (''gcAssistTime'', 4520),
      (''gcFractionalMarkTime'', 4528), (''gc_mark_worker_mode'', 4536),
      (''gc_mark_worker_start_time'', 4544), (''gcw'', 4552), (''wbbuf'', 4552),
      (''run_safe_point_fn'', 4552), (''stats_seq'', 4556), (''timersLock'', 4560),
      (''timers'', 4568), (''num_timers'', 4576), (''deleted_timers'', 4580),
      (''timer_race_ctx'', 4584), (''scannable_stack_size_delta'', 4592), (''preempt'', 4600)]"
  "struct_shape (struct_p lp64) = (4608, 8)"
  "struct_shape (struct_p ilp32) = (2356, 4)"
  by (unfold offsets_def layout lp64_def ilp32_def) (simp_all add: place_eval round_up_Suc)

lemma struct_schedt_layout:
  "offsets (struct_schedt lp64) = [
      (''goid_gen'', 0), (''last_poll'', 8), (''poll_until'', 16), (''lock'', 24),
      (''midle'', 32), (''nmidle'', 40), (''nmidlelocked'', 44), (''mnext'', 48),
      (''maxmcount'', 56), (''nmsys'', 60), (''nmfreed'', 64), (''ngsys'', 72), (''pidle'', 80),
      (''npidle'', 88), (''nmspinning'', 92), (''runq'', 96), (''runqsize'', 96),
      (''disable'', 100), (''gFree'', 112), (''sudoglock'', 128), (''sudogcache'', 136),
      (''deferlock'', 144), (''deferpool'', 152), (''freem'', 160), (''gcwaiting'', 168),
      (''stopwait'', 172), (''stopnote'', 176), (''sysmonwait'', 176), (''sysmonnote'', 180),
      (''safe_point_fn'', 184), (''safe_point_wait'', 192), (''safe_point_note'', 196),
      (''profilehz'', 196), (''procresizetime'', 200), (''totaltime'', 208),
      (''sysmonlock'', 216), (''timeToRun'', 224)]"
  "struct_shape (struct_schedt lp64) = (224, 8)"
  "struct_shape (struct_schedt ilp32) = (164, 4)"
  by (unfold offsets_def layout lp64_def ilp32_def) (simp_all add: place_eval round_up_Suc)

lemma struct_mlink_layout:
  "offsets (struct_mlink lp64) = [
      (''next'', 0)]"
  "struct_shape (struct_mlink lp64) = (8, 8)"
  "struct_shape (struct_mlink ilp32) = (4, 4)"
  by (unfold offsets_def layout lp64_def ilp32_def) (simp_all add: place_eval round_up_Suc)

lemma struct_fixalloc_layout:
  "offsets (struct_fixalloc lp64) = [
      (''size'', 0), (''list'', 8), (''chunk'', 16), (''nchunk'', 24), (''nalloc'', 28),
      (''inuse'', 32), (''zero'', 40)]"
  "struct_shape (struct_fixalloc lp64) = (48, 8)"
  "struct_shape (struct_fixalloc ilp32) = (28, 4)"
  by (unfold offsets_def layout lp64_def ilp32_def) (simp_all add: place_eval round_up_Suc)

lemma struct_node_layout:
  "offsets (struct_node lp64) = [
      (''data'', 0), (''next'', 8)]"
  "struct_shape (struct_node lp64) = (16, 8)"
  "struct_shape (struct_node ilp32) = (12, 4)"
  by (unfold offsets_def layout lp64_def ilp32_def) (simp_all add: place_eval round_up_Suc)

lemma struct_name_layout:
  "offsets (struct_name lp64) = [
      (''bytes'', 0)]"
  "struct_shape (struct_name lp64) = (8, 8)"
  "struct_shape (struct_name ilp32) = (4, 4)"
  by (unfold offsets_def layout lp64_def ilp32_def) (simp_all add: place_eval round_up_Suc)

lemma struct_string_layout:
  "offsets (struct_string lp64) = [
      (''str'', 0), (''len'', 8)]"
  "struct_shape (struct_string lp64) = (16, 8)"
  "struct_shape (struct_string ilp32) = (8, 4)"
  by (unfold offsets_def layout lp64_def ilp32_def) (simp_all add: place_eval round_up_Suc)

lemma struct_string_list_layout:
  "offsets (struct_string_list lp64) = [
      (''s'', 0), (''tail'', 8)]"
  "struct_shape (struct_string_list lp64) = (16, 8)"
  "struct_shape (struct_string_list ilp32) = (8, 4)"
  by (unfold offsets_def layout lp64_def ilp32_def) (simp_all add: place_eval round_up_Suc)

section \<open>All structs\<close>

text \<open>C27: The structs of the runtime, as \<open>type.h\<close>, \<open>runtime2.h\<close>, \<open>string.h\<close> and \<open>fixalloc.h\<close> declare
  them, have the layout of the table: each field of each struct has that name and that offset in a
  64-bit build, and each struct that size and alignment in a 64-bit and in a 32-bit x86 build. A
  field that is dropped, added, moved or given another type changes the table.\<close>

theorem struct_layouts:
  "map (\<lambda>(_, shape, _, offs). (shape, offs)) layout_table =
     map (\<lambda>fs. (struct_shape fs, offsets fs)) (runtime_structs lp64) \<and>
   map (\<lambda>(_, _, shape, _). shape) layout_table = map struct_shape (runtime_structs ilp32)"
  unfolding runtime_structs_def layout_table_def
  by (simp only: struct_type_layout struct_imethod_layout struct_interface_type_layout struct_itab_layout
      struct_mutex_layout struct_lfnode_layout struct_forcegcstate_layout struct_defer_layout
      struct_panic_layout struct_stkframe_layout struct_funcinl_layout
      struct_ancestor_info_layout struct_g_layout struct_m_layout struct_p_layout
      struct_schedt_layout struct_mlink_layout struct_fixalloc_layout struct_node_layout
      struct_name_layout struct_string_layout struct_string_list_layout
      list.map prod.case)

end
