(* ===== verification/Go_Layout.thy ===== *)
theory Go_Layout
  imports Layout_Theorems
begin

text \<open>
  The border between Go and C: the types of the headers that cgo generates
  (\<open>rgoffi/go/libpreload.h\<close>, \<open>rgoffi/libs/libpreload.h\<close>), the structs that Go and C both declare
  (\<open>fixalloc.go\<close>, \<open>main.go\<close>, \<open>stubs.go\<close> against \<open>fixalloc.h\<close>, \<open>fixalloc.c\<close>, \<open>type.h\<close>), and the
  functions that cross it. Go places the fields of a struct by the rules of C; its \<open>int\<close> and
  \<open>uintptr\<close> are machine words, its \<open>bool\<close> is a byte, and its \<open>int64\<close> has an alignment of its own,
  which on 32-bit ARM is not that of C. The types of the generated headers are C types.
\<close>

section \<open>The generated headers\<close>

definition GoInt8 :: shape where "GoInt8 = c_int8"
definition GoUint8 :: shape where "GoUint8 = c_int8"
definition GoInt16 :: shape where "GoInt16 = (2, 2)"
definition GoUint16 :: shape where "GoUint16 = (2, 2)"
definition GoInt32 :: shape where "GoInt32 = c_int32"
definition GoUint32 :: shape where "GoUint32 = c_int32"
definition GoInt64 :: "abi \<Rightarrow> shape" where "GoInt64 a = c_int64 a"
definition GoUint64 :: "abi \<Rightarrow> shape" where "GoUint64 a = c_int64 a"
definition GoInt :: "abi \<Rightarrow> shape" where "GoInt a = GoInt64 a"
definition GoUint :: "abi \<Rightarrow> shape" where "GoUint a = GoUint64 a"
definition GoUintptr :: "abi \<Rightarrow> shape" where "GoUintptr a = c_word a"
definition GoFloat32 :: shape where "GoFloat32 = (4, 4)"
definition GoFloat64 :: "abi \<Rightarrow> shape" where "GoFloat64 a = (8, int64_align a)"
definition GoComplex64 :: shape where "GoComplex64 = c_array 2 GoFloat32"
definition GoComplex128 :: "abi \<Rightarrow> shape" where "GoComplex128 a = c_array 2 (GoFloat64 a)"
definition GoMap :: "abi \<Rightarrow> shape" where "GoMap a = c_ptr a"
definition GoChan :: "abi \<Rightarrow> shape" where "GoChan a = c_ptr a"

definition GoString_fields :: "abi \<Rightarrow> fields" where
  "GoString_fields a = [(''p'', c_ptr a), (''n'', c_word a)]"

definition GoInterface :: "abi \<Rightarrow> fields" where
  "GoInterface a = [(''t'', c_ptr a), (''v'', c_ptr a)]"

definition GoSlice :: "abi \<Rightarrow> fields" where
  "GoSlice a = [(''data'', c_ptr a), (''len'', GoInt a), (''cap'', GoInt a)]"

text \<open>The static assertion: the length of an array type, which must not be negative.\<close>

definition check_for_64_bit :: "abi \<Rightarrow> int" where
  "check_for_64_bit a = (if word_bytes a = 64 div 8 then 1 else - 1)"

text \<open>The functions the two checked-in headers declare.\<close>

definition header_functions :: "string list" where
  "header_functions = [''get_new_map'', ''c_malloc'']"

definition libs_header_functions :: "string list" where
  "libs_header_functions = [''add'']"

text \<open>The types of the second copy of the header, and those of the first in the same order.\<close>

definition libs_header_types :: "abi \<Rightarrow> (string \<times> shape) list" where
  "libs_header_types a = [
     (''GoInt8'', c_int8), (''GoUint8'', c_int8), (''GoInt16'', (2, 2)), (''GoUint16'', (2, 2)),
     (''GoInt32'', c_int32), (''GoUint32'', c_int32), (''GoInt64'', c_int64 a),
     (''GoUint64'', c_int64 a), (''GoInt'', c_int64 a), (''GoUint'', c_int64 a),
     (''GoUintptr'', c_word a), (''GoFloat32'', (4, 4)), (''GoFloat64'', (8, int64_align a)),
     (''GoComplex64'', (8, 4)), (''GoComplex128'', (16, int64_align a)),
     (''GoString'', struct_shape [(''p'', c_ptr a), (''n'', c_word a)]), (''GoMap'', c_ptr a),
     (''GoChan'', c_ptr a), (''GoInterface'', struct_shape [(''t'', c_ptr a), (''v'', c_ptr a)]),
     (''GoSlice'', struct_shape [(''data'', c_ptr a), (''len'', c_int64 a), (''cap'', c_int64 a)])]"

definition header_types :: "abi \<Rightarrow> (string \<times> shape) list" where
  "header_types a = [
     (''GoInt8'', GoInt8), (''GoUint8'', GoUint8), (''GoInt16'', GoInt16), (''GoUint16'', GoUint16),
     (''GoInt32'', GoInt32), (''GoUint32'', GoUint32), (''GoInt64'', GoInt64 a),
     (''GoUint64'', GoUint64 a), (''GoInt'', GoInt a), (''GoUint'', GoUint a),
     (''GoUintptr'', GoUintptr a), (''GoFloat32'', GoFloat32), (''GoFloat64'', GoFloat64 a),
     (''GoComplex64'', GoComplex64), (''GoComplex128'', GoComplex128 a),
     (''GoString'', struct_shape (GoString_fields a)), (''GoMap'', GoMap a), (''GoChan'', GoChan a),
     (''GoInterface'', struct_shape (GoInterface a)), (''GoSlice'', struct_shape (GoSlice a))]"

section \<open>Structs declared twice\<close>

text \<open>Go has its own alignment for integers of eight bytes.\<close>

definition go_int64 :: "abi \<Rightarrow> shape" where "go_int64 a = (8, go_int64_align a)"
definition go_int :: "abi \<Rightarrow> shape" where "go_int a = c_word a"
definition go_uintptr :: "abi \<Rightarrow> shape" where "go_uintptr a = c_word a"
definition go_pointer :: "abi \<Rightarrow> shape" where "go_pointer a = c_ptr a"

definition go_slice :: "abi \<Rightarrow> fields" where
  "go_slice a = [(''array'', go_pointer a), (''len'', go_int a), (''cap'', go_int a)]"

definition go_fixalloc :: "abi \<Rightarrow> fields" where
  "go_fixalloc a = [
     (''size'', go_uintptr a), (''list'', go_pointer a), (''chunk'', go_uintptr a),
     (''nchunk'', c_int32), (''nalloc'', c_int32), (''inuse'', go_uintptr a), (''zero'', c_int8)]"

definition go_mlink :: "abi \<Rightarrow> fields" where
  "go_mlink a = [(''next'', go_pointer a)]"

definition go_node :: "abi \<Rightarrow> fields" where
  "go_node a = [(''data'', go_int64 a), (''next'', go_pointer a)]"

definition go_type :: "abi \<Rightarrow> fields" where
  "go_type a = [
     (''size'', go_uintptr a), (''ptrdata'', go_uintptr a), (''hash'', c_int32), (''tflag'', c_int32),
     (''align'', c_int8), (''fieldAlign'', c_int8), (''kind'', c_int8), (''equal'', go_pointer a),
     (''gcdata'', go_pointer a), (''str'', c_int32), (''ptrToThis'', c_int32)]"

section \<open>Functions across the border\<close>

type_synonym signature = "string \<times> shape list \<times> shape option"

text \<open>What \<open>main.go\<close> exports.\<close>

definition go_exports :: "abi \<Rightarrow> signature list" where
  "go_exports a = [
     (''allocate_go_memory'', [go_uintptr a], Some (go_pointer a)),
     (''deallocate_go_memory'', [go_pointer a, go_uintptr a], None),
     (''persistent_alloc'', [go_uintptr a, go_uintptr a, go_pointer a], Some (go_pointer a)),
     (''memclr_noheap_pointers'', [go_pointer a, go_uintptr a], None),
     (''runtime_lock2'', [go_pointer a], None),
     (''runtime_unlock2'', [go_pointer a], None),
     (''runtime_extend_random'', [struct_shape (go_slice a), go_int a], None)]"

text \<open>What \<open>lib.rs\<close> declares; \<open>uintptr_t\<close> is a machine word.\<close>

definition rust_imports :: "abi \<Rightarrow> signature list" where
  "rust_imports a = [
     (''allocate_go_memory'', [c_word a], Some (c_ptr a)),
     (''deallocate_go_memory'', [c_ptr a, c_word a], None)]"

text \<open>The calls in the C files, with the number of arguments each passes.\<close>

definition fixalloc_calls :: "(string \<times> nat) list" where
  "fixalloc_calls = [(''memclr_noheap_pointers'', 2), (''persistent_alloc'', 3)]"

definition goruntime_calls :: "(string \<times> nat) list" where
  "goruntime_calls =
     [(''allocate_go_memory'', 1), (''deallocate_go_memory'', 2), (''allocate_go_memory'', 1)]"

definition lockrank_calls :: "(string \<times> nat) list" where
  "lockrank_calls = [(''runtime_lock2'', 1), (''runtime_unlock2'', 1)]"

definition c_calls :: "(string \<times> nat) list" where
  "c_calls = fixalloc_calls @ goruntime_calls @ lockrank_calls"

lemmas go_layouts [layout] =
  GoInt8_def GoUint8_def GoInt16_def GoUint16_def GoInt32_def GoUint32_def GoInt64_def
  GoUint64_def GoInt_def GoUint_def GoUintptr_def GoFloat32_def GoFloat64_def GoComplex64_def
  GoComplex128_def GoMap_def GoChan_def GoString_fields_def GoInterface_def GoSlice_def
  go_int_def go_int64_def go_uintptr_def go_pointer_def
  go_slice_def go_fixalloc_def go_mlink_def go_node_def go_type_def

section \<open>One layout\<close>

text \<open>Two declarations are laid out alike when their fields, in order, have the same offsets and
  sizes, and the structs the same size and alignment.\<close>

definition same_layout :: "fields \<Rightarrow> fields \<Rightarrow> bool" where
  "same_layout fs gs \<longleftrightarrow>
     map (\<lambda>(_, off, s). (off, fst s)) (place 0 fs) = map (\<lambda>(_, off, s). (off, fst s)) (place 0 gs) \<and>
     struct_shape fs = struct_shape gs"

lemma place_shapes:
  "map snd fs = map snd gs \<Longrightarrow>
     map (\<lambda>(_, off, s). (off, fst s)) (place off fs) = map (\<lambda>(_, off, s). (off, fst s)) (place off gs)"
proof (induction off fs arbitrary: gs rule: place.induct)
  case (2 off f s fs)
  then obtain g gs' where "gs = (g, s) # gs'" "map snd fs = map snd gs'" by auto
  then show ?case using "2.IH" by simp
qed simp

lemma end_of_shapes: "map snd fs = map snd gs \<Longrightarrow> end_of off fs = end_of off gs"
proof (induction off fs arbitrary: gs rule: end_of.induct)
  case (2 off f s fs)
  then obtain g gs' where "gs = (g, s) # gs'" "map snd fs = map snd gs'" by auto
  then show ?case using "2.IH" by simp
qed simp

lemma struct_align_shapes: "map snd fs = map snd gs \<Longrightarrow> struct_align fs = struct_align gs"
proof (induction fs arbitrary: gs)
  case (Cons f fs)
  then obtain g gs' where "gs = g # gs'" "snd f = snd g" "map snd fs = map snd gs'" by auto
  then show ?case using Cons.IH by (simp add: struct_align_def)
qed simp

lemma same_layoutI:
  assumes "map snd fs = map snd gs"
  shows "same_layout fs gs"
  using place_shapes [OF assms] end_of_shapes [OF assms] struct_align_shapes [OF assms]
  by (simp only: same_layout_def struct_shape_def)

lemma dvd_8_cases: "n dvd 8 \<Longrightarrow> n = 1 \<or> n = 2 \<or> n = 4 \<or> n = (8 :: nat)"
proof -
  assume d: "n dvd 8"
  then have "n \<le> 8" by (rule dvd_imp_le) simp
  then have "n \<in> {0, 1, 2, 3, 4, 5, 6, 7, 8}" by auto
  then show ?thesis using d by auto
qed

text \<open>The node holds an integer of eight bytes and a pointer; its size and alignment depend on how
  the integer is aligned.\<close>

lemma go_node_same:
  assumes "abi_ok a" and "word_bytes a = 4 \<or> word_bytes a = 8"
  shows "same_layout (go_node a) (struct_node a) \<longleftrightarrow>
    max (go_int64_align a) (word_bytes a) = max (int64_align a) (word_bytes a)"
proof -
  have "go_int64_align a dvd 8" "int64_align a dvd 8" using assms(1) by (simp_all add: abi_ok_def)
  then show ?thesis
    using assms(2) unfolding same_layout_def layout
    by (elim disjE dvd_8_cases [THEN disjE]) (simp_all add: place_eval)
qed

lemma go_type_differs:
  assumes "word_bytes a = 4 \<or> word_bytes a = 8"
  shows "\<not> same_layout (go_type a) (struct_type a)"
  using assms unfolding same_layout_def layout by (elim disjE) (simp_all add: place_eval)

text \<open>C11: The structs that Go and C both declare. On a target with words of 4 or 8 bytes the
  fixed-size allocator and its links have the same fields at the same places, and so have the
  strings of \<open>string.h\<close> and those of the generated header. The node of the samples agrees exactly
  when Go's alignment of \<open>int64\<close> makes no difference to C's beside a pointer: it does on 64-bit and on
  32-bit x86 targets, but on 32-bit ARM the node has 12 bytes in Go and 16 in C. The type descriptor
  never agrees: \<open>stubs.go\<close> gives \<open>tflag\<close> four bytes where \<open>type.h\<close> gives it one.\<close>

theorem go_c_layouts:
  assumes "abi_ok a" and "word_bytes a = 4 \<or> word_bytes a = 8"
  shows "same_layout (go_fixalloc a) (struct_fixalloc a) \<and>
    map fst (go_fixalloc a) = map fst (struct_fixalloc a) \<and>
    same_layout (go_mlink a) (struct_mlink a) \<and> map fst (go_mlink a) = map fst (struct_mlink a) \<and>
    same_layout (GoString_fields a) (struct_string a) \<and>
    (same_layout (go_node a) (struct_node a) \<longleftrightarrow>
       max (go_int64_align a) (word_bytes a) = max (int64_align a) (word_bytes a)) \<and>
    \<not> same_layout (go_type a) (struct_type a)"
proof (intro conjI)
  show "same_layout (go_fixalloc a) (struct_fixalloc a)" "same_layout (go_mlink a) (struct_mlink a)"
    "same_layout (GoString_fields a) (struct_string a)"
    by (rule same_layoutI, simp add: layout)+
  show "map fst (go_fixalloc a) = map fst (struct_fixalloc a)" "map fst (go_mlink a) = map fst (struct_mlink a)"
    by (simp_all add: layout)
  show "same_layout (go_node a) (struct_node a) \<longleftrightarrow>
      max (go_int64_align a) (word_bytes a) = max (int64_align a) (word_bytes a)"
    using assms by (rule go_node_same)
  show "\<not> same_layout (go_type a) (struct_type a)" using assms(2) by (rule go_type_differs)
qed

lemma node_shapes:
  "struct_shape (go_node arm32) = (12, 4)" "struct_shape (struct_node arm32) = (16, 8)"
  unfolding layout arm32_def by (simp_all add: place_eval)

lemma go_c_layouts_witness:
  "same_layout (go_node lp64) (struct_node lp64) \<and> same_layout (go_node ilp32) (struct_node ilp32) \<and>
   \<not> same_layout (go_node arm32) (struct_node arm32) \<and> \<not> same_layout (go_type lp64) (struct_type lp64) \<and>
   struct_shape (go_node arm32) = (12, 4) \<and> struct_shape (struct_node arm32) = (16, 8)"
  using go_c_layouts [OF abi_ok_lp64] go_c_layouts [OF abi_ok_ilp32] go_c_layouts [OF abi_ok_arm32]
    node_shapes by (simp add: lp64_def ilp32_def arm32_def)

text \<open>The two generated headers give the types of Go the same shapes.\<close>

lemma headers_agree: "header_types a = libs_header_types a"
  by (simp add: header_types_def libs_header_types_def layout)

section \<open>The type descriptor\<close>

lemma type_offsets_lp64:
  "map (\<lambda>f. offset_of f (struct_type lp64)) [''tflag'', ''align'', ''kind'', ''equal'', ''ptr_to_this''] =
     [Some 20, Some 21, Some 23, Some 24, Some 44]"
  "map (\<lambda>f. offset_of f (go_type lp64)) [''tflag'', ''align'', ''kind'', ''equal'', ''ptrToThis''] =
     [Some 20, Some 24, Some 26, Some 32, Some 52]"
  unfolding offset_of_from layout lp64_def by (simp_all add: place_eval)

lemma type_shapes_lp64:
  "struct_shape (struct_type lp64) = (48, 8)" "struct_shape (go_type lp64) = (56, 8)"
  unfolding layout lp64_def by (simp_all add: place_eval)

text \<open>The type descriptor is not one of them: \<open>stubs.go\<close> gives \<open>tflag\<close> four bytes where \<open>type.h\<close>
  gives it one, so that every field behind it is displaced and the sizes differ.\<close>

theorem go_type_displaced:
  "\<not> same_layout (go_type lp64) (struct_type lp64) \<and>
   struct_shape (struct_type lp64) = (48, 8) \<and> struct_shape (go_type lp64) = (56, 8) \<and>
   map (\<lambda>f. offset_of f (struct_type lp64)) [''align'', ''kind'', ''equal'', ''ptr_to_this''] =
     [Some 21, Some 23, Some 24, Some 44] \<and>
   map (\<lambda>f. offset_of f (go_type lp64)) [''align'', ''kind'', ''equal'', ''ptrToThis''] =
     [Some 24, Some 26, Some 32, Some 52]"
  using type_offsets_lp64 type_shapes_lp64 by (simp add: same_layout_def)

section \<open>Linking\<close>

lemma slice_shapes:
  "struct_shape (GoSlice lp64) = (24, 8)" "struct_shape (GoSlice ilp32) = (20, 4)"
  "struct_shape (go_slice lp64) = (24, 8)" "struct_shape (go_slice ilp32) = (12, 4)"
  unfolding layout lp64_def ilp32_def by (simp_all add: place_eval)

text \<open>The static assertion of the generated header holds exactly on the target where its slices
  are those of Go.\<close>

theorem header_assertion:
  "list_all (\<lambda>a. 0 \<le> check_for_64_bit a \<longleftrightarrow> same_layout (GoSlice a) (go_slice a)) [lp64, ilp32]"
proof -
  have "same_layout (GoSlice lp64) (go_slice lp64)"
    by (rule same_layoutI) (simp add: layout lp64_def)
  then show ?thesis
    using slice_shapes by (simp add: same_layout_def check_for_64_bit_def lp64_def ilp32_def)
qed

text \<open>Every function of the Go runtime that the C files and the Rust program call is exported by
  \<open>main.go\<close>, with the number of arguments C passes and the signature Rust declares; but the
  checked-in headers declare none of them, only functions that are not exported.\<close>

theorem go_linkage:
  "list_all (\<lambda>s. s \<in> set (go_exports a)) (rust_imports a) \<and>
   list_all (\<lambda>(f, n). map_option (length \<circ> fst) (map_of (go_exports a) f) = Some n \<and>
      f \<notin> set header_functions) c_calls \<and>
   list_all (\<lambda>f. map_of (go_exports a) f = None) (header_functions @ libs_header_functions)"
  by (simp add: go_exports_def rust_imports_def c_calls_def fixalloc_calls_def goruntime_calls_def
      lockrank_calls_def header_functions_def libs_header_functions_def go_uintptr_def go_pointer_def)

end
