(* ===== verification/Go_Programs.thy ===== *)
theory Go_Programs
  imports Fixalloc_Theorems Goruntime_Theorems Go_Layout
begin

text \<open>
  The Go side of \<open>rgoffi\<close>: what \<open>main.go\<close> exports, the helpers of \<open>supply.go\<close>, the two sample
  programs, \<open>main\<close>, and the Rust program \<open>rgoffi/src/lib.rs\<close> that calls the exports. The system
  allocator of the Go runtime is a parameter: \<open>sys n m\<close> is the address it returns, 0 when there is
  no memory, and the memory with the new range present.
\<close>

section \<open>main.go and stubs.go\<close>

type_synonym sys_alloc = "u64 \<Rightarrow> ram \<Rightarrow> u64 \<times> ram"
type_synonym sys_free = "u64 \<Rightarrow> u64 \<Rightarrow> ram \<Rightarrow> ram"

definition allocate_go_memory :: "sys_alloc \<Rightarrow> u64 \<Rightarrow> ram \<Rightarrow> u64 \<times> ram" where
  "allocate_go_memory sys n m = sys n m"

definition deallocate_go_memory :: "sys_free \<Rightarrow> u64 \<Rightarrow> u64 \<Rightarrow> ram \<Rightarrow> ram" where
  "deallocate_go_memory free v n m = free v n m"

text \<open>\<open>mallocgc\<close> is a stub.\<close>

definition go_mallocgc :: "u64 \<Rightarrow> u64 \<Rightarrow> u64" where
  "go_mallocgc sz typ = 0"

text \<open>\<open>main\<close> prints the pointer, not what it points to.\<close>

definition go_main :: "u64 \<Rightarrow> ram \<Rightarrow> u64 option" where
  "go_main n m = (if has m W64 n then do { let m = set64 m n 32; Some n } else None)"

section \<open>supply.go\<close>

text \<open>
  \<open>rnd i\<close> is the value of the \<open>i\<close>-th call of \<open>rand.Int\<close>, of which one byte is kept. The loops
  count in \<open>uintptr\<close>.
\<close>

fun write_contents_loop :: "(nat \<Rightarrow> u64) \<Rightarrow> u64 \<Rightarrow> nat \<Rightarrow> nat \<Rightarrow> ram \<Rightarrow> ram option" where
  "write_contents_loop rnd p i 0 m = Some m"
| "write_contents_loop rnd p i (Suc k) m =
     (if has m W8 (p + of_nat i)
      then write_contents_loop rnd p (Suc i) k (wrw m W8 (p + of_nat i) (ucast (ucast (rnd i) :: u8)))
      else None)"

definition write_contents :: "(nat \<Rightarrow> u64) \<Rightarrow> u64 \<Rightarrow> u64 \<Rightarrow> ram \<Rightarrow> ram option" where
  "write_contents rnd p sz m = write_contents_loop rnd p 0 (unat sz) m"

fun print_contents_loop :: "u64 \<Rightarrow> nat \<Rightarrow> nat \<Rightarrow> ram \<Rightarrow> u8 list option" where
  "print_contents_loop p i 0 m = Some []"
| "print_contents_loop p i (Suc k) m =
     (if has m W8 (p + of_nat i) then do {
        bs \<leftarrow> print_contents_loop p (Suc i) k m;
        Some (ucast (rdw m W8 (p + of_nat i)) # bs) }
      else None)"

definition print_contents :: "u64 \<Rightarrow> u64 \<Rightarrow> ram \<Rightarrow> u8 list option" where
  "print_contents p sz m = print_contents_loop p 0 (unat sz) m"

section \<open>The samples\<close>

text \<open>The address and the bytes that are printed, and the memory at the end.\<close>

definition system_alloc_sample ::
    "sys_alloc \<Rightarrow> sys_free \<Rightarrow> (nat \<Rightarrow> u64) \<Rightarrow> ram \<Rightarrow> (u64 \<times> u8 list \<times> ram) option" where
  "system_alloc_sample sys free rnd m =
     (let (ptr, m) = sys 256 m in do {
        m \<leftarrow> write_contents rnd ptr 16 m;
        bs \<leftarrow> print_contents ptr 16 m;
        Some (ptr, bs, free ptr 256 m) })"

text \<open>\<open>fixalloc.go\<close>: \<open>init\<close> and \<open>free\<close>; \<open>alloc\<close> is \<^term>\<open>go_alloc\<close>.\<close>

definition go_init :: "u64 \<Rightarrow> fault + fixalloc" where
  "go_init sz =
     (if sz > FixAllocChunk then Inl (Throw ''fixalloc: fixalloc size too large'')
      else
        let sz = (if sz < sizeof_mlink then sizeof_mlink else sz)
        in Inr \<lparr>f_size = sz, f_list = 0, f_chunk = 0, f_nchunk = 0,
             f_nalloc = ucast (FixAllocChunk div sz * sz), f_inuse = 0, f_zero = 1\<rparr>)"

definition go_free :: "u64 \<Rightarrow> fixalloc \<Rightarrow> arena \<Rightarrow> fault + (fixalloc \<times> arena)" where
  "go_free p f w =
     (let f = f\<lparr>f_inuse := f_inuse f - f_size f\<rparr> in
      and_then (set_mem_next p (f_list f) w) (\<lambda>w. Inr (f\<lparr>f_list := p\<rparr>, w)))"

text \<open>The four words printed: \<open>data\<close> and \<open>next\<close>, before and after the release.\<close>

definition fixalloc_sample :: "(nat \<Rightarrow> u64 \<Rightarrow> u64 option) \<Rightarrow> arena \<Rightarrow> fault + u64 list" where
  "fixalloc_sample pa w =
     and_then (go_init 16) (\<lambda>f.
     and_then (go_alloc pa f w) (\<lambda>(n, f, w).
     and_then (set_mem_next n 0xcafebabe w) (\<lambda>w.
     and_then (set_mem_next (n + 8) 0 w) (\<lambda>w.
     and_then (mem_next w n) (\<lambda>d1.
     and_then (mem_next w (n + 8)) (\<lambda>n1.
     and_then (go_free n f w) (\<lambda>(f, w).
     and_then (mem_next w n) (\<lambda>d2.
     and_then (mem_next w (n + 8)) (\<lambda>n2.
     Inr [d1, n1, d2, n2])))))))))"

text \<open>The size and the offsets that the sample uses are those of the Go struct.\<close>

lemma go_node_layout:
  "struct_shape (go_node lp64) = (16, 8)"
  "offset_of ''data'' (go_node lp64) = Some 0" "offset_of ''next'' (go_node lp64) = Some 8"
  "offset_of ''next'' (go_mlink lp64) = Some 0"
  unfolding offset_of_from layout lp64_def by (simp_all add: place_eval)

section \<open>lib.rs\<close>

text \<open>The address and the byte that are printed.\<close>

definition lib_main :: "sys_alloc \<Rightarrow> sys_free \<Rightarrow> ram \<Rightarrow> (u64 \<times> u8 \<times> ram) option" where
  "lib_main sys free m =
     (let (ptr, m) = allocate_go_memory sys 32 m in
      if has m W8 ptr then do {
        let m = wrw m W8 ptr 0xca;
        let b = ucast (rdw m W8 ptr);
        Some (ptr, b, deallocate_go_memory free ptr 32 m)
      } else None)"

section \<open>Go and C\<close>

lemma write_contents_store:
  "write_contents_loop rnd p i k m = store_loop rnd p i k m"
proof (induction rnd p i k m rule: write_contents_loop.induct)
  case (2 rnd p i k m)
  have "wrw m W8 a (ucast (ucast v :: u8)) = wrw m W8 a v" for a and v :: u64
  proof -
    have "(ucast (ucast v :: u8) :: u64) = low W8 v"
      by (rule bit_word_eqI) (auto simp: low_def bit_take_bit_iff bit_ucast_iff dest: bit_imp_le_length)
    then show ?thesis by (simp add: wrw_low)
  qed
  then show ?case using 2 by simp
qed simp

lemma print_contents_read: "print_contents_loop p i k m = read_loop p i k m"
proof (induction p i k m rule: print_contents_loop.induct)
  case (2 p i k m)
  then show ?case by (cases "read_loop p (Suc i) k m") simp_all
qed simp

lemma nat_sint_unat: "0 \<le> sint (x :: u64) \<Longrightarrow> nat (sint x) = unat x"
proof -
  assume "0 \<le> sint x"
  then have "unat x < 2 ^ 63" using sint_neg64 [of x] by (cases "unat x < 2 ^ 63") auto
  then show ?thesis by (simp only: sint_small64 nat_int)
qed

text \<open>The helpers of \<open>supply.go\<close> do what those of \<open>goruntime.c\<close> do for sizes that C does not
  take for negative: they print the same bytes, and write the same memory when the random numbers
  are reduced as C reduces them.\<close>

theorem contents_match_memory:
  assumes "0 \<le> sint sz"
  shows "print_contents p sz m = read_memory p sz m \<and>
    write_contents (\<lambda>j. of_nat (rnd j mod 255)) p sz m = write_memory rnd p sz m"
  by (simp add: print_contents_def read_memory_def print_contents_read write_contents_def
      write_memory_def write_contents_store write_loop_store nat_sint_unat [OF assms])

lemma contents_match_memory_witness: "print_contents 0x1000 3 zero_ram = read_memory 0x1000 3 zero_ram"
  using contents_match_memory [of 3 "0x1000" zero_ram] by simp

text \<open>C13: When the system has memory, the sample prints its address and the low bytes of sixteen
  random numbers, which it reads back from there.\<close>

theorem system_alloc_sample_prints:
  assumes "sys 256 m = (p, m1)" and "\<And>j. j < 16 \<Longrightarrow> present m1 (p + of_nat j)"
  shows "\<exists>m2. system_alloc_sample sys free rnd m =
      Some (p, map (\<lambda>j. ucast (rnd j)) [0..<16], free p 256 m2) \<and>
    (\<forall>x. (\<forall>j<16. x \<noteq> p + of_nat j) \<longrightarrow> cells m2 x = cells m1 x)"
proof -
  obtain m2 where m2: "store_loop rnd p 0 16 m1 = Some m2" "present m2 = present m1"
      "\<forall>j < 16. cells m2 (p + of_nat j) =
         (if 0 \<le> j \<and> j < 0 + 16 then ucast (rnd j) else cells m1 (p + of_nat j))"
      "\<forall>x. (\<forall>j < 16. x \<noteq> p + of_nat j) \<longrightarrow> cells m2 x = cells m1 x"
    using store_loop_ok [where n = 16, OF assms(2), where i = 0 and k = 16 and g = rnd] by auto
  have "read_loop p 0 16 m2 = Some (map (\<lambda>j. cells m2 (p + of_nat j)) [0..<0 + 16])"
    using assms(2) m2(2) by (intro read_loop_ok) simp
  moreover have "map (\<lambda>j. cells m2 (p + of_nat j)) [0..<0 + 16] = map (\<lambda>j. ucast (rnd j)) [0..<16]"
    using m2(3) by (intro map_cong) simp_all
  ultimately have "print_contents p 16 m2 = Some (map (\<lambda>j. ucast (rnd j)) [0..<16])"
    by (simp only: print_contents_def print_contents_read) simp
  moreover have "write_contents rnd p 16 m1 = Some m2"
    using m2(1) by (simp add: write_contents_def write_contents_store)
  ultimately show ?thesis
    using assms(1) m2(4) by (intro exI [of _ m2]) (simp add: system_alloc_sample_def del: upt.simps)
qed

section \<open>The allocator sample\<close>

lemma go_same: "go_init = fix_init" "go_free = fix_dealloc"
  by (rule ext, simp add: go_init_def fix_init_def) (intro ext, simp add: go_free_def fix_dealloc_def)


text \<open>C12: Given a chunk, the Go sample and the C test print the same numbers, though their nodes are at
  different addresses: the data and a null link, and after the release, read through the dangling
  pointer, the null link of the free list in place of the data.\<close>

theorem fixalloc_sample_matches_c:
  assumes "pa 0 16384 = Some a" and "a \<noteq> 0" and "unat a + 16384 \<le> 2 ^ 47"
  shows "fixalloc_sample pa no_arena = Inr [0xcafebabe, 0, 0, 0] \<and>
    fix_test pa no_arena = Inr [a + 16, 0xcafebabe, 0, a + 16, 0, 0]"
proof
  obtain f w1 f2 w2 where al: "fix_init 16 = Inr f"
      "go_alloc pa f no_arena = Inr (a, f2, w2)" "f_list f2 = 0" "ranges w2 = [(a, of_nat 16384)]"
    using sample_alloc [of pa a, OF assms(1)] by metis
  have u: "unat (a + 8) = unat a + 8" using unat_offset [of a 8] assms(3) by simp
  have acc: "accessible w a 8" "accessible w (a + 8) 8" if "ranges w = [(a, of_nat 16384)]" for w
    unfolding accessible_def that using u by simp_all
  have ap: "apart a (a + 8)" by (rule apartI) (use u assms(3) in simp_all)
  then have ap': "apart (a + 8) a" by (simp add: apart_sym)
  show "fixalloc_sample pa no_arena = Inr [0xcafebabe, 0, 0, 0]"
    using al ap ap'
    by (simp add: fixalloc_sample_def go_same set_mem_next_def mem_next_def fix_dealloc_def acc Let_def
        ld64_st64_same ld64_st64_apart)
qed (use assms(1,3) in \<open>rule fix_test_words\<close>)

lemma fixalloc_sample_matches_c_witness:
  "fixalloc_sample four_chunks no_arena = Inr [0xcafebabe, 0, 0, 0]"
  using fixalloc_sample_matches_c [of four_chunks "0x10000"] by (simp add: four_chunks_def)

text \<open>A memory whose system allocator returns page 1, present from the start.\<close>

lemma system_alloc_sample_prints_witness:
  "\<exists>m2. system_alloc_sample (\<lambda>n m. (0x1000, m)) (\<lambda>v n m. m) of_nat zero_ram =
    Some (0x1000, [0, 1, 2, 3, 4, 5, 6, 7, 8, 9, 10, 11, 12, 13, 14, 15], m2)"
proof -
  have "present zero_ram (0x1000 + of_nat j)" if "j < 16" for j
  proof -
    have "unat ((0x1000 :: u64) + of_nat j) = 4096 + j" using that by (subst unat_offset) simp_all
    then show ?thesis by (simp add: zero_ram_def word_le_nat_alt)
  qed
  from system_alloc_sample_prints [of "\<lambda>n m. (0x1000, m)" zero_ram "0x1000" zero_ram "\<lambda>v n m. m" of_nat, OF refl this]
  obtain m2 where "system_alloc_sample (\<lambda>n m. (0x1000, m)) (\<lambda>v n m. m) of_nat zero_ram =
      Some (0x1000, map (\<lambda>j. ucast (of_nat j :: u64)) [0..<16], m2)"
    by blast
  then show ?thesis by (simp add: upt_rec)
qed

text \<open>The Rust program prints the address the Go runtime returns and the 202 it stores there; when
  the runtime returns null, it has undefined behaviour, since it does not look.\<close>

theorem lib_main_prints:
  assumes "sys 32 m = (p, m1)"
  shows "lib_main sys free m =
    (if present m1 p then Some (p, 202, free p 32 (wrw m1 W8 p 0xca)) else None)"
  using assms by (simp add: lib_main_def allocate_go_memory_def deallocate_go_memory_def byte_cell Let_def)

lemma lib_main_prints_witness:
  "lib_main (\<lambda>n m. (0, m)) (\<lambda>v n m. m) zero_ram = None"
  using lib_main_prints [of "\<lambda>n m. (0, m)" zero_ram 0 zero_ram "\<lambda>v n m. m", OF refl]
  by (simp add: zero_ram_def)

end
