(* ===== verification/Goruntime_Test.thy ===== *)
theory Goruntime_Test
  imports Go_Programs
begin

text \<open>
  The test of \<open>_xadd\<close> in \<open>goruntime.c\<close>: \<open>test_atomicity\<close> takes a cell from the Go runtime, starts a
  thread that adds the numbers below 15 to it and one that subtracts them, waits for both, prints
  the cell and gives it back. The main thread executes the statements of \<open>test_atomicity\<close>; as soon
  as a thread has been started its messages and instructions interleave with everything else. Each
  \<open>pthread_create\<close> may fail, and the assertion behind it then ends the process.
\<close>

section \<open>Threads\<close>

text \<open>A thread prints \<open>[thread n] i = x\<close> or executes an instruction.\<close>

datatype action = Say nat u32 | Exec instr

definition modify_ptr_1 :: "u64 \<Rightarrow> action list" where
  "modify_ptr_1 p = concat (map (\<lambda>i. Say 1 (of_nat i) # map Exec (xadd_call p (of_nat i))) [0..<15])"

definition modify_ptr_2 :: "u64 \<Rightarrow> action list" where
  "modify_ptr_2 p = concat (map (\<lambda>i. Say 2 (of_nat i) # map Exec (xadd_call p (- of_nat i))) [0..<15])"

text \<open>What is printed: the messages of the threads, and the cell at the end.\<close>

datatype event = Said nat u32 | Cell u32

fun act :: "action \<Rightarrow> cpu \<times> ram \<times> event list \<Rightarrow> (cpu \<times> ram \<times> event list) option" where
  "act (Say n i) (c, m, es) = Some (c, m, es @ [Said n i])"
| "act (Exec x) (c, m, es) = map_option (\<lambda>(c, m). (c, m, es)) (step x (c, m))"

section \<open>The main thread\<close>

datatype stmt = Allocate u64 | Spawn "u64 \<Rightarrow> action list" | Await nat | PrintCell | GiveBack u64

definition test_atomicity :: "stmt list" where
  "test_atomicity =
    [Allocate 16, Spawn modify_ptr_1, Spawn modify_ptr_2, Await 0, Await 1, PrintCell, GiveBack 16]"

record proc =
  stmts :: "stmt list"
  cell_ptr :: u64
  workers :: "(cpu \<times> action list) list"
  memory :: ram
  said :: "event list"
  aborted :: bool

definition test_start :: "ram \<Rightarrow> proc" where
  "test_start m = \<lparr>stmts = test_atomicity, cell_ptr = 0, workers = [], memory = m, said = [], aborted = False\<rparr>"

text \<open>
  One step of the process. A new thread starts with any contents of its registers; \<open>join\<close> waits
  until the thread has ended.
\<close>

inductive proc_step :: "sys_alloc \<Rightarrow> sys_free \<Rightarrow> proc \<Rightarrow> proc \<Rightarrow> bool" for sys free where
  alloc: "\<not> aborted s \<Longrightarrow> stmts s = Allocate n # k \<Longrightarrow> allocate_go_memory sys n (memory s) = (p, m) \<Longrightarrow>
    proc_step sys free s (s\<lparr>stmts := k, cell_ptr := p, memory := m\<rparr>)"
| create: "\<not> aborted s \<Longrightarrow> stmts s = Spawn f # k \<Longrightarrow>
    proc_step sys free s (s\<lparr>stmts := k, workers := workers s @ [(c, f (cell_ptr s))]\<rparr>)"
| create_fails: "\<not> aborted s \<Longrightarrow> stmts s = Spawn f # k \<Longrightarrow> proc_step sys free s (s\<lparr>aborted := True\<rparr>)"
| join: "\<not> aborted s \<Longrightarrow> stmts s = Await i # k \<Longrightarrow> i < length (workers s) \<Longrightarrow> snd (workers s ! i) = [] \<Longrightarrow>
    proc_step sys free s (s\<lparr>stmts := k\<rparr>)"
| print: "\<not> aborted s \<Longrightarrow> stmts s = PrintCell # k \<Longrightarrow> has (memory s) W32 (cell_ptr s) \<Longrightarrow>
    proc_step sys free s (s\<lparr>stmts := k, said := said s @ [Cell (cell32 (memory s) (cell_ptr s))]\<rparr>)"
| give_back: "\<not> aborted s \<Longrightarrow> stmts s = GiveBack n # k \<Longrightarrow>
    proc_step sys free s (s\<lparr>stmts := k, memory := deallocate_go_memory free (cell_ptr s) n (memory s)\<rparr>)"
| thread: "\<not> aborted s \<Longrightarrow> i < length (workers s) \<Longrightarrow> workers s ! i = (c, a # as) \<Longrightarrow>
    act a (c, memory s, said s) = Some (c', m', es') \<Longrightarrow>
    proc_step sys free s (s\<lparr>workers := (workers s)[i := (c', as)], memory := m', said := es'\<rparr>)"

section \<open>What a thread has still to do and to say\<close>

definition instrs :: "action list \<Rightarrow> instr list" where
  "instrs as = concat (map (\<lambda>a. case a of Say n i \<Rightarrow> [] | Exec x \<Rightarrow> [x]) as)"

definition tells :: "action list \<Rightarrow> u32 list" where
  "tells as = concat (map (\<lambda>a. case a of Say n i \<Rightarrow> [i] | Exec x \<Rightarrow> []) as)"

definition heard :: "nat \<Rightarrow> event list \<Rightarrow> u32 list" where
  "heard n es = concat (map (\<lambda>e. case e of Said k i \<Rightarrow> if k = n then [i] else [] | Cell v \<Rightarrow> []) es)"

definition speaks :: "nat \<Rightarrow> action list \<Rightarrow> bool" where
  "speaks n as \<longleftrightarrow> list_all (\<lambda>a. case a of Say k i \<Rightarrow> k = n | Exec x \<Rightarrow> True) as"

lemma action_simps [simp]:
  "instrs [] = []" "instrs (Say n i # as) = instrs as" "instrs (Exec x # as) = x # instrs as"
  "tells [] = []" "tells (Say n i # as) = i # tells as" "tells (Exec x # as) = tells as"
  "heard n [] = []" "heard n (es @ [Said k i]) = heard n es @ (if k = n then [i] else [])"
  "heard n (es @ [Cell v]) = heard n es"
  "speaks n []" "speaks n (Say k i # as) \<longleftrightarrow> k = n \<and> speaks n as" "speaks n (Exec x # as) \<longleftrightarrow> speaks n as"
  by (simp_all add: instrs_def tells_def heard_def speaks_def)

lemma action_append [simp]:
  "instrs (as @ bs) = instrs as @ instrs bs" "tells (as @ bs) = tells as @ tells bs"
  "speaks n (as @ bs) \<longleftrightarrow> speaks n as \<and> speaks n bs"
  "instrs (map Exec xs) = xs" "tells (map Exec xs) = []" "speaks n (map Exec xs)"
proof -
  show "instrs (map Exec xs) = xs" "tells (map Exec xs) = []" "speaks n (map Exec xs)"
    by (induction xs) simp_all
qed (simp_all add: instrs_def tells_def speaks_def)

text \<open>The programs of the two threads; \<open>thread_prog j\<close> is the one of the \<open>j\<close>-th thread.\<close>

definition thread_prog :: "nat \<Rightarrow> u64 \<Rightarrow> action list" where
  "thread_prog j = (if j = 0 then modify_ptr_1 else modify_ptr_2)"

definition below15 :: "u32 list" where
  "below15 = map of_nat [0..<15]"

lemma loop_program:
  "instrs (concat (map (\<lambda>i. Say n (f i) # map Exec (xadd_call p (g i))) xs)) = concat (map (xadd_call p) (map g xs))"
  "tells (concat (map (\<lambda>i. Say n (f i) # map Exec (xadd_call p (g i))) xs)) = map f xs"
  "speaks n (concat (map (\<lambda>i. Say n (f i) # map Exec (xadd_call p (g i))) xs))"
  "length (concat (map (\<lambda>i. Say n (f i) # map Exec (xadd_call p (g i))) xs)) = 6 * length xs"
  by (induction xs) (simp_all add: xadd_call_def xadd_code_def)

lemma thread_prog_facts:
  assumes "j < 2"
  shows "tells (thread_prog j p) = below15" "speaks (Suc j) (thread_prog j p)" "length (thread_prog j p) = 90"
    and "owes p c (instrs (thread_prog j p)) (if j = 0 then 105 else - 105)"
proof -
  have j: "j = 0 \<or> j = 1" using assms by auto
  then show "tells (thread_prog j p) = below15" "speaks (Suc j) (thread_prog j p)" "length (thread_prog j p) = 90"
    by (auto simp: thread_prog_def modify_ptr_1_def modify_ptr_2_def below15_def loop_program numeral_2_eq_2)
  have "sum_list (map of_nat [0..<15]) = (105 :: u32)" "sum_list (map (\<lambda>i. - of_nat i) [0..<15]) = (- 105 :: u32)"
    by (simp_all add: upt_rec)
  then show "owes p c (instrs (thread_prog j p)) (if j = 0 then 105 else - 105)"
    using j owes_calls [of p c "map of_nat [0..<15]"] owes_calls [of p c "map (\<lambda>i. - of_nat i) [0..<15]"]
    by (auto simp: thread_prog_def modify_ptr_1_def modify_ptr_2_def loop_program simp del: upt_Suc)
qed

section \<open>The invariant\<close>

text \<open>What is ahead of the \<open>j\<close>-th thread: what is left of it, or its whole program before it is started.\<close>

definition ahead :: "u64 \<Rightarrow> (cpu \<times> action list) list \<Rightarrow> nat \<Rightarrow> action list" where
  "ahead p ws j = (if j < length ws then snd (ws ! j) else thread_prog j p)"

definition owed :: "u64 \<Rightarrow> (cpu \<times> action list) list \<Rightarrow> nat \<Rightarrow> u32 \<Rightarrow> bool" where
  "owed p ws j d \<longleftrightarrow> (if j < length ws then owes p (fst (ws ! j)) (instrs (snd (ws ! j))) d
     else d = (if j = 0 then 105 else - 105))"

definition lines_ok :: "u64 \<Rightarrow> (cpu \<times> action list) list \<Rightarrow> event list \<Rightarrow> bool" where
  "lines_ok p ws es \<longleftrightarrow> (\<forall>j<2. heard (Suc j) es @ tells (ahead p ws j) = below15 \<and> speaks (Suc j) (ahead p ws j))"

definition sum_ok :: "u64 \<Rightarrow> u32 \<Rightarrow> (cpu \<times> action list) list \<Rightarrow> ram \<Rightarrow> bool" where
  "sum_ok p v ws m \<longleftrightarrow> has m W32 p \<and> (\<exists>d. (\<forall>j<2. owed p ws j (d j)) \<and> cell32 m p + d 0 + d 1 = v)"

definition going :: "u64 \<Rightarrow> u32 \<Rightarrow> (cpu \<times> action list) list \<Rightarrow> ram \<Rightarrow> event list \<Rightarrow> bool" where
  "going p v ws m es \<longleftrightarrow> length ws \<le> 2 \<and> lines_ok p ws es \<and> sum_ok p v ws m"

lemma less_2: "(\<forall>j<2. P j) \<longleftrightarrow> P 0 \<and> P (Suc 0)"
  by (auto simp: numeral_2_eq_2 less_Suc_eq)

lemma going_start: "has m W32 p \<Longrightarrow> going p (cell32 m p) [] m []"
  using thread_prog_facts(1,2)
  by (auto simp: going_def lines_ok_def sum_ok_def owed_def ahead_def less_2
      intro!: exI [of _ "\<lambda>j. if j = 0 then 105 else - 105"])

lemma going_create:
  assumes "going p v ws m es" and "length ws < 2"
  shows "going p v (ws @ [(c, thread_prog (length ws) p)]) m es"
proof -
  let ?ws = "ws @ [(c, thread_prog (length ws) p)]"
  have a: "ahead p ?ws j = ahead p ws j" for j
    by (auto simp: ahead_def nth_append less_Suc_eq)
  have "owed p ?ws j d" if "j < 2" "owed p ws j d" for j d
    using that thread_prog_facts(4) [OF that(1)] by (auto simp: owed_def nth_append less_Suc_eq split: if_splits)
  then have "sum_ok p v ?ws m" using assms(1) unfolding going_def sum_ok_def by blast
  then show ?thesis using assms unfolding going_def lines_ok_def a by simp
qed

text \<open>A thread can always make its next step, and keeps the invariant.\<close>

lemma going_thread:
  assumes g: "going p v ws m es" and i: "i < length ws" "ws ! i = (c, a # as)"
  shows "\<exists>c' m' es'. act a (c, m, es) = Some (c', m', es') \<and> going p v (ws[i := (c', as)]) m' es'"
proof -
  have i2: "i < 2" using g i(1) by (simp add: going_def)
  have ah: "ahead p (ws[i := (c', as)]) j = (if j = i then as else ahead p ws j)" for c' j
    using i(1) by (auto simp: ahead_def)
  have ow: "owed p (ws[i := (c', as)]) j d \<longleftrightarrow> (if j = i then owes p c' (instrs as) d else owed p ws j d)" for c' j d
    using i(1) by (auto simp: owed_def)
  have now: "ahead p ws i = a # as" using i by (simp add: ahead_def)
  obtain d where d: "has m W32 p" "\<forall>j<2. owed p ws j (d j)" "cell32 m p + d 0 + d 1 = v"
    using g by (auto simp: going_def sum_ok_def)
  have di: "owes p c (instrs (a # as)) (d i)" using d(2) i i2 by (auto simp: owed_def split: if_splits)
  have li: "heard (Suc j) es @ tells (ahead p ws j) = below15" "speaks (Suc j) (ahead p ws j)" if "j < 2" for j
    using g that by (auto simp: going_def lines_ok_def)
  show ?thesis
  proof (cases a)
    case (Say n x)
    have n: "n = Suc i" using li(2) [OF i2] now Say by simp
    have "\<forall>j<2. owed p (ws[i := (c, as)]) j (d j)" using d(2) di Say unfolding ow by auto
    then have "sum_ok p v (ws[i := (c, as)]) m" using d(1,3) unfolding sum_ok_def by blast
    moreover have "lines_ok p (ws[i := (c, as)]) (es @ [Said n x])"
      unfolding lines_ok_def ah using li li [OF i2] now Say n by auto
    ultimately show ?thesis using g Say by (auto simp: going_def)
  next
    case (Exec x)
    obtain c' m' d' where s: "step x (c, m) = Some (c', m')" "owes p c' (instrs as) d'"
        "cell32 m' p + d' = cell32 m p + d i" "\<forall>w a. has m' w a = has m w a"
      using owes_step [of p c x "instrs as" "d i" m] di d(1) Exec by auto
    have "\<forall>j<2. owed p (ws[i := (c', as)]) j ((d(i := d')) j)" using d(2) s(2) unfolding ow by auto
    moreover have "cell32 m' p + (d(i := d')) 0 + (d(i := d')) 1 = v"
      using i2 s(3) d(3) by (cases "i = 0") (auto simp: less_Suc_eq numeral_2_eq_2 algebra_simps)
    ultimately have "sum_ok p v (ws[i := (c', as)]) m'" using d(1) s(4) unfolding sum_ok_def by blast
    moreover have "lines_ok p (ws[i := (c', as)]) es"
      unfolding lines_ok_def ah using li li [OF i2] now Exec by auto
    ultimately show ?thesis using g Exec s(1) by (auto simp: going_def)
  qed
qed

text \<open>When both threads have ended, the cell is back and all messages are out.\<close>

lemma going_done:
  assumes "going p v ws m es" and "length ws = 2" and "snd (ws ! 0) = []" and "snd (ws ! 1) = []"
  shows "has m W32 p \<and> cell32 m p = v \<and> heard 1 es = below15 \<and> heard 2 es = below15"
proof -
  have zero: "d = 0" if "owes p c [] d" for c d
    using that by (auto elim: owes.cases simp: xadd_call_def xadd_code_def)
  obtain d where "has m W32 p" "\<forall>j<2. owed p ws j (d j)" "cell32 m p + d 0 + d 1 = v"
    using assms(1) by (auto simp: going_def sum_ok_def)
  moreover from this have "d 0 = 0" "d 1 = 0"
    using zero assms(2-4) by (auto simp: owed_def less_2)
  ultimately have "has m W32 p \<and> cell32 m p = v" by simp
  then show ?thesis
    using assms by (auto simp: going_def lines_ok_def ahead_def less_2 numeral_2_eq_2)
qed

section \<open>The phases of the main thread\<close>

text \<open>\<open>phase k\<close>: the first \<open>k\<close> of the seven statements have been executed.\<close>

definition threads_at :: "nat \<Rightarrow> nat" where
  "threads_at k = (if k \<le> 1 then 0 else if k = 2 then 1 else 2)"

definition all_said :: "event list \<Rightarrow> u32 \<Rightarrow> bool" where
  "all_said es v \<longleftrightarrow> (\<exists>xs. es = xs @ [Cell v] \<and> heard 1 xs = below15 \<and> heard 2 xs = below15)"

definition phase :: "sys_free \<Rightarrow> ram \<Rightarrow> u64 \<Rightarrow> u32 \<Rightarrow> nat \<Rightarrow> proc \<Rightarrow> bool" where
  "phase free m0 p v k s \<longleftrightarrow> \<not> aborted s \<and> k \<le> 7 \<and> stmts s = drop k test_atomicity \<and>
     length (workers s) = threads_at k \<and>
     (4 \<le> k \<longrightarrow> snd (workers s ! 0) = []) \<and> (5 \<le> k \<longrightarrow> snd (workers s ! 1) = []) \<and>
     (if k = 0 then memory s = m0 \<and> said s = []
      else if k \<le> 5 then cell_ptr s = p \<and> going p v (workers s) (memory s) (said s)
      else if k = 6 then cell_ptr s = p \<and> cell32 (memory s) p = v \<and> all_said (said s) v
      else (\<exists>m. memory s = free p 16 m \<and> cell32 m p = v) \<and> all_said (said s) v)"

lemma phase_cases:
  assumes "phase free m0 p v k s"
  obtains "k = 0" | "k = 1" | "k = 2" | "k = 3" | "k = 4" | "k = 5" | "k = 6" | "k = 7"
proof -
  have "k \<le> 7" using assms by (simp add: phase_def)
  then have "k = 0 \<or> k = 1 \<or> k = 2 \<or> k = 3 \<or> k = 4 \<or> k = 5 \<or> k = 6 \<or> k = 7" by arith
  then show ?thesis using that by blast
qed

text \<open>The statement ahead determines the phase.\<close>

lemma stmts_phase:
  assumes "phase free m0 p v k s"
  shows "stmts s = Allocate n # r \<Longrightarrow> k = 0 \<and> n = 16" "stmts s = Spawn f # r \<Longrightarrow> k = 1 \<and> f = modify_ptr_1 \<or> k = 2 \<and> f = modify_ptr_2"
    "stmts s = Await i # r \<Longrightarrow> k = i + 3 \<and> i < 2" "stmts s = PrintCell # r \<Longrightarrow> k = 5"
    "stmts s = GiveBack n # r \<Longrightarrow> k = 6 \<and> n = 16" "x # r = stmts s \<Longrightarrow> r = drop (Suc k) test_atomicity \<and> k \<le> 6"
  using assms by (cases rule: phase_cases; simp add: phase_def test_atomicity_def; auto)+

lemma phase_create:
  assumes ph: "phase free m0 p v k s" and st: "stmts s = Spawn f # r"
  shows "phase free m0 p v (Suc k) (s\<lparr>stmts := r, workers := workers s @ [(c, f (cell_ptr s))]\<rparr>)"
proof -
  have k: "k = 1 \<or> k = 2" "f = thread_prog (threads_at k)"
    using stmts_phase(2) [OF ph st] by (auto simp: threads_at_def thread_prog_def)
  have w: "cell_ptr s = p" "going p v (workers s) (memory s) (said s)" "length (workers s) = threads_at k"
    using ph k(1) by (auto simp: phase_def)
  have "threads_at k < 2" using k(1) by (auto simp: threads_at_def)
  then have "going p v (workers s @ [(c, f p)]) (memory s) (said s)"
    using going_create [OF w(2), of c] w(3) k(2) by simp
  then show ?thesis
    using ph stmts_phase(6) [OF ph st [symmetric]] k(1) w(1,3) by (auto simp: phase_def threads_at_def)
qed

lemma phase_step:
  assumes ph: "phase free m0 p v k s" and m0: "sys 16 m0 = (p, m1)" "has m1 W32 p" "cell32 m1 p = v"
    and step: "proc_step sys free s t"
  shows "aborted t \<or> phase free m0 p v k t \<or> phase free m0 p v (Suc k) t"
  using step
proof cases
  case (alloc n r q m)
  then have "k = 0" "n = 16" "r = drop 1 test_atomicity"
    using stmts_phase(1,6) [OF ph] by (metis, metis, metis One_nat_def)
  moreover from this have "q = p" "m = m1"
    using alloc(4) ph m0(1) by (auto simp: phase_def allocate_go_memory_def)
  ultimately have "phase free m0 p v (Suc k) t"
    using alloc(1) ph going_start [OF m0(2)] m0(3) by (auto simp: phase_def threads_at_def)
  then show ?thesis by simp
next
  case (create f r c)
  then show ?thesis using phase_create [OF ph create(3)] by simp
next
  case (create_fails f r)
  then show ?thesis by simp
next
  case (join i r)
  have "k = i + 3" "i < 2" "r = drop (Suc k) test_atomicity"
    using stmts_phase(3,6) [OF ph] join(3) by (metis, metis, metis)
  then have "phase free m0 p v (Suc k) t"
    using ph join(1,5) by (cases "i = 0") (auto simp: phase_def threads_at_def less_Suc_eq numeral_2_eq_2)
  then show ?thesis by simp
next
  case (print r)
  have k: "k = 5" "r = drop (Suc k) test_atomicity"
    using stmts_phase(4) [OF ph print(3)] stmts_phase(6) [OF ph print(3) [symmetric]] by simp_all
  have w: "cell_ptr s = p" "going p v (workers s) (memory s) (said s)" "length (workers s) = 2"
      "snd (workers s ! 0) = []" "snd (workers s ! 1) = []"
    using ph k(1) by (auto simp: phase_def threads_at_def)
  have "phase free m0 p v (Suc k) t"
    using ph print(1) k w(1) going_done [OF w(2-5)]
    by (auto simp: phase_def threads_at_def all_said_def)
  then show ?thesis by simp
next
  case (give_back n r)
  have k: "k = 6" "n = 16" "r = drop (Suc k) test_atomicity" using stmts_phase(5,6) [OF ph] give_back(3) by (metis, metis, metis)
  then have "phase free m0 p v (Suc k) t"
    using ph give_back(1) by (auto simp: phase_def threads_at_def deallocate_go_memory_def)
  then show ?thesis by simp
next
  case (thread i c a "as" c' m' es')
  have k: "k \<noteq> 0" "k < 6"
    using ph thread(3,4) by (auto simp: phase_def threads_at_def less_Suc_eq numeral_2_eq_2 not_less split: if_splits)
  then have "going p v (workers s) (memory s) (said s)" using ph by (simp add: phase_def)
  from going_thread [OF this thread(3,4)] thread(5)
  have g: "going p v ((workers s)[i := (c', as)]) m' es'" by auto
  have "snd ((workers s)[i := (c', as)] ! j) = []" if "snd (workers s ! j) = []" for j
    using that thread(3,4) by (cases "j = i") auto
  then have "phase free m0 p v k t" using ph k g thread(1) by (auto simp: phase_def)
  then show ?thesis by simp
qed

section \<open>Progress and the number of steps\<close>

lemma thread_can:
  assumes ph: "phase free m0 p v k s" and "3 \<le> k" and "k \<le> 5" and i: "i < 2" "snd (workers s ! i) \<noteq> []"
  shows "\<exists>t. proc_step sys free s t \<and> \<not> aborted t"
proof -
  have g: "going p v (workers s) (memory s) (said s)" and len: "i < length (workers s)" and live: "\<not> aborted s"
    using ph assms(2,3) i(1) by (auto simp: phase_def threads_at_def)
  obtain c a "as" where w: "workers s ! i = (c, a # as)"
    using i(2) by (cases "workers s ! i"; cases "snd (workers s ! i)") auto
  obtain c' m' es' where "act a (c, memory s, said s) = Some (c', m', es')"
    using going_thread [OF g len w] by blast
  from proc_step.thread [OF live len w this] show ?thesis using live by fastforce
qed

lemma phase_progress:
  assumes ph: "phase free m0 p v k s" and "k < 7"
  shows "\<exists>t. proc_step sys free s t \<and> \<not> aborted t"
proof -
  have live: "\<not> aborted s" using ph by (simp add: phase_def)
  have len: "3 \<le> k \<Longrightarrow> length (workers s) = 2" using ph by (simp add: phase_def threads_at_def)
  have join: "\<exists>t. proc_step sys free s t \<and> \<not> aborted t" if "stmts s = Await i # r" "i < 2" "3 \<le> k" "k \<le> 5" for i r
  proof (cases "snd (workers s ! i) = []")
    case True
    then have "proc_step sys free s (s\<lparr>stmts := r\<rparr>)"
      using live that len by (intro proc_step.join) auto
    then show ?thesis using live by fastforce
  next
    case False
    then show ?thesis using thread_can [OF ph] that by blast
  qed
  have st: "stmts s = drop k test_atomicity" using ph by (simp add: phase_def)
  show ?thesis using ph
  proof (cases rule: phase_cases)
    case 1
    obtain q m where q: "allocate_go_memory sys 16 (memory s) = (q, m)" by fastforce
    have "stmts s = Allocate 16 # drop 1 test_atomicity" using st 1 by (simp add: test_atomicity_def)
    from proc_step.alloc [OF live this q] show ?thesis using live by fastforce
  next
    case 2
    have "stmts s = Spawn modify_ptr_1 # drop 2 test_atomicity" using st 2 by (simp add: test_atomicity_def)
    from proc_step.create [OF live this] show ?thesis using live by fastforce
  next
    case 3
    have "stmts s = Spawn modify_ptr_2 # drop 3 test_atomicity" using st 3 by (simp add: test_atomicity_def)
    from proc_step.create [OF live this] show ?thesis using live by fastforce
  next
    case 4
    then show ?thesis using st join [of 0] by (simp add: test_atomicity_def)
  next
    case 5
    then show ?thesis using st join [of 1] by (simp add: test_atomicity_def)
  next
    case 6
    then have w: "cell_ptr s = p" "going p v (workers s) (memory s) (said s)" using ph by (auto simp: phase_def)
    then have h: "has (memory s) W32 (cell_ptr s)" by (simp add: going_def sum_ok_def)
    have "stmts s = PrintCell # drop 6 test_atomicity" using st 6 by (simp add: test_atomicity_def)
    from proc_step.print [OF live this h] show ?thesis using live by fastforce
  next
    case 7
    have "stmts s = GiveBack 16 # []" using st 7 by (simp add: test_atomicity_def)
    from proc_step.give_back [OF live this] show ?thesis using live by fastforce
  qed (use assms(2) in simp)
qed

text \<open>The steps to come: statements, actions of the threads, and those of threads not yet started.\<close>

definition actions_left :: "(cpu \<times> action list) list \<Rightarrow> nat" where
  "actions_left ws = sum_list (map (\<lambda>(c, as). length as) ws)"

definition steps_left :: "proc \<Rightarrow> nat" where
  "steps_left s = length (stmts s) + actions_left (workers s) + 90 * (2 - length (workers s))"

lemma actions_left_update:
  assumes "i < length ws" and "ws ! i = (c, a # as)"
  shows "actions_left ws = Suc (actions_left (ws[i := (c', as)]))"
proof -
  let ?f = "\<lambda>(c, as). length as"
  have i: "i < length (map ?f ws)" "map ?f ws ! i = Suc (length as)" using assms by simp_all
  have "map ?f (ws[i := (c', as)]) = (map ?f ws)[i := length as]" by (simp add: map_update)
  then have "actions_left (ws[i := (c', as)]) + Suc (length as) = actions_left ws + length as"
    using sum_list_update [OF i(1), of "length as"] elem_le_sum_list [OF i(1)] i(2)
    by (simp add: actions_left_def)
  then show ?thesis by simp
qed

lemma step_counts:
  assumes ph: "phase free m0 p v k s" and step: "proc_step sys free s t"
  shows "if aborted t then t = s\<lparr>aborted := True\<rparr> \<and> 0 < steps_left s else steps_left s = Suc (steps_left t)"
  using step
proof cases
  case (create f r c)
  have f: "f (cell_ptr s) = thread_prog (threads_at k) (cell_ptr s)" "length (workers s) = threads_at k"
      "threads_at k = 0 \<or> threads_at k = 1"
    using stmts_phase(2) [OF ph create(3)] ph by (auto simp: phase_def threads_at_def thread_prog_def)
  then have "length (f (cell_ptr s)) = 90" using thread_prog_facts(3) [of "threads_at k" "cell_ptr s"] by auto
  then show ?thesis using create f(2,3) by (auto simp: steps_left_def actions_left_def)
next
  case (thread i c a "as" c' m' es')
  then show ?thesis using actions_left_update [OF thread(3,4)] by (simp add: steps_left_def)
qed (simp_all add: steps_left_def)

lemma phase_end: "phase free m0 p v k s \<Longrightarrow> stmts s = [] \<longleftrightarrow> k = 7"
  by (auto simp: phase_def test_atomicity_def)

lemma phase_end_steps:
  assumes "phase free m0 p v k s"
  shows "stmts s = [] \<longleftrightarrow> steps_left s = 0"
proof
  assume "stmts s = []"
  then have k: "k = 7" using phase_end [OF assms] by simp
  then have w: "length (workers s) = 2" "snd (workers s ! 0) = []" "snd (workers s ! 1) = []"
    using assms by (simp_all add: phase_def threads_at_def)
  then obtain a b where "workers s = [a, b]" by (auto simp: numeral_2_eq_2 length_Suc_conv)
  then have "actions_left (workers s) = 0" using w(2,3) by (auto simp: actions_left_def split: prod.splits)
  then show "steps_left s = 0" using w(1) \<open>stmts s = []\<close> by (simp add: steps_left_def)
next
  assume "steps_left s = 0"
  then show "stmts s = []" by (simp add: steps_left_def)
qed

lemma phase_start: "phase free m0 p v 0 (test_start m0)"
  by (simp add: phase_def test_start_def threads_at_def)

lemma start_steps: "steps_left (test_start m0) = 187"
  by (simp add: steps_left_def actions_left_def test_start_def test_atomicity_def)

text \<open>Every run of \<open>n\<close> steps, and that it can be completed.\<close>

lemma run_phase:
  assumes "sys 16 m0 = (p, m1)" and "has m1 W32 p"
    and "(proc_step sys free ^^ n) (test_start m0) s"
  shows "if aborted s then n \<le> 187 else (\<exists>k. phase free m0 p (cell32 m1 p) k s) \<and> n + steps_left s = 187"
  using assms(3)
proof (induction n arbitrary: s)
  case 0
  then have "s = test_start m0" by simp
  moreover have "\<not> aborted (test_start m0)" by (simp add: test_start_def)
  ultimately show ?case using phase_start [of free m0 p "cell32 m1 p"] start_steps by auto
next
  case (Suc n)
  then obtain r where r: "(proc_step sys free ^^ n) (test_start m0) r" "proc_step sys free r s" by auto
  have live: "\<not> aborted r" using r(2) by (auto elim: proc_step.cases)
  then obtain k where k: "phase free m0 p (cell32 m1 p) k r" "n + steps_left r = 187" using Suc.IH [OF r(1)] by auto
  show ?case using phase_step [OF k(1) assms(1,2) refl r(2)] step_counts [OF k(1) r(2)] k(2) by (auto split: if_splits)
qed

lemma run_completes:
  assumes m: "sys 16 m0 = (p, m1)" "has m1 W32 p" and "phase free m0 p (cell32 m1 p) k s"
  shows "\<exists>t. (proc_step sys free ^^ steps_left s) s t \<and> stmts t = [] \<and> \<not> aborted t"
  using assms(3)
proof (induction "steps_left s" arbitrary: s k)
  case 0
  then show ?case using phase_end_steps [OF 0(2)] by (intro exI [of _ s]) (auto simp: phase_def simp flip: 0(1))
next
  case (Suc n)
  have "k < 7" using phase_end [OF Suc.prems] phase_end_steps [OF Suc.prems] Suc(2) Suc.prems by (auto simp: phase_def le_less)
  then obtain t where t: "proc_step sys free s t" "\<not> aborted t" using phase_progress [OF Suc.prems] by blast
  have l: "n = steps_left t" using step_counts [OF Suc.prems t(1)] t(2) Suc(2) by simp
  obtain j where "phase free m0 p (cell32 m1 p) j t" using phase_step [OF Suc.prems m refl t(1)] t(2) by blast
  then obtain u where "(proc_step sys free ^^ n) t u" "stmts u = []" "\<not> aborted u" using Suc(1) [OF l] l by auto
  then show ?case using t(1) Suc(2) relpowp_Suc_I2 by metis
qed

section \<open>The theorems\<close>

text \<open>C6: In every interleaving of \<open>test_atomicity\<close>, message by message and instruction by instruction,
  where the Go runtime returns a cell at \<open>p\<close>: no thread faults and the process never blocks, unless
  an assertion on \<open>pthread_create\<close> has ended it. When \<open>test_atomicity\<close> returns, both threads have
  announced the numbers below 15 in order, what is printed last is the old value of the cell, and
  the cell has been given back with its old value in it.\<close>

theorem test_atomicity_correct:
  assumes "sys 16 m0 = (p, m1)" and "has m1 W32 p"
    and "(proc_step sys free)\<^sup>*\<^sup>* (test_start m0) s"
  shows "aborted s \<or>
    (if stmts s = []
     then (\<exists>es. said s = es @ [Cell (cell32 m1 p)] \<and>
         heard 1 es = map of_nat [0..<15] \<and> heard 2 es = map of_nat [0..<15]) \<and>
       (\<exists>m2. memory s = free p 16 m2 \<and> cell32 m2 p = cell32 m1 p)
     else \<exists>t. proc_step sys free s t \<and> \<not> aborted t)"
proof (cases "aborted s")
  case False
  obtain n where "(proc_step sys free ^^ n) (test_start m0) s" using assms(3) rtranclp_imp_relpowp by metis
  then obtain k where k: "phase free m0 p (cell32 m1 p) k s"
    using run_phase [where sys = sys, OF assms(1,2)] False by fastforce
  show ?thesis
  proof (cases "stmts s = []")
    case True
    then have "k = 7" using phase_end [OF k] by simp
    then show ?thesis using k True by (simp add: phase_def all_said_def below15_def)
  next
    case stmts: False
    have "k < 7" using stmts phase_end [OF k] k by (auto simp: phase_def le_less)
    then show ?thesis using stmts phase_progress [OF k] by simp
  qed
qed simp

definition low_sys :: sys_alloc where
  "low_sys = (\<lambda>n m. (0x1000, m))"

definition keep_free :: sys_free where
  "keep_free = (\<lambda>v n m. m)"

lemma demo_cell: "low_sys 16 zero_ram = (0x1000, zero_ram)" "has zero_ram W32 0x1000"
  by (simp add: low_sys_def, rule zero_has, simp_all)

lemma demo_test_run:
  obtains s where "(proc_step low_sys keep_free ^^ 187) (test_start zero_ram) s" and "stmts s = []" and "\<not> aborted s"
  using run_completes [where sys = low_sys, OF demo_cell phase_start [of keep_free zero_ram "0x1000" "cell32 zero_ram 0x1000"]]
  unfolding start_steps by blast

lemma test_atomicity_correct_witness:
  "\<exists>s es. (proc_step low_sys keep_free)\<^sup>*\<^sup>* (test_start zero_ram) s \<and> stmts s = [] \<and>
    said s = es @ [Cell 0] \<and> heard 1 es = map of_nat [0..<15] \<and> cell32 (memory s) 0x1000 = 0"
proof -
  obtain s where s: "(proc_step low_sys keep_free ^^ 187) (test_start zero_ram) s" "stmts s = []" "\<not> aborted s"
    by (rule demo_test_run)
  then have run: "(proc_step low_sys keep_free)\<^sup>*\<^sup>* (test_start zero_ram) s" using relpowp_imp_rtranclp by metis
  from test_atomicity_correct [where sys = low_sys, OF demo_cell run] s(2,3)
  obtain es m2 where "said s = es @ [Cell 0]" "heard 1 es = map of_nat [0..<15]" "memory s = m2" "cell32 m2 0x1000 = 0"
    by (auto simp: zero_cells keep_free_def)
  then show ?thesis using run s(2) by blast
qed

text \<open>C39: Every interleaving of \<open>test_atomicity\<close> ends: no run has more than 187 steps, and one that no
  assertion stops has executed all statements after exactly 187.\<close>

theorem test_atomicity_terminates:
  assumes "sys 16 m0 = (p, m1)" and "has m1 W32 p"
    and "(proc_step sys free ^^ n) (test_start m0) s"
  shows "n \<le> 187 \<and> (aborted s \<or> (stmts s = [] \<longleftrightarrow> n = 187))"
proof (cases "aborted s")
  case True
  then show ?thesis using run_phase [OF assms(1,2,3)] by simp
next
  case False
  then obtain k where k: "phase free m0 p (cell32 m1 p) k s" "n + steps_left s = 187"
    using run_phase [OF assms(1,2,3)] by auto
  then show ?thesis using phase_end_steps [OF k(1)] by auto
qed

lemma test_atomicity_terminates_witness:
  "\<exists>n s. (proc_step low_sys keep_free ^^ n) (test_start zero_ram) s \<and> stmts s = [] \<and> n = 187"
proof -
  obtain s where s: "(proc_step low_sys keep_free ^^ 187) (test_start zero_ram) s" "stmts s = []" "\<not> aborted s"
    by (rule demo_test_run)
  then show ?thesis using test_atomicity_terminates [where sys = low_sys, OF demo_cell s(1)] by blast
qed

end
