(* ===== verification/Search.thy ===== *)
theory Search
  imports Prelude
begin

text \<open>
  The search for a string in files, \<open>eset/find_string_in_files/src/main.cpp\<close>: matches in one
  buffer, their printed form, and files that fit into memory. Strings are lists of characters;
  \<open>size_t\<close> is \<^typ>\<open>u64\<close> and \<open>i32\<close> is \<^typ>\<open>u32\<close>. A value \<^term>\<open>None\<close> is undefined behaviour, an
  exception that nobody catches, or a loop that does not end.
\<close>

section \<open>Strings of the standard library\<close>

text \<open>\<open>s.find(t, p)\<close>: the first position from \<open>p\<close> on at which \<open>t\<close> stands, or \<open>npos\<close>.\<close>

definition occurs_at :: "string \<Rightarrow> string \<Rightarrow> nat \<Rightarrow> bool" where
  "occurs_at s t k \<longleftrightarrow> k + length t \<le> length s \<and> take (length t) (drop k s) = t"

definition find_from :: "string \<Rightarrow> string \<Rightarrow> nat \<Rightarrow> nat option" where
  "find_from s t p = find (occurs_at s t) [p..<Suc (length s)]"

definition npos :: u64 where
  "npos = - 1"

definition str_find :: "string \<Rightarrow> string \<Rightarrow> u64 \<Rightarrow> u64" where
  "str_find s t p = (case find_from s t (unat p) of Some k \<Rightarrow> of_nat k | None \<Rightarrow> npos)"

text \<open>\<open>s.substr(p, n)\<close> throws when \<open>p\<close> is behind the end.\<close>

definition substr :: "string \<Rightarrow> u64 \<Rightarrow> u64 \<Rightarrow> string option" where
  "substr s p n = (if unat p \<le> length s then Some (take (unat n) (drop (unat p) s)) else None)"

definition str_size :: "string \<Rightarrow> u64" where
  "str_size s = of_nat (length s)"

text \<open>Decimal output of an \<open>int\<close>.\<close>

fun show_nat :: "nat \<Rightarrow> string" where
  "show_nat n = (if n < 10 then [char_of (48 + n)] else show_nat (n div 10) @ [char_of (48 + n mod 10)])"

declare show_nat.simps [simp del]

definition show_i32 :: "u32 \<Rightarrow> string" where
  "show_i32 v = (if sint v < 0 then ''-'' @ show_nat (nat (- sint v)) else show_nat (nat (sint v)))"

section \<open>Data\<close>

definition FILE_SIZE_LIMIT :: u64 where
  "FILE_SIZE_LIMIT = 512 * 1024 * 1024"

definition CHUNK_SIZE :: u64 where
  "CHUNK_SIZE = 16384"

definition THREAD_LIMIT :: nat where
  "THREAD_LIMIT = 500"

record MatchInfo =
  filename :: string
  offset :: u32
  m_prefix :: string
  m_suffix :: string

text \<open>What the program has written.\<close>

record io =
  out :: string
  err :: string

section \<open>Matches in a buffer\<close>

text \<open>
  \<open>pos\<close> is an \<open>i32\<close>; its arithmetic is written as it wraps, which only buffers of 2 GB could
  reach. The limits on file and chunk size keep every buffer far below that.
\<close>

definition prefix_at :: "string \<Rightarrow> u32 \<Rightarrow> string option" where
  "prefix_at chunk pos =
     (if 0 \<le>s pos - 3 then substr chunk (int_to_long (pos - 3)) 3 else Some ''(null)'')"

definition suffix_at :: "string \<Rightarrow> string \<Rightarrow> u32 \<Rightarrow> string option" where
  "suffix_at chunk target pos =
     (if int_to_long pos + str_size target + 3 < str_size chunk
      then substr chunk (int_to_long pos + str_size target) 3 else Some ''(null)'')"

partial_function (option) match_loop ::
    "string \<Rightarrow> string \<Rightarrow> string \<Rightarrow> u32 \<Rightarrow> MatchInfo list \<Rightarrow> MatchInfo list option" where
  "match_loop chunk target path pos positions =
     (if int_to_long pos \<noteq> npos then
        Option.bind (prefix_at chunk pos) (\<lambda>pre.
        Option.bind (suffix_at chunk target pos) (\<lambda>suf.
        match_loop chunk target path (ucast (str_find chunk target (int_to_long (pos + 1))))
          (positions @ [\<lparr>filename = path, offset = pos, m_prefix = pre, m_suffix = suf\<rparr>])))
      else Some positions)"

definition process_chunk :: "string \<Rightarrow> string \<Rightarrow> string \<Rightarrow> MatchInfo list option" where
  "process_chunk chunk target path = match_loop chunk target path (ucast (str_find chunk target 0)) []"

section \<open>Output\<close>

text \<open>The case of the backspace falls through to that of the space.\<close>

fun format_char :: "char \<Rightarrow> string" where
  "format_char c =
     (if c = CHR 0x09 then CHR 0x5C # ''t''
      else if c = CHR 0x0A then CHR 0x5C # ''n''
      else if c = CHR 0x0D then CHR 0x5C # ''r''
      else if c = CHR 0x08 then CHR 0x5C # ''b'' @ ''<space>''
      else if c = CHR 0x20 then ''<space>''
      else [c])"

definition format_string :: "string \<Rightarrow> string" where
  "format_string s = concat (map format_char s)"

definition format_match :: "string \<Rightarrow> MatchInfo \<Rightarrow> string" where
  "format_match target c =
     filename c @ ''('' @ show_i32 (offset c) @ ''): '' @ format_string (m_prefix c) @ '' '' @ target @
     '' '' @ format_string (m_suffix c) @ [CHR 0x0A]"

definition format_output :: "MatchInfo list \<Rightarrow> string \<Rightarrow> io \<Rightarrow> io" where
  "format_output v target w = w\<lparr>out := out w @ concat (map (format_match target) v)\<rparr>"

section \<open>Small files\<close>

text \<open>
  A directory entry: its path, what the file system says it is, whether looking into it throws, the
  size of a file otherwise, and the contents, \<^term>\<open>None\<close> when the file cannot be opened. What throws is
  \<open>file_size()\<close> for a dangling link, a socket or a pipe, and the iterator for a directory that may
  not be read. Size and contents are asked for at different times and need not agree.
\<close>

record entry =
  path_of :: string
  is_dir :: bool
  access_throws :: bool
  file_size :: u64
  contents :: "string option"

text \<open>\<open>entry.file_size()\<close>; nobody catches what it throws.\<close>

definition size_of_file :: "entry \<Rightarrow> u64 option" where
  "size_of_file e = (if access_throws e then None else Some (file_size e))"

lemma size_of_file_Some [simp]: "size_of_file e = Some n \<longleftrightarrow> \<not> access_throws e \<and> n = file_size e"
  by (auto simp: size_of_file_def)

definition open_error :: "string \<Rightarrow> io \<Rightarrow> io" where
  "open_error path w = w\<lparr>err := err w @ ''could not open a file '' @ path @ [CHR 0x0A]\<rparr>"

text \<open>\<open>buffer.resize(n); stream.read(buffer.data(), n); buffer.data()[n - 1] = 0;\<close>\<close>

definition fill_buffer :: "u64 \<Rightarrow> string \<Rightarrow> string option" where
  "fill_buffer n bytes =
     (if n = 0 then None
      else let got = take (unat n) bytes;
               buffer = got @ replicate (unat n - length got) (CHR 0x00)
           in Some (buffer[unat (n - 1) := CHR 0x00]))"

definition process_small_file :: "entry \<Rightarrow> string \<Rightarrow> io \<Rightarrow> (MatchInfo list \<times> io) option" where
  "process_small_file e target w = do {
     n \<leftarrow> size_of_file e;
     case contents e of
       None \<Rightarrow> Some ([], open_error (path_of e) w)
     | Some bytes \<Rightarrow> do {
         buffer \<leftarrow> fill_buffer n bytes;
         ms \<leftarrow> process_chunk buffer target (path_of e);
         Some (ms, w)
       }
   }"

end
