(* ===== verification/Search_Matches.thy ===== *)
theory Search_Matches
  imports Search
begin

text \<open>
  What the search in one buffer finds, and what the printed form and the buffer of a small file
  look like.
\<close>

section \<open>All occurrences\<close>

definition occurrences :: "string \<Rightarrow> string \<Rightarrow> nat list" where
  "occurrences s t = filter (occurs_at s t) [0..<Suc (length s)]"

text \<open>The context of an occurrence: three characters on each side, or \<open>(null)\<close>.\<close>

definition match_of :: "string \<Rightarrow> string \<Rightarrow> string \<Rightarrow> nat \<Rightarrow> MatchInfo" where
  "match_of s t path k = \<lparr>filename = path, offset = of_nat k,
     m_prefix = (if 3 \<le> k then take 3 (drop (k - 3) s) else ''(null)''),
     m_suffix = (if k + length t + 3 < length s then take 3 (drop (k + length t) s) else ''(null)'')\<rparr>"

lemma find_filter:
  "find P [j..<n] = Some k \<Longrightarrow> filter P [j..<n] = k # filter P [Suc k..<n] \<and> j \<le> k \<and> k < n \<and> P k"
proof (induction "n - j" arbitrary: j)
  case 0
  then show ?case by simp
next
  case (Suc d)
  then have j: "[j..<n] = j # [Suc j..<n]" by (simp add: upt_conv_Cons)
  show ?case
  proof (cases "P j")
    case True
    then show ?thesis using Suc.prems j Suc.hyps(2) by simp
  next
    case False
    then have "find P [Suc j..<n] = Some k" using Suc.prems j by simp
    moreover have "d = n - Suc j" using Suc.hyps(2) by simp
    ultimately have "filter P [Suc j..<n] = k # filter P [Suc k..<n] \<and> Suc j \<le> k \<and> k < n \<and> P k"
      using Suc.hyps(1) by blast
    then show ?thesis using j False by auto
  qed
qed

lemma small_i32:
  assumes "k < 2 ^ 31"
  shows "unat (of_nat k :: u32) = k" and "sint (of_nat k :: u32) = int k"
    and "int_to_long (of_nat k) = of_nat k" and "(ucast (of_nat k :: u64) :: u32) = of_nat k"
    and "unat (of_nat k :: u64) = k"
proof -
  show u: "unat (of_nat k :: u32) = k" using assms by (intro unat_of_nat32) simp
  show l: "unat (of_nat k :: u64) = k" using assms by (intro unat_of_nat64) simp
  show "sint (of_nat k :: u32) = int k" using sint_small32 [of "of_nat k"] u assms by simp
  have "unat (int_to_long (of_nat k)) = k" using u assms by (subst unat_int_to_long) simp_all
  then show "int_to_long (of_nat k) = of_nat k" using l by (intro unat_eqI) simp
  show "(ucast (of_nat k :: u64) :: u32) = of_nat k"
    by (rule bit_word_eqI) (auto simp: bit_ucast_iff bit_of_nat_iff)
qed

lemma long_add: "int_to_long (of_nat k) + n = of_nat k + n" if "k < 2 ^ 31"
  using that by (simp add: small_i32(3))

lemma prefix_at_spec:
  assumes "k \<le> length s" and "length s < 2 ^ 31"
  shows "prefix_at s (of_nat k) = Some (if 3 \<le> k then take 3 (drop (k - 3) s) else ''(null)'')"
proof (cases "3 \<le> k")
  case True
  then have "of_nat k - 3 = (of_nat (k - 3) :: u32)" by (simp add: of_nat_diff)
  moreover have "k - 3 < 2 ^ 31" using assms by simp
  ultimately show ?thesis
    using small_i32 [of "k - 3"] True assms(1)
    by (simp add: prefix_at_def substr_def word_sle_eq del: of_nat_diff)
next
  case False
  then have "k = 0 \<or> k = 1 \<or> k = 2" by auto
  then show ?thesis by (auto simp: prefix_at_def word_sle_eq)
qed

lemma suffix_at_spec:
  assumes "k + length t \<le> length s" and "length s < 2 ^ 31"
  shows "suffix_at s t (of_nat k) =
    Some (if k + length t + 3 < length s then take 3 (drop (k + length t) s) else ''(null)'')"
proof -
  have k: "int_to_long (of_nat k) = of_nat k" using small_i32(3) [of k] assms by simp
  have u: "unat (of_nat (k + length t) :: u64) = k + length t"
      "unat (of_nat (k + length t + 3) :: u64) = k + length t + 3"
      "unat (of_nat (length s) :: u64) = length s"
    using assms by (intro unat_of_nat64; simp)+
  have "of_nat k + of_nat (length t) + 3 = (of_nat (k + length t + 3) :: u64)"
      "of_nat k + of_nat (length t) = (of_nat (k + length t) :: u64)" by simp_all
  then have "suffix_at s t (of_nat k) =
      (if (of_nat (k + length t + 3) :: u64) < of_nat (length s)
       then substr s (of_nat (k + length t)) 3 else Some ''(null)'')"
    unfolding suffix_at_def k str_size_def by (simp only:)
  also have "(of_nat (k + length t + 3) :: u64) < of_nat (length s) \<longleftrightarrow> k + length t + 3 < length s"
    by (simp only: word_less_nat_alt u)
  also have "substr s (of_nat (k + length t)) 3 = Some (take 3 (drop (k + length t) s))"
    using u(1) assms(1) by (simp only: substr_def if_True) simp
  finally show ?thesis by simp
qed

lemma match_loop_spec:
  assumes "Suc (length s) < 2 ^ 31" and "j \<le> Suc (length s)"
  shows "match_loop s t path
      (ucast (case find (occurs_at s t) [j..<Suc (length s)] of Some k \<Rightarrow> of_nat k | None \<Rightarrow> npos)) acc =
    Some (acc @ map (match_of s t path) (filter (occurs_at s t) [j..<Suc (length s)]))"
  using assms(2)
proof (induction "Suc (length s) - j" arbitrary: j acc rule: less_induct)
  case less
  show ?case
  proof (cases "find (occurs_at s t) [j..<Suc (length s)]")
    case None
    have "(ucast npos :: u32) = - 1"
      by (rule bit_word_eqI) (simp add: npos_def bit_ucast_iff bit_minus_1_iff)
    then have "int_to_long (ucast npos) = npos" by (simp add: npos_def)
    moreover have "filter (occurs_at s t) [j..<Suc (length s)] = []"
      using None by (simp add: find_None_iff filter_empty_conv del: upt_Suc)
    ultimately show ?thesis unfolding None by (subst match_loop.simps) simp
  next
    case (Some k)
    have k: "filter (occurs_at s t) [j..<Suc (length s)] = k # filter (occurs_at s t) [Suc k..<Suc (length s)]"
        "j \<le> k" "k < Suc (length s)" "occurs_at s t k"
      using find_filter [OF Some] by blast+
    have k31: "k < 2 ^ 31" "Suc k \<le> 2 ^ 31" using k(3) assms(1) by simp_all
    have fits: "k + length t \<le> length s" using k(4) by (simp add: occurs_at_def)
    have pos: "(ucast (of_nat k :: u64) :: u32) = of_nat k" by (rule small_i32(4) [OF k31(1)])
    have go: "int_to_long (of_nat k) \<noteq> npos"
    proof
      assume "int_to_long (of_nat k) = npos"
      then have "unat (of_nat k :: u64) = unat npos" using small_i32(3) [OF k31(1)] by simp
      then show False using small_i32(5) [OF k31(1)] k31(1) by (simp add: npos_def unat_minus1_u64)
    qed
    have next_pos: "str_find s t (int_to_long (of_nat k + 1)) =
        (case find (occurs_at s t) [Suc k..<Suc (length s)] of Some k \<Rightarrow> of_nat k | None \<Rightarrow> npos)"
    proof (cases "Suc k < 2 ^ 31")
      case True
      have "of_nat k + 1 = (of_nat (Suc k) :: u32)" by simp
      then show ?thesis
        using small_i32(3,5) [OF True] by (simp only: str_find_def find_from_def)
    next
      case False
      then show ?thesis using k(3) assms(1) by simp
    qed
    have "prefix_at s (of_nat k) = Some (m_prefix (match_of s t path k))"
        "suffix_at s t (of_nat k) = Some (m_suffix (match_of s t path k))"
      using prefix_at_spec [of k s] suffix_at_spec [OF fits] fits assms(1)
      by (simp_all add: match_of_def)
    moreover have "\<lparr>filename = path, offset = of_nat k, m_prefix = m_prefix (match_of s t path k),
        m_suffix = m_suffix (match_of s t path k)\<rparr> = match_of s t path k"
      by (simp add: match_of_def)
    ultimately have "match_loop s t path (of_nat k) acc =
        match_loop s t path
          (ucast (case find (occurs_at s t) [Suc k..<Suc (length s)] of Some k \<Rightarrow> of_nat k | None \<Rightarrow> npos))
          (acc @ [match_of s t path k])"
      by (subst match_loop.simps) (simp only: go next_pos not_False_eq_True if_True bind.simps)
    moreover have "Suc (length s) - Suc k < Suc (length s) - j" using k(2,3) by simp
    ultimately show ?thesis
      using less(1) [of "Suc k" "acc @ [match_of s t path k]"] k(1,3) pos
      unfolding Some by (simp del: upt_Suc)
  qed
qed

lemma process_chunk_spec:
  assumes "Suc (length s) < 2 ^ 31"
  shows "process_chunk s t path = Some (map (match_of s t path) (occurrences s t))"
  using match_loop_spec [OF assms, of 0 t path "[]"]
  by (simp only: process_chunk_def str_find_def find_from_def occurrences_def unat_0 append_Nil)

end
