(* ===== verification/Search_Threads.thy ===== *)
theory Search_Threads
  imports Search_Matches "HOL-Library.Multiset"
begin

text \<open>
  Large files in \<open>main.cpp\<close>: a thread per chunk, the chunks handed out in batches of at most 501
  threads that the main thread joins before it starts more; and \<open>main\<close>. A thread makes two
  steps: it reads its chunk while it holds \<open>fread_mutex\<close>, and it searches the chunk and prints
  while it holds \<open>format_mutex\<close>. The step relation lets any thread of the batch make the next one.
\<close>

section \<open>Threads\<close>

text \<open>
  \<open>readsome(p, n)\<close> extracts at most the characters that are available without blocking;
  \<open>avail\<close> says how many those are, by what is left of the file.
\<close>

definition readsome :: "(string \<Rightarrow> nat) \<Rightarrow> u64 \<Rightarrow> string \<Rightarrow> string \<times> string" where
  "readsome avail n rest = (let k = min (unat n) (avail rest) in (take k rest, drop k rest))"

datatype worker = Starting u64 | Holding string | Ended

fun read_chunk :: "(string \<Rightarrow> nat) \<Rightarrow> string \<Rightarrow> string \<Rightarrow> worker \<Rightarrow> string \<times> io \<Rightarrow> (worker \<times> string \<times> io) option" where
  "read_chunk avail target path (Starting n) (stream, w) =
     (if n <s 0 then Some (Ended, stream, w)
      else let (got, rest) = readsome avail n stream
           in Option.bind (fill_buffer n got) (\<lambda>chunk. Some (Holding chunk, rest, w)))"
| "read_chunk avail target path (Holding chunk) (stream, w) =
     Option.bind (process_chunk chunk target path) (\<lambda>ms. Some (Ended, stream, format_output ms target w))"
| "read_chunk avail target path Ended (stream, w) = None"

inductive batch_step ::
    "(string \<Rightarrow> nat) \<Rightarrow> string \<Rightarrow> string \<Rightarrow> worker list \<times> string \<times> io \<Rightarrow> worker list \<times> string \<times> io \<Rightarrow> bool"
  for avail target path where
  "i < length ws \<Longrightarrow> read_chunk avail target path (ws ! i) (s, w) = Some (x, s', w') \<Longrightarrow>
    batch_step avail target path (ws, s, w) (ws[i := x], s', w')"

inductive_cases batch_stepE: "batch_step avail target path (ws, s, w) c"

section \<open>Large files\<close>

text \<open>
  The loop that starts the threads: the chunk sizes of the batches, in order. \<open>left_so_far\<close> and
  \<open>CHUNK_SIZE\<close> are unsigned, and so is their difference.
\<close>

partial_function (option) spawn_loop :: "u64 \<Rightarrow> u64 list \<Rightarrow> u64 list list \<Rightarrow> u64 list list option" where
  "spawn_loop left pool batches =
     (if left > 0 then
        let curr = (if left - CHUNK_SIZE < 0 then left else CHUNK_SIZE);
            left = left - CHUNK_SIZE;
            pool = pool @ [curr]
        in if length pool > THREAD_LIMIT then spawn_loop left [] (batches @ [pool])
           else spawn_loop left pool batches
      else Some (batches @ [pool]))"

inductive batches_run ::
    "(string \<Rightarrow> nat) \<Rightarrow> string \<Rightarrow> string \<Rightarrow> u64 list list \<Rightarrow> string \<times> io \<Rightarrow> string \<times> io \<Rightarrow> bool"
  for avail target path where
  none: "batches_run avail target path [] c c"
| batch: "(batch_step avail target path)\<^sup>*\<^sup>* (map Starting b, s, w) (ws, s', w') \<Longrightarrow>
    list_all (\<lambda>x. x = Ended) ws \<Longrightarrow> batches_run avail target path bs (s', w') c \<Longrightarrow>
    batches_run avail target path (b # bs) (s, w) c"

inductive_simps batches_run_simps [simp]:
  "batches_run avail target path [] c c'"
  "batches_run avail target path (b # bs) c c'"

definition large_note :: "io \<Rightarrow> io" where
  "large_note w = w\<lparr>out := out w @ ''it's really a large one'' @ [CHR 0x0A]\<rparr>"

inductive process_large_file ::
    "(string \<Rightarrow> nat) \<Rightarrow> entry \<Rightarrow> string \<Rightarrow> io \<Rightarrow> MatchInfo list \<times> io \<Rightarrow> bool" where
  unopened: "contents e = None \<Longrightarrow>
    process_large_file avail e target w ([], open_error (path_of e) (large_note w))"
| chunks: "contents e = Some bytes \<Longrightarrow> size_of_file e = Some n \<Longrightarrow> spawn_loop n [] [] = Some bs \<Longrightarrow>
    batches_run avail target (path_of e) bs (bytes, large_note w) (rest, w') \<Longrightarrow>
    process_large_file avail e target w ([], w')"

section \<open>process and main\<close>

inductive process_file ::
    "(string \<Rightarrow> nat) \<Rightarrow> entry \<Rightarrow> string \<Rightarrow> io \<Rightarrow> MatchInfo list \<times> io \<Rightarrow> bool" where
  small: "size_of_file e = Some n \<Longrightarrow> n < FILE_SIZE_LIMIT \<Longrightarrow> process_small_file e target w = Some r \<Longrightarrow>
    process_file avail e target w r"
| large: "size_of_file e = Some n \<Longrightarrow> \<not> n < FILE_SIZE_LIMIT \<Longrightarrow> process_large_file avail e target w r \<Longrightarrow>
    process_file avail e target w r"

text \<open>
  The loop over the entries of a directory, those of a sub-directory behind its own entry. The
  iterator throws when it has to enter one that may not be read.
\<close>

inductive process_entries :: "(string \<Rightarrow> nat) \<Rightarrow> entry list \<Rightarrow> string \<Rightarrow> io \<Rightarrow> io \<Rightarrow> bool"
  for avail where
  finished: "process_entries avail [] target w w"
| directory: "is_dir e \<Longrightarrow> \<not> access_throws e \<Longrightarrow> process_entries avail es target w w' \<Longrightarrow>
    process_entries avail (e # es) target w w'"
| regular: "\<not> is_dir e \<Longrightarrow> process_file avail e target w (v, w1) \<Longrightarrow>
    process_entries avail es target (if v = [] then w1 else format_output v target w1) w' \<Longrightarrow>
    process_entries avail (e # es) target w w'"

text \<open>What the file system holds under a path; \<open>Unreadable\<close> when to ask for it throws.\<close>

datatype node = Missing | Unreadable | Directory "entry list" | File entry

inductive search_main ::
    "(string \<Rightarrow> nat) \<Rightarrow> (string \<Rightarrow> node) \<Rightarrow> string list \<Rightarrow> io \<Rightarrow> int \<times> io \<Rightarrow> bool"
  for avail fs where
  usage: "length argv < 3 \<Longrightarrow> search_main avail fs argv w
    (- 1, w\<lparr>err := err w @ ''usage: prog <path> <string_to_match>'' @ [CHR 0x0A]\<rparr>)"
| missing: "\<not> length argv < 3 \<Longrightarrow> fs (argv ! 1) = Missing \<Longrightarrow> search_main avail fs argv w
    (- 1, w\<lparr>err := err w @ ''path '' @ argv ! 1 @ '' does not exist''\<rparr>)"
| directory: "\<not> length argv < 3 \<Longrightarrow> fs (argv ! 1) = Directory es \<Longrightarrow>
    process_entries avail es (argv ! 2) w w' \<Longrightarrow> search_main avail fs argv w (0, w')"
| single: "\<not> length argv < 3 \<Longrightarrow> fs (argv ! 1) = File e \<Longrightarrow>
    process_file avail e (argv ! 2) w (v, w1) \<Longrightarrow>
    search_main avail fs argv w (0, format_output v (argv ! 2) w1)"

end
