(* ===== verification/Search_Runs.thy ===== *)
theory Search_Runs
  imports Search_Threads
begin

text \<open>
  The loop that starts the threads ends only for multiples of the chunk size; and in every
  interleaving a batch of threads prints what its chunks contain, in some order.
\<close>

section \<open>Starting threads\<close>

lemma CHUNK_SIZE_value: "unat CHUNK_SIZE = 16384"
  by (simp add: CHUNK_SIZE_def)

lemma spawn_step:
  "0 < left \<Longrightarrow> spawn_loop left pool batches =
    (if length pool \<ge> THREAD_LIMIT then spawn_loop (left - CHUNK_SIZE) [] (batches @ [pool @ [CHUNK_SIZE]])
     else spawn_loop (left - CHUNK_SIZE) (pool @ [CHUNK_SIZE]) batches)"
  by (subst spawn_loop.simps) (auto simp: Let_def)

lemma spawn_stop: "spawn_loop 0 pool batches = Some (batches @ [pool])"
  by (subst spawn_loop.simps) simp

lemma spawn_multiple:
  assumes "unat left = 16384 * m" and "length pool \<le> THREAD_LIMIT"
  shows "\<exists>bs. spawn_loop left pool batches = Some (batches @ bs) \<and>
    concat bs = pool @ replicate m CHUNK_SIZE \<and> (\<forall>b \<in> set bs. length b \<le> Suc THREAD_LIMIT)"
  using assms
proof (induction m arbitrary: left pool batches)
  case 0
  then have "left = 0" by (simp add: unat_eq_0)
  then show ?case using 0 by (intro exI [of _ "[pool]"]) (simp add: spawn_stop)
next
  case (Suc m)
  have pos: "0 < left" using Suc.prems(1) by (simp add: word_less_nat_alt)
  have rest: "unat (left - CHUNK_SIZE) = 16384 * m"
    using Suc.prems(1) CHUNK_SIZE_value by (subst unat_sub_nowrap) simp_all
  show ?case
  proof (cases "length pool \<ge> THREAD_LIMIT")
    case True
    obtain bs where bs: "spawn_loop (left - CHUNK_SIZE) [] (batches @ [pool @ [CHUNK_SIZE]]) =
          Some ((batches @ [pool @ [CHUNK_SIZE]]) @ bs)"
        "concat bs = [] @ replicate m CHUNK_SIZE" "\<forall>b \<in> set bs. length b \<le> Suc THREAD_LIMIT"
      using Suc.IH [OF rest, of "[]" "batches @ [pool @ [CHUNK_SIZE]]"] by auto
    then show ?thesis
      using spawn_step [OF pos] True Suc.prems(2)
      by (intro exI [of _ "(pool @ [CHUNK_SIZE]) # bs"]) simp
  next
    case False
    then have "length (pool @ [CHUNK_SIZE]) \<le> THREAD_LIMIT" by simp
    then obtain bs where bs: "spawn_loop (left - CHUNK_SIZE) (pool @ [CHUNK_SIZE]) batches = Some (batches @ bs)"
        "concat bs = (pool @ [CHUNK_SIZE]) @ replicate m CHUNK_SIZE" "\<forall>b \<in> set bs. length b \<le> Suc THREAD_LIMIT"
      using Suc.IH [OF rest] by blast
    then show ?thesis using spawn_step [OF pos] False by (intro exI [of _ bs]) simp
  qed
qed

lemma spawn_returns_multiple:
  assumes "spawn_loop left pool batches = Some bs"
  shows "16384 dvd unat left"
proof (rule spawn_loop.raw_induct [OF _ assms, where P = "\<lambda>left pool batches bs. 16384 dvd unat left"])
  fix spawn :: "u64 \<Rightarrow> u64 list \<Rightarrow> u64 list list \<Rightarrow> u64 list list option" and left pool batches bs
  assume IH: "\<And>left pool batches bs. spawn left pool batches = Some bs \<Longrightarrow> 16384 dvd unat left"
    and body: "(if left > 0 then
        let curr = (if left - CHUNK_SIZE < 0 then left else CHUNK_SIZE);
            left = left - CHUNK_SIZE;
            pool = pool @ [curr]
        in if length pool > THREAD_LIMIT then spawn left [] (batches @ [pool])
           else spawn left pool batches
      else Some (batches @ [pool])) = Some bs"
  show "16384 dvd unat left"
  proof (cases "0 < left")
    case True
    obtain p b where "spawn (left - CHUNK_SIZE) p b = Some bs"
      using body True by (auto simp: Let_def split: if_splits)
    then have "16384 dvd unat (left - CHUNK_SIZE)" by (rule IH)
    then have d: "16384 dvd unat (left - CHUNK_SIZE) + 16384" by simp
    have "unat (left - CHUNK_SIZE) + 16384 = unat left \<or> unat (left - CHUNK_SIZE) + 16384 = unat left + 2 ^ 64"
      using CHUNK_SIZE_value unat_lt64 [of left] by (auto simp: unat_sub_if')
    then show ?thesis
    proof
      assume "unat (left - CHUNK_SIZE) + 16384 = unat left"
      then show ?thesis using d by simp
    next
      assume "unat (left - CHUNK_SIZE) + 16384 = unat left + 2 ^ 64"
      then have "16384 dvd unat left + 2 ^ 64" using d by (simp only:)
      moreover have "(16384 :: nat) dvd 2 ^ 64" by simp
      ultimately show ?thesis by (simp only: dvd_add_left_iff)
    qed
  next
    case False
    then have "left = 0" by (simp add: word_less_nat_alt unat_eq_0)
    then show ?thesis by simp
  qed
qed

section \<open>One batch\<close>

fun reads :: "(string \<Rightarrow> nat) \<Rightarrow> u64 \<Rightarrow> nat \<Rightarrow> string \<Rightarrow> string list \<times> string" where
  "reads avail n 0 s = ([], s)"
| "reads avail n (Suc k) s =
     (let (cs, s) = reads avail n k s; (got, rest) = readsome avail n s
      in (cs @ [the (fill_buffer n got)], rest))"

definition chunk_output :: "string \<Rightarrow> string \<Rightarrow> string \<Rightarrow> string" where
  "chunk_output target path c =
     concat (map (format_match target) (map (match_of c target path) (occurrences c target)))"

fun reading :: "worker \<Rightarrow> nat" where
  "reading (Starting n) = 1" | "reading (Holding c) = 0" | "reading Ended = 0"

fun held :: "worker \<Rightarrow> string multiset" where
  "held (Starting n) = {#}" | "held (Holding c) = {#c#}" | "held Ended = {#}"

fun todo :: "worker \<Rightarrow> nat" where
  "todo (Starting n) = 2" | "todo (Holding c) = 1" | "todo Ended = 0"

fun proper :: "u64 \<Rightarrow> worker \<Rightarrow> bool" where
  "proper n (Starting m) \<longleftrightarrow> m = n" | "proper n (Holding c) \<longleftrightarrow> length c = unat n" | "proper n Ended \<longleftrightarrow> True"

lemma proper_update: "list_all (proper n) ws \<Longrightarrow> proper n x \<Longrightarrow> list_all (proper n) (ws[i := x])"
  unfolding list_all_iff by (auto dest: set_update_subset_insert [THEN subsetD])

lemma fill_buffer_length:
  "0 < unat n \<Longrightarrow> length got \<le> unat n \<Longrightarrow> \<exists>c. fill_buffer n got = Some c \<and> length c = unat n"
  by (auto simp: fill_buffer_def Let_def)

definition batch_inv ::
    "(string \<Rightarrow> nat) \<Rightarrow> string \<Rightarrow> string \<Rightarrow> u64 \<Rightarrow> nat \<Rightarrow> string \<Rightarrow> io \<Rightarrow> worker list \<times> string \<times> io \<Rightarrow> bool" where
  "batch_inv avail target path n k s0 w0 st \<longleftrightarrow> (case st of (ws, s, w) \<Rightarrow>
     list_all (proper n) ws \<and>
     (\<exists>r cs cs_out. r + sum_list (map reading ws) = k \<and> reads avail n r s0 = (cs, s) \<and>
        mset cs = mset cs_out + sum_list (map held ws) \<and>
        w = w0\<lparr>out := out w0 @ concat (map (chunk_output target path) cs_out)\<rparr>))"

lemma batch_inv_start: "batch_inv avail target path n k s w (replicate k (Starting n), s, w)"
  unfolding batch_inv_def prod.case
proof (intro conjI exI)
  show "list_all (proper n) (replicate k (Starting n))" by (simp add: list_all_iff)
  show "0 + sum_list (map reading (replicate k (Starting n))) = k" by (simp add: sum_list_replicate)
  show "reads avail n 0 s = ([], s)" by simp
  show "mset [] = mset [] + sum_list (map held (replicate k (Starting n)))"
    by (induction k) simp_all
qed simp

text \<open>What a worker of the batch does in one step.\<close>

lemma worker_step:
  assumes "proper n x" and "0 < unat n" and "Suc (unat n) < 2 ^ 31"
  shows "x = Ended \<or>
    (x = Starting n \<and> (\<exists>got rest c. readsome avail n s = (got, rest) \<and> fill_buffer n got = Some c \<and>
       length c = unat n \<and> read_chunk avail target path x (s, w) = Some (Holding c, rest, w))) \<or>
    (\<exists>c. x = Holding c \<and> read_chunk avail target path x (s, w) =
       Some (Ended, s, w\<lparr>out := out w @ chunk_output target path c\<rparr>))"
proof (cases x)
  case (Starting m)
  then have m: "m = n" using assms(1) by simp
  have pos: "\<not> n <s 0" using assms(3) by (subst sless_unat64) simp_all
  obtain got rest where r: "readsome avail n s = (got, rest)" by fastforce
  then have "length got \<le> unat n" by (auto simp: readsome_def Let_def)
  then obtain c where "fill_buffer n got = Some c" "length c = unat n"
    using fill_buffer_length assms(2) by blast
  then show ?thesis using Starting m pos r by simp
next
  case (Holding c)
  then have "Suc (length c) < 2 ^ 31" using assms by simp
  then show ?thesis
    using Holding process_chunk_spec [of c] by (simp add: format_output_def chunk_output_def)
qed simp

lemma batch_inv_step:
  assumes "batch_step avail target path st st'" and "batch_inv avail target path n k s0 w0 st"
    and n: "0 < unat n" "Suc (unat n) < 2 ^ 31"
  shows "batch_inv avail target path n k s0 w0 st'"
  using assms(1)
proof cases
  case (1 i ws s w x s' w')
  obtain r cs outs where inv: "list_all (proper n) ws" "r + sum_list (map reading ws) = k"
      "reads avail n r s0 = (cs, s)" "mset cs = mset outs + sum_list (map held ws)"
      "w = w0\<lparr>out := out w0 @ concat (map (chunk_output target path) outs)\<rparr>"
    using assms(2) unfolding 1(1) batch_inv_def by auto
  have i: "proper n (ws ! i)" using inv(1) 1(3) by (simp add: list_all_length)
  note swap = sum_list_swap [OF 1(3), of _ x]
  consider (start) c where "ws ! i = Starting n" "x = Holding c" "w' = w" "length c = unat n"
      "readsome avail n s = (fst (readsome avail n s), s')" "fill_buffer n (fst (readsome avail n s)) = Some c"
    | (hold) c where "ws ! i = Holding c" "x = Ended" "s' = s" "w' = w\<lparr>out := out w @ chunk_output target path c\<rparr>"
    using worker_step [OF i n, of avail s target path w] 1(4) by auto
  then show ?thesis
  proof cases
    case start
    have "list_all (proper n) (ws[i := x])"
      using proper_update [OF inv(1)] start by simp
    moreover have "Suc r + sum_list (map reading (ws[i := x])) = k"
      using swap [of reading] start inv(2) by simp
    moreover have "reads avail n (Suc r) s0 = (cs @ [c], s')"
      using inv(3) start by (simp add: Let_def split: prod.splits) (metis fst_conv option.sel snd_conv)
    moreover have "mset (cs @ [c]) = mset outs + sum_list (map held (ws[i := x]))"
      using swap [of held] start inv(4) by simp
    ultimately show ?thesis using inv(5) start unfolding 1(2) batch_inv_def by auto
  next
    case hold
    have "list_all (proper n) (ws[i := x])"
      using proper_update [OF inv(1)] hold by simp
    moreover have "r + sum_list (map reading (ws[i := x])) = k"
      using swap [of reading] hold inv(2) by simp
    moreover have "mset cs = mset (outs @ [c]) + sum_list (map held (ws[i := x]))"
      using swap [of held] hold inv(4) by (simp add: ac_simps)
    moreover have "w' = w0\<lparr>out := out w0 @ concat (map (chunk_output target path) (outs @ [c]))\<rparr>"
      using hold inv(5) by simp
    ultimately show ?thesis using inv(3) hold(3) unfolding 1(2) batch_inv_def by blast
  qed
qed

lemma batch_inv_run:
  assumes "(batch_step avail target path)\<^sup>*\<^sup>* st st'" and "batch_inv avail target path n k s0 w0 st"
    and "0 < unat n" and "Suc (unat n) < 2 ^ 31"
  shows "batch_inv avail target path n k s0 w0 st'"
  using assms(1,2) by (induction rule: rtranclp_induct) (auto intro: batch_inv_step [OF _ _ assms(3,4)])

lemma batch_end:
  assumes "batch_inv avail target path n k s0 w0 (ws, s, w)" and "list_all (\<lambda>x. x = Ended) ws"
  shows "\<exists>outs. mset outs = mset (fst (reads avail n k s0)) \<and> s = snd (reads avail n k s0) \<and>
    w = w0\<lparr>out := out w0 @ concat (map (chunk_output target path) outs)\<rparr>"
proof -
  have zero: "sum_list (map reading ws) = 0" "sum_list (map held ws) = {#}"
    using assms(2) by (induction ws) auto
  obtain r cs outs where "r + sum_list (map reading ws) = k" "reads avail n r s0 = (cs, s)"
      "mset cs = mset outs + sum_list (map held ws)"
      "w = w0\<lparr>out := out w0 @ concat (map (chunk_output target path) outs)\<rparr>"
    using assms(1) by (auto simp: batch_inv_def)
  then show ?thesis unfolding zero by (intro exI [of _ outs]) simp
qed

text \<open>Every batch can be completed, whatever has happened so far.\<close>

lemma batch_completes:
  assumes "batch_inv avail target path n k s0 w0 st" and n: "0 < unat n" "Suc (unat n) < 2 ^ 31"
  shows "\<exists>st'. (batch_step avail target path)\<^sup>*\<^sup>* st st' \<and> list_all (\<lambda>x. x = Ended) (fst st')"
  using assms(1)
proof (induction "sum_list (map todo (fst st))" arbitrary: st rule: less_induct)
  case less
  obtain ws s w where st: "st = (ws, s, w)" by (cases st)
  show ?case
  proof (cases "list_all (\<lambda>x. x = Ended) ws")
    case True
    then show ?thesis using st by (intro exI [of _ st]) simp
  next
    case False
    then obtain i where i: "i < length ws" "ws ! i \<noteq> Ended" by (auto simp: list_all_length)
    have "proper n (ws ! i)" using less(2) i(1) by (simp add: st batch_inv_def list_all_length)
    from worker_step [OF this n, of avail s target path w]
    obtain x s' w' where x: "read_chunk avail target path (ws ! i) (s, w) = Some (x, s', w')"
        "todo x < todo (ws ! i)"
      using i(2) by fastforce
    let ?st = "(ws[i := x], s', w')"
    have step: "batch_step avail target path st ?st" unfolding st using i(1) x(1) by (rule batch_step.intros)
    have "sum_list (map todo (fst ?st)) < sum_list (map todo (fst st))"
      using sum_list_swap [OF i(1), of todo x] x(2) by (simp add: st)
    then obtain st' where "(batch_step avail target path)\<^sup>*\<^sup>* ?st st'" "list_all (\<lambda>x. x = Ended) (fst st')"
      using less(1) batch_inv_step [OF step less(2) n] by blast
    then show ?thesis using step by (meson converse_rtranclp_into_rtranclp)
  qed
qed

section \<open>All batches\<close>

lemma reads_add:
  "reads avail n (k + l) s =
    (fst (reads avail n k s) @ fst (reads avail n l (snd (reads avail n k s))),
     snd (reads avail n l (snd (reads avail n k s))))"
  by (induction l) (simp_all add: Let_def split: prod.split)

lemma batches_output:
  assumes "batches_run avail target path bs (s, w) (s', w')" and "set (concat bs) \<subseteq> {n}"
    and n: "0 < unat n" "Suc (unat n) < 2 ^ 31"
  shows "\<exists>outs. mset outs = mset (fst (reads avail n (length (concat bs)) s)) \<and>
    s' = snd (reads avail n (length (concat bs)) s) \<and>
    w' = w\<lparr>out := out w @ concat (map (chunk_output target path) outs)\<rparr>"
  using assms(1,2)
proof (induction bs arbitrary: s w)
  case Nil
  then show ?case by (intro exI [of _ "[]"]) simp
next
  case (Cons b bs)
  have b: "map Starting b = replicate (length b) (Starting n)"
    using Cons.prems(2) by (intro replicate_eqI) auto
  obtain ws s1 w1 where run: "(batch_step avail target path)\<^sup>*\<^sup>* (map Starting b, s, w) (ws, s1, w1)"
      "list_all (\<lambda>x. x = Ended) ws" "batches_run avail target path bs (s1, w1) (s', w')"
    using Cons.prems(1) by auto
  obtain o1 where o1: "mset o1 = mset (fst (reads avail n (length b) s))" "s1 = snd (reads avail n (length b) s)"
      "w1 = w\<lparr>out := out w @ concat (map (chunk_output target path) o1)\<rparr>"
    using batch_end [OF batch_inv_run [OF run(1) [unfolded b] batch_inv_start n] run(2)] by blast
  have "set (concat bs) \<subseteq> {n}" using Cons.prems(2) by simp
  then obtain o2 where o2: "mset o2 = mset (fst (reads avail n (length (concat bs)) s1))"
      "s' = snd (reads avail n (length (concat bs)) s1)"
      "w' = w1\<lparr>out := out w1 @ concat (map (chunk_output target path) o2)\<rparr>"
    using Cons.IH [OF run(3)] by blast
  have "length (concat (b # bs)) = length b + length (concat bs)" by simp
  then show ?case
    using o1 o2 by (intro exI [of _ "o1 @ o2"]) (simp add: reads_add)
qed

lemma batches_complete:
  assumes "set (concat bs) \<subseteq> {n}" and n: "0 < unat n" "Suc (unat n) < 2 ^ 31"
  shows "\<exists>c. batches_run avail target path bs (s, w) c"
  using assms(1)
proof (induction bs arbitrary: s w)
  case Nil
  then show ?case by simp
next
  case (Cons b bs)
  have b: "map Starting b = replicate (length b) (Starting n)"
    using Cons.prems by (intro replicate_eqI) auto
  obtain ws s1 w1 where "(batch_step avail target path)\<^sup>*\<^sup>* (map Starting b, s, w) (ws, s1, w1)"
      "list_all (\<lambda>x. x = Ended) ws"
    using batch_completes [OF batch_inv_start n, of avail target path "length b" s w] unfolding b by auto
  moreover have "set (concat bs) \<subseteq> {n}" using Cons.prems by simp
  then obtain c where "batches_run avail target path bs (s1, w1) c" using Cons.IH by blast
  ultimately show ?case by (intro exI batches_run.batch)
qed

text \<open>When all that is left of the file is available, the chunks are the consecutive pieces.\<close>

definition chunk_text :: "u64 \<Rightarrow> string \<Rightarrow> nat \<Rightarrow> string" where
  "chunk_text n s i = the (fill_buffer n (take (unat n) (drop (i * unat n) s)))"

lemma reads_all: "reads length n k s = (map (chunk_text n s) [0..<k], drop (k * unat n) s)"
proof (induction k)
  case 0
  then show ?case by simp
next
  case (Suc k)
  let ?r = "drop (k * unat n) s"
  have "readsome length n ?r = (take (unat n) ?r, drop (unat n) ?r)"
    by (cases "unat n \<le> length ?r") (simp_all add: readsome_def Let_def min_def)
  then show ?case using Suc by (simp add: Let_def chunk_text_def add.commute)
qed

lemma chunk_text_full:
  assumes "Suc i * unat n \<le> length s" and "0 < unat n"
  shows "chunk_text n s i = take (unat n - 1) (drop (i * unat n) s) @ [CHR 0x00]"
proof -
  let ?b = "take (unat n) (drop (i * unat n) s)"
  have len: "length ?b = unat n" using assms(1) by simp
  have "n \<noteq> 0" using assms(2) by auto
  then have u: "unat (n - 1) = unat n - 1" by (simp add: unat_minus_one)
  have "chunk_text n s i = ?b[unat n - 1 := CHR 0x00]"
    using len u \<open>n \<noteq> 0\<close> by (simp add: chunk_text_def fill_buffer_def Let_def)
  also have "\<dots> = take (unat n - 1) ?b @ [CHR 0x00]"
    using len assms(2) by (subst upd_conv_take_nth_drop) simp_all
  finally show ?thesis by (simp add: min_def)
qed

end
