(* ===== verification/Search_Theorems.thy ===== *)
theory Search_Theorems
  imports Search_Runs
begin

text \<open>
  The theorems on the search in files, each with an instance on a small file.
\<close>

definition fresh_io :: io where
  "fresh_io = \<lparr>out = [], err = []\<rparr>"

section \<open>One buffer\<close>

text \<open>C22: In a buffer below 2 GB \<open>process_chunk\<close> reports every occurrence of the target, overlapping
  ones included, in order and once, each with the three characters before it and behind it. Where
  fewer than three stand before it, or fewer than four behind it, it reports \<open>(null)\<close> instead.\<close>

theorem process_chunk_all:
  assumes "Suc (length s) < 2 ^ 31"
  shows "process_chunk s t path = Some (map (match_of s t path) (occurrences s t))"
  by (rule process_chunk_spec [OF assms])

lemma process_chunk_all_witness:
  "process_chunk ''xabab-abyz!'' ''ab'' ''f'' = Some
    [\<lparr>filename = ''f'', offset = 1, m_prefix = ''(null)'', m_suffix = ''ab-''\<rparr>,
     \<lparr>filename = ''f'', offset = 3, m_prefix = ''xab'', m_suffix = ''-ab''\<rparr>,
     \<lparr>filename = ''f'', offset = 6, m_prefix = ''ab-'', m_suffix = ''(null)''\<rparr>]"
  using process_chunk_all [of "''xabab-abyz!''" "''ab''" "''f''"]
  by (simp add: occurrences_def occurs_at_def match_of_def upt_rec)

section \<open>Output\<close>

lemma format_char_plain: "set (format_char c) \<inter> {CHR 0x08, CHR 0x09, CHR 0x0A, CHR 0x0D, CHR 0x20} = {}"
  by auto

lemma format_string_plain: "set (format_string s) \<inter> {CHR 0x08, CHR 0x09, CHR 0x0A, CHR 0x0D, CHR 0x20} = {}"
  using format_char_plain by (auto simp: format_string_def simp del: format_char.simps)

lemma show_nat_digits: "set (show_nat n) \<subseteq> set ''0123456789''"
proof (induction n rule: show_nat.induct)
  case (1 n)
  have "list_all (\<lambda>d. char_of (48 + d) \<in> set ''0123456789'') [0..<10::nat]" by code_simp
  then have digit: "char_of (48 + d) \<in> set ''0123456789''" if "d < 10" for d :: nat
    using that by (simp only: list_all_iff set_upt atLeastLessThan_iff) simp
  show ?case
  proof (cases "n < 10")
    case True
    then show ?thesis using digit [of n] by (subst show_nat.simps) simp
  next
    case False
    then have "set (show_nat n) = set (show_nat (n div 10)) \<union> {char_of (48 + n mod 10)}"
      by (subst show_nat.simps) simp
    then show ?thesis using 1 False digit [of "n mod 10"] by simp
  qed
qed

lemma show_i32_no_newline: "CHR 0x0A \<notin> set (show_i32 v)"
  using show_nat_digits [of "nat (sint v)"] show_nat_digits [of "nat (- sint v)"]
  by (auto simp: show_i32_def)

text \<open>A match is printed as one line: the newline at its end is the only one, whatever the context
  contains, when path and target contain none.\<close>

theorem one_line_per_match:
  assumes "CHR 0x0A \<notin> set (filename c)" and "CHR 0x0A \<notin> set target"
  shows "\<exists>line. format_match target c = line @ [CHR 0x0A] \<and> CHR 0x0A \<notin> set line"
proof -
  have "CHR 0x0A \<notin> set (format_string s)" for s using format_string_plain [of s] by auto
  then show ?thesis using assms show_i32_no_newline by (simp add: format_match_def)
qed

lemma one_line_per_match_witness:
  "\<exists>line. format_match ''ab'' \<lparr>filename = ''f'', offset = 12, m_prefix = [CHR 0x0A, CHR 0x20, CHR 0x09], m_suffix = ''x''\<rparr> =
    line @ [CHR 0x0A] \<and> CHR 0x0A \<notin> set line"
  by (rule one_line_per_match) simp_all

section \<open>Small files\<close>

lemma occurs_at_append:
  assumes "t \<noteq> []" and "c \<notin> set t"
  shows "occurs_at (s @ [c]) t k \<longleftrightarrow> occurs_at s t k"
proof
  assume "occurs_at s t k"
  then show "occurs_at (s @ [c]) t k" by (simp add: occurs_at_def)
next
  assume o: "occurs_at (s @ [c]) t k"
  have "k + length t \<noteq> Suc (length s)"
  proof
    assume l: "k + length t = Suc (length s)"
    then have "k \<le> length s" using assms(1) by (cases t) auto
    then have "take (length t) (drop k (s @ [c])) = drop k s @ [c]" using l by simp
    then show False using o assms(2) by (auto simp: occurs_at_def)
  qed
  then show "occurs_at s t k" using o by (auto simp: occurs_at_def)
qed

lemma occurrences_append:
  assumes "t \<noteq> []" and "c \<notin> set t"
  shows "occurrences (s @ [c]) t = occurrences s t"
proof -
  have "occurrences (s @ [c]) t = filter (occurs_at s t) ([0..<Suc (length s)] @ [Suc (length s)])"
    unfolding occurrences_def using occurs_at_append [OF assms] by (intro filter_cong) simp_all
  moreover have "\<not> occurs_at s t (Suc (length s))" by (simp add: occurs_at_def)
  ultimately show ?thesis by (simp add: occurrences_def)
qed

lemma fill_buffer_whole:
  assumes "length bytes = unat n" and "0 < unat n"
  shows "fill_buffer n bytes = Some (butlast bytes @ [CHR 0x00])"
proof -
  have "n \<noteq> 0" using assms(2) by auto
  then have u: "unat (n - 1) = unat n - 1" by (simp add: unat_minus_one)
  have "bytes[unat n - 1 := CHR 0x00] = butlast bytes @ [CHR 0x00]"
    using assms by (subst upd_conv_take_nth_drop) (simp_all add: butlast_conv_take)
  then show ?thesis using assms(1) u \<open>n \<noteq> 0\<close> by (simp add: fill_buffer_def Let_def)
qed

lemma process_small_file_whole:
  assumes "size_of_file e = Some n" and "contents e = Some bytes" and "length bytes = unat n"
    and "0 < unat n" and "Suc (length (butlast bytes @ [CHR 0x00])) < 2 ^ 31"
  shows "process_small_file e target w =
    Some (map (match_of (butlast bytes @ [CHR 0x00]) target (path_of e))
      (occurrences (butlast bytes @ [CHR 0x00]) target), w)"
  unfolding process_small_file_def assms(1,2) bind.bind_lunit option.case
    fill_buffer_whole [OF assms(3,4)] process_chunk_spec [OF assms(5)] ..

text \<open>C25: A file that fits into memory is searched without its last byte, which is overwritten before
  the search: the positions reported are those in the file less one byte. For an empty file the
  overwritten byte is the one before the buffer, which is undefined.\<close>

theorem small_file_loses_last_byte:
  assumes "size_of_file e = Some n" and "contents e = Some bytes" and "length bytes = unat n"
    and "Suc (unat n) < 2 ^ 31" and "target \<noteq> []" and "CHR 0x00 \<notin> set target"
  shows "if bytes = [] then process_small_file e target w = None
    else \<exists>ms. process_small_file e target w = Some (ms, w) \<and>
      map offset ms = map of_nat (occurrences (butlast bytes) target)"
proof (cases "bytes = []")
  case True
  then have "n = 0" using assms(3) by (simp add: unat_eq_0)
  then show ?thesis
    using True assms(1,2) by (auto simp: process_small_file_def fill_buffer_def split: bind_splits)
next
  case False
  let ?b = "butlast bytes @ [CHR 0x00]"
  have pos: "0 < unat n" unfolding assms(3) [symmetric] using False by simp
  then have len: "Suc (length ?b) < 2 ^ 31" using assms(3,4) by simp
  note process_small_file_whole [OF assms(1-3) pos len]
  moreover have "map offset (map (match_of ?b target (path_of e)) (occurrences ?b target)) =
      map of_nat (occurrences (butlast bytes) target)"
    unfolding occurrences_append [OF assms(5,6)] by (simp add: match_of_def comp_def)
  ultimately show ?thesis using False by simp
qed

lemma small_file_loses_last_byte_witness:
  "\<exists>ms. process_small_file \<lparr>path_of = ''f'', is_dir = False, access_throws = False, file_size = 5, contents = Some ''ab-ab''\<rparr> ''ab'' fresh_io = Some (ms, fresh_io) \<and>
    map offset ms = [0] \<and> occurrences ''ab-ab'' ''ab'' = [0, 3]"
  using small_file_loses_last_byte
    [of "\<lparr>path_of = ''f'', is_dir = False, access_throws = False, file_size = 5, contents = Some ''ab-ab''\<rparr>" 5 "''ab-ab''" "''ab''" fresh_io]
  by (simp add: occurrences_def occurs_at_def upt_rec)

section \<open>Large files\<close>

text \<open>C24: The loop that starts the threads ends for multiples of the chunk size only: the test for a
  last, shorter chunk compares an unsigned difference with 0, so that the number of bytes left
  wraps around instead of reaching 0. Where it ends it has started one thread for each chunk, in
  batches of at most 501.\<close>

theorem spawn_loop_ends:
  "if 16384 dvd unat n
   then \<exists>bs. spawn_loop n [] [] = Some bs \<and> concat bs = replicate (unat n div 16384) CHUNK_SIZE \<and>
     (\<forall>b \<in> set bs. length b \<le> Suc THREAD_LIMIT)
   else spawn_loop n [] [] = None"
proof (cases "16384 dvd unat n")
  case True
  then have "unat n = 16384 * (unat n div 16384)" by simp
  from spawn_multiple [OF this, of "[]" "[]"] True show ?thesis by simp
next
  case False
  then show ?thesis using spawn_returns_multiple [of n "[]" "[]"] by (cases "spawn_loop n [] []") auto
qed

lemma spawn_loop_ends_witness: "spawn_loop 40000 [] [] = None"
proof -
  have "\<not> 16384 dvd unat (40000 :: u64)" by simp
  then show ?thesis using spawn_loop_ends [of 40000] by simp
qed

lemma large_batches:
  assumes "16384 dvd unat n"
  obtains bs where "spawn_loop n [] [] = Some bs" and "set (concat bs) \<subseteq> {CHUNK_SIZE}"
    and "length (concat bs) = unat n div 16384"
proof -
  have "unat n = 16384 * (unat n div 16384)" using assms by simp
  then obtain bs where bs: "spawn_loop n [] [] = Some bs"
      "concat bs = replicate (unat n div 16384) CHUNK_SIZE"
    using spawn_multiple [of n _ "[]" "[]"] by auto
  show ?thesis
  proof (rule that [OF bs(1)])
    show "set (concat bs) \<subseteq> {CHUNK_SIZE}" unfolding bs(2) by auto
    show "length (concat bs) = unat n div 16384" unfolding bs(2) by simp
  qed
qed

lemma chunk_range: "0 < unat CHUNK_SIZE" "Suc (unat CHUNK_SIZE) < 2 ^ 31"
  by (simp_all add: CHUNK_SIZE_value)

lemma large_run_exists:
  assumes "contents e = Some bytes" and "size_of_file e = Some n" and "16384 dvd unat n"
  shows "\<exists>r. process_large_file avail e target w r"
proof -
  obtain bs where bs: "spawn_loop n [] [] = Some bs" "set (concat bs) \<subseteq> {CHUNK_SIZE}"
    using assms(3) by (rule large_batches)
  obtain c where "batches_run avail target (path_of e) bs (bytes, large_note w) c"
    using batches_complete [OF bs(2) chunk_range] by blast
  then show ?thesis using process_large_file.chunks [OF assms(1,2) bs(1)] by (cases c) blast
qed

text \<open>A large file that can be opened is processed to the end exactly when its size can be asked for
  and is a multiple of the chunk size; no schedule blocks or faults.\<close>

theorem large_file_ends:
  assumes "contents e = Some bytes"
  shows "(\<exists>r. process_large_file avail e target w r) \<longleftrightarrow>
    \<not> access_throws e \<and> 16384 dvd unat (file_size e)"
proof
  assume "\<exists>r. process_large_file avail e target w r"
  then show "\<not> access_throws e \<and> 16384 dvd unat (file_size e)"
    using assms spawn_returns_multiple by (auto elim!: process_large_file.cases)
next
  assume "\<not> access_throws e \<and> 16384 dvd unat (file_size e)"
  then show "\<exists>r. process_large_file avail e target w r"
    by (intro large_run_exists [OF assms, of "file_size e"]) simp_all
qed

definition full_file :: entry where
  "full_file = \<lparr>path_of = ''f'', is_dir = False, access_throws = False, file_size = 32768, contents = Some (replicate 32768 (CHR ''a''))\<rparr>"

lemma large_file_ends_witness:
  "(\<exists>r. process_large_file length full_file ''ab'' fresh_io r) \<and>
   \<not> (\<exists>r. process_large_file length (full_file\<lparr>file_size := 32769\<rparr>) ''ab'' fresh_io r)"
proof -
  let ?c = "replicate 32768 (CHR ''a'')"
  have "contents full_file = Some ?c" "contents (full_file\<lparr>file_size := 32769\<rparr>) = Some ?c"
      "unat (file_size full_file) = 32768" "\<not> access_throws full_file" "unat (file_size (full_file\<lparr>file_size := 32769\<rparr>)) = 32769"
    by (simp_all add: full_file_def)
  then show ?thesis
    using large_file_ends [of full_file ?c length "''ab''" fresh_io]
      large_file_ends [of "full_file\<lparr>file_size := 32769\<rparr>" ?c length "''ab''" fresh_io] by simp
qed

text \<open>C18: Whatever the schedule of the threads, a large file yields the same lines up to the order of the
  chunks: what is printed is the matches of each chunk, a piece of 16384 bytes whose last byte is
  overwritten, with positions counted from the start of the chunk. A match that reaches the end of
  a chunk or crosses it is in none of them. \<open>readsome\<close> is taken to find all that is left of the
  file.\<close>

theorem large_file_output:
  assumes "contents e = Some bytes" and "process_large_file length e target w (v, w')"
  shows "v = [] \<and> (\<exists>outs. mset outs = mset (map (chunk_text CHUNK_SIZE bytes) [0..<unat (file_size e) div 16384]) \<and>
    w' = (large_note w)\<lparr>out := out (large_note w) @ concat (map (chunk_output target (path_of e)) outs)\<rparr>)"
  using assms(2)
proof cases
  case unopened
  then show ?thesis using assms(1) by simp
next
  case (chunks bytes' n bs rest)
  then have n: "n = file_size e" by simp
  have "16384 dvd unat (file_size e)" using chunks(4) unfolding n by (rule spawn_returns_multiple)
  then have bs: "set (concat bs) \<subseteq> {CHUNK_SIZE}" "length (concat bs) = unat (file_size e) div 16384"
    using large_batches chunks(4) n by (metis option.inject)+
  have "bytes' = bytes" using assms(1) chunks(2) by simp
  then show ?thesis
    using batches_output [OF chunks(5) bs(1) chunk_range] chunks(1) bs(2) by (auto simp: reads_all)
qed

lemma large_file_output_witness:
  "\<exists>v w' outs. process_large_file length full_file ''ab'' fresh_io (v, w') \<and> v = [] \<and> length outs = 2 \<and>
    w' = (large_note fresh_io)\<lparr>out := out (large_note fresh_io) @ concat (map (chunk_output ''ab'' ''f'') outs)\<rparr>"
proof -
  have f: "contents full_file = Some (replicate 32768 (CHR ''a''))" "unat (file_size full_file) div 16384 = 2"
      "path_of full_file = ''f''" "size_of_file full_file = Some 32768" "16384 dvd unat (32768 :: u64)"
    by (simp_all add: full_file_def)
  obtain v w' where r: "process_large_file length full_file ''ab'' fresh_io (v, w')"
    using large_run_exists [OF f(1,4,5)] by fast
  obtain outs where "v = []" "mset outs = mset (map (chunk_text CHUNK_SIZE (replicate 32768 (CHR ''a''))) [0..<2])"
      "w' = (large_note fresh_io)\<lparr>out := out (large_note fresh_io) @ concat (map (chunk_output ''ab'' ''f'') outs)\<rparr>"
    using large_file_output [OF f(1) r] unfolding f(2,3) by blast
  moreover from this have "length outs = 2" by (metis diff_zero length_map length_upt size_mset)
  ultimately show ?thesis using r by blast
qed

section \<open>main\<close>

text \<open>A directory that may be read, or a file that is not empty, fits into memory and can be read in full.\<close>

definition readable :: "entry \<Rightarrow> bool" where
  "readable e \<longleftrightarrow> \<not> access_throws e \<and> (is_dir e \<or> file_size e < FILE_SIZE_LIMIT \<and>
     (case contents e of None \<Rightarrow> False | Some bytes \<Rightarrow> bytes \<noteq> [] \<and> length bytes = unat (file_size e)))"

definition searched :: "string \<Rightarrow> entry \<Rightarrow> string" where
  "searched target e = (if is_dir e then [] else
     chunk_output target (path_of e) (butlast (the (contents e)) @ [CHR 0x00]))"

lemma process_readable:
  assumes "readable e" and "\<not> is_dir e"
  obtains ms where "\<And>r. process_file avail e target w r \<longleftrightarrow> r = (ms, w)"
    and "concat (map (format_match target) ms) = chunk_output target (path_of e) (butlast (the (contents e)) @ [CHR 0x00])"
proof -
  obtain bytes where b: "contents e = Some bytes" "bytes \<noteq> []" "length bytes = unat (file_size e)"
      "file_size e < FILE_SIZE_LIMIT" and n: "size_of_file e = Some (file_size e)"
    using assms by (auto simp: readable_def split: option.splits)
  let ?b = "butlast bytes @ [CHR 0x00]"
  let ?ms = "map (match_of ?b target (path_of e)) (occurrences ?b target)"
  have pos: "0 < unat (file_size e)" unfolding b(3) [symmetric] using b(2) by simp
  have "unat (file_size e) < 512 * 1024 * 1024"
    using b(4) by (simp add: word_less_nat_alt FILE_SIZE_LIMIT_def)
  then have "Suc (length ?b) < 2 ^ 31" using b(3) pos by simp
  from process_small_file_whole [OF n b(1,3) pos this]
  have "process_file avail e target w r \<longleftrightarrow> r = (?ms, w)" for r
    using b(4) n by (auto simp: process_file.simps)
  then show ?thesis using that b(1) by (simp add: chunk_output_def)
qed

inductive_simps process_entries_simps [simp]:
  "process_entries avail [] target w w'"
  "process_entries avail (e # es) target w w'"

lemma entries_searched:
  assumes "\<forall>e \<in> set es. readable e"
  shows "process_entries avail es target w w' \<longleftrightarrow> w' = w\<lparr>out := out w @ concat (map (searched target) es)\<rparr>"
  using assms
proof (induction es arbitrary: w)
  case Nil
  then show ?case by simp
next
  case (Cons e es)
  show ?case
  proof (cases "is_dir e")
    case True
    moreover have "\<not> access_throws e" using Cons.prems by (simp add: readable_def)
    ultimately show ?thesis using Cons by (simp add: searched_def)
  next
    case False
    then have "readable e" using Cons.prems by simp
    then obtain ms where ms: "\<And>r. process_file avail e target w r \<longleftrightarrow> r = (ms, w)"
        "concat (map (format_match target) ms) = searched target e"
      using False by (metis process_readable searched_def)
    have "(if ms = [] then w else format_output ms target w) = w\<lparr>out := out w @ searched target e\<rparr>"
      using ms(2) by (auto simp: format_output_def)
    then show ?thesis using False ms(1) Cons by simp
  qed
qed

text \<open>C20: On a directory whose directories may be read and whose files are not empty, can be read and fit
  into memory, the program ends with status 0 and prints, entry by entry in the order of the
  directory iterator, the lines of the matches of each file without its last byte; nothing else
  can happen.\<close>

theorem search_directory:
  assumes "length argv \<ge> 3" and "fs (argv ! 1) = Directory es" and "\<forall>e \<in> set es. readable e"
  shows "search_main avail fs argv w r =
    (r = (0, w\<lparr>out := out w @ concat (map (searched (argv ! 2)) es)\<rparr>))"
  using assms(1,2) entries_searched [OF assms(3)] by (auto simp: search_main.simps)

definition demo_entries :: "entry list" where
  "demo_entries = [\<lparr>path_of = ''d'', is_dir = True, access_throws = False, file_size = 0, contents = None\<rparr>,
     \<lparr>path_of = ''f'', is_dir = False, access_throws = False, file_size = 6, contents = Some ''1ab23z''\<rparr>]"

lemma search_directory_witness:
  "search_main length (\<lambda>_. Directory demo_entries) [''prog'', ''.'', ''ab''] fresh_io
    (0, \<lparr>out = ''f(1): (null) ab (null)'' @ [CHR 0x0A], err = []\<rparr>)"
proof -
  have "concat (map (searched ''ab'') demo_entries) = ''f(1): (null) ab (null)'' @ [CHR 0x0A]"
    by (simp add: demo_entries_def searched_def chunk_output_def occurrences_def occurs_at_def match_of_def
        format_match_def format_string_def show_i32_def show_nat.simps upt_rec char_of_def bit_Suc_0_iff)
  moreover have "\<forall>e \<in> set demo_entries. readable e"
    by (simp add: demo_entries_def readable_def FILE_SIZE_LIMIT_def)
  ultimately show ?thesis
    using search_directory [of "[''prog'', ''.'', ''ab'']" "\<lambda>_. Directory demo_entries" demo_entries]
    by (simp add: fresh_io_def)
qed

section \<open>When the program ends\<close>

text \<open>What the processing of one file needs to come to its end.\<close>

definition file_ends :: "entry \<Rightarrow> bool" where
  "file_ends e \<longleftrightarrow> \<not> access_throws e \<and>
     (contents e = None \<or>
      (if file_size e < FILE_SIZE_LIMIT then file_size e \<noteq> 0 else 16384 dvd unat (file_size e)))"

definition entry_ends :: "entry \<Rightarrow> bool" where
  "entry_ends e \<longleftrightarrow> (if is_dir e then \<not> access_throws e else file_ends e)"

lemma small_file_total:
  assumes "size_of_file e = Some n" and "n < FILE_SIZE_LIMIT"
  shows "process_small_file e target w \<noteq> None \<longleftrightarrow> contents e = None \<or> n \<noteq> 0"
proof (cases "contents e = None \<or> n = 0")
  case True
  then show ?thesis
    using assms(1) by (auto simp: process_small_file_def fill_buffer_def split: bind_splits option.splits)
next
  case False
  then obtain bytes where b: "contents e = Some bytes" and n: "n \<noteq> 0" by auto
  have pos: "0 < unat n" using n by (simp add: unat_gt_0)
  obtain c where c: "fill_buffer n (take (unat n) bytes) = Some c" "length c = unat n"
    using fill_buffer_length [OF pos, of "take (unat n) bytes"] by auto
  then have "fill_buffer n bytes = Some c" using n by (simp add: fill_buffer_def Let_def)
  moreover have "unat n < 512 * 1024 * 1024"
    using assms(2) by (simp add: word_less_nat_alt FILE_SIZE_LIMIT_def)
  ultimately have "process_small_file e target w \<noteq> None"
    unfolding process_small_file_def assms(1) b using process_chunk_spec [of c] c(2) by simp
  then show ?thesis using n by simp
qed

lemma process_file_total: "(\<exists>r. process_file avail e target w r) \<longleftrightarrow> file_ends e"
proof (cases "access_throws e")
  case True
  then show ?thesis by (auto simp: process_file.simps file_ends_def)
next
  case False
  then have n: "size_of_file e = Some (file_size e)" by simp
  show ?thesis
  proof (cases "file_size e < FILE_SIZE_LIMIT")
    case True
    then show ?thesis
      using small_file_total [OF n True, of target w] n by (auto simp: process_file.simps file_ends_def)
  next
    case large: False
    show ?thesis
    proof (cases "contents e")
      case None
      then show ?thesis
        using large False process_large_file.unopened [OF None, of avail target w]
        by (auto simp: process_file.simps file_ends_def simp del: split_paired_Ex)
    next
      case (Some bytes)
      have "(\<exists>r. process_large_file avail e target w r) \<longleftrightarrow> 16384 dvd unat (file_size e)"
        using large_run_exists [OF Some n] Some spawn_returns_multiple
        by (auto elim!: process_large_file.cases)
      then show ?thesis using large False Some by (simp add: process_file.simps file_ends_def)
    qed
  qed
qed

lemma entries_total:
  "(\<exists>w'. process_entries avail es target w w') \<longleftrightarrow> list_all entry_ends es"
proof (induction es arbitrary: w)
  case Nil
  then show ?case by simp
next
  case (Cons e es)
  show ?case
  proof (cases "is_dir e")
    case True
    then show ?thesis using Cons [of w] by (simp add: entry_ends_def)
  next
    case False
    have "(\<exists>w'. process_entries avail (e # es) target w w') \<longleftrightarrow>
        (\<exists>v w1. process_file avail e target w (v, w1)) \<and> list_all entry_ends es"
    proof
      assume "\<exists>w'. process_entries avail (e # es) target w w'"
      then obtain v w1 w' where "process_file avail e target w (v, w1)"
          "process_entries avail es target (if v = [] then w1 else format_output v target w1) w'"
        using False by (simp only: process_entries_simps) blast
      then show "(\<exists>v w1. process_file avail e target w (v, w1)) \<and> list_all entry_ends es"
        using Cons by blast
    next
      assume *: "(\<exists>v w1. process_file avail e target w (v, w1)) \<and> list_all entry_ends es"
      then obtain v w1 where v: "process_file avail e target w (v, w1)" by blast
      obtain w' where "process_entries avail es target (if v = [] then w1 else format_output v target w1) w'"
        using * Cons by blast
      from process_entries.regular [OF False v this]
      show "\<exists>w'. process_entries avail (e # es) target w w'" by (rule exI)
    qed
    then show ?thesis using False process_file_total [of avail e target w] by (simp add: entry_ends_def [of e])
  qed
qed

text \<open>C21: The program returns from \<open>main\<close> exactly when it has too few arguments, the path does not exist,
  or every directory under it may be read and every file lets itself be processed: its size can be
  asked for without an exception, and it cannot be opened, or is below the limit and not empty, or
  is a multiple of the chunk size. One directory without permission, one dangling link, one
  socket, one empty file or one large file of another size ends the program without a result, for
  all the other files.\<close>

theorem search_main_ends:
  "(\<exists>r. search_main avail fs argv w r) \<longleftrightarrow> length argv < 3 \<or>
    (case fs (argv ! 1) of Missing \<Rightarrow> True | Unreadable \<Rightarrow> False
     | Directory es \<Rightarrow> list_all entry_ends es
     | File e \<Rightarrow> file_ends e)"
proof (cases "fs (argv ! 1)")
  case Missing
  then show ?thesis by (auto simp: search_main.simps)
next
  case Unreadable
  then show ?thesis by (auto simp: search_main.simps)
next
  case (Directory es)
  then show ?thesis
    using entries_total [of avail es "argv ! 2" w] by (auto simp: search_main.simps)
next
  case (File e)
  have "(\<exists>r. search_main avail fs argv w r) \<longleftrightarrow>
      length argv < 3 \<or> (\<exists>r. process_file avail e (argv ! 2) w r)"
    using File by (cases "length argv < 3") (simp_all add: search_main.simps)
  then show ?thesis using File process_file_total [of avail e "argv ! 2" w] by simp
qed

lemma search_main_ends_witness:
  "(\<exists>r. search_main length (\<lambda>_. Directory demo_entries) [''prog'', ''.'', ''ab''] fresh_io r) \<and>
   \<not> (\<exists>r. search_main length
     (\<lambda>_. Directory (demo_entries @
       [\<lparr>path_of = ''link'', is_dir = False, access_throws = True, file_size = 0, contents = None\<rparr>]))
     [''prog'', ''.'', ''ab''] fresh_io r)"
  unfolding search_main_ends by (simp add: demo_entries_def entry_ends_def file_ends_def FILE_SIZE_LIMIT_def)

end
