(* ===== verification/Search_Readme.thy ===== *)
theory Search_Readme
  imports Search_Theorems
begin

text \<open>
  What the README of the search promises, as a reference definition: a match is printed with the
  three characters before it and the three behind it, or as many as there are, under its position in
  the file. The theorems say for which small files the program keeps the promise, and which of the
  occurrences in a large file it reports under which position.
\<close>

section \<open>The reference\<close>

definition readme_match :: "string \<Rightarrow> string \<Rightarrow> string \<Rightarrow> nat \<Rightarrow> MatchInfo" where
  "readme_match s t path k = \<lparr>filename = path, offset = of_nat k,
     m_prefix = drop (k - 3) (take k s), m_suffix = take 3 (drop (k + length t) s)\<rparr>"

definition readme_matches :: "string \<Rightarrow> string \<Rightarrow> string \<Rightarrow> MatchInfo list" where
  "readme_matches s t path = map (readme_match s t path) (occurrences s t)"

text \<open>Three characters before the occurrence, and four behind it.\<close>

definition surrounded :: "string \<Rightarrow> string \<Rightarrow> nat \<Rightarrow> bool" where
  "surrounded s t k \<longleftrightarrow> 3 \<le> k \<and> k + length t + 3 < length s"

lemma set_occurrences: "k \<in> set (occurrences s t) \<longleftrightarrow> occurs_at s t k"
  by (auto simp: occurrences_def occurs_at_def simp del: upt_Suc)

lemma occurs_at_butlast: "s \<noteq> [] \<Longrightarrow> occurs_at (butlast s) t k \<longleftrightarrow> occurs_at s t k \<and> k + length t < length s"
  by (auto simp: occurs_at_def butlast_conv_take take_drop min_def)

text \<open>Where every occurrence has four characters behind it, none ends the string.\<close>

lemma occurrences_butlast:
  assumes "s \<noteq> []" and "\<And>k. occurs_at s t k \<Longrightarrow> k + length t < length s"
  shows "occurrences (butlast s) t = occurrences s t"
proof -
  obtain m where m: "length s = Suc m" using assms(1) by (cases s) auto
  have "occurs_at (butlast s) t = occurs_at s t"
    using occurs_at_butlast [OF assms(1)] assms(2) by (intro ext) blast
  moreover have "\<not> occurs_at s t (Suc m)" using assms(2) [of "Suc m"] m by auto
  ultimately show ?thesis by (simp add: occurrences_def m)
qed

section \<open>One match\<close>

text \<open>The buffer is the file but for its last byte, here \<open>c\<close>.\<close>

lemma context_before: "k \<le> length u \<Longrightarrow> 3 \<le> k \<Longrightarrow> take 3 (drop (k - 3) (u @ [c])) = drop (k - 3) (take k (u @ [d]))"
  by (simp add: drop_take)

lemma match_agrees:
  assumes "occurs_at (u @ [d]) t k" and "surrounded (u @ [d]) t k"
  shows "match_of (u @ [c]) t path k = readme_match (u @ [d]) t path k"
proof -
  have "3 \<le> k" "k \<le> length u" "k + length t + 3 \<le> length u"
    using assms by (auto simp: surrounded_def occurs_at_def)
  then show ?thesis
    using context_before [of k u c d] by (simp add: match_of_def readme_match_def surrounded_def)
qed

lemma match_differs:
  assumes "match_of s t path k = readme_match r t path k" and "length s = length r"
  shows "surrounded r t k"
proof -
  have "length (m_prefix (match_of s t path k)) \<le> 3" "length (m_suffix (match_of s t path k)) \<le> 3"
    unfolding assms(1) by (simp_all add: readme_match_def)
  then show ?thesis using assms(2) by (auto simp: match_of_def surrounded_def split: if_splits)
qed

section \<open>Small files\<close>

text \<open>The list of the matches is that of the README for surrounded occurrences, and for those only.\<close>

lemma readme_matches_complete:
  assumes "list_all (surrounded (u @ [d]) t) (occurrences (u @ [d]) t)"
  shows "map (match_of (u @ [c]) t path) (occurrences u t) = readme_matches (u @ [d]) t path"
proof -
  have s: "surrounded (u @ [d]) t k" if "occurs_at (u @ [d]) t k" for k
    using assms that by (simp add: list_all_iff set_occurrences)
  then have "k + length t < length (u @ [d])" if "occurs_at (u @ [d]) t k" for k
    using that by (fastforce simp: surrounded_def)
  then have "occurrences u t = occurrences (u @ [d]) t" using occurrences_butlast [of "u @ [d]" t] by simp
  then show ?thesis
    using match_agrees [of u d t _ c path] s by (simp add: set_occurrences readme_matches_def)
qed

lemma readme_matches_surrounded:
  assumes eq: "map (match_of (u @ [c]) t path) (occurrences u t) = readme_matches (u @ [d]) t path"
    and "length u < 2 ^ 31 - 1" and k: "occurs_at (u @ [d]) t k"
  shows "surrounded (u @ [d]) t k"
proof -
  have "readme_match (u @ [d]) t path k \<in> set (map (match_of (u @ [c]) t path) (occurrences u t))"
    unfolding eq using k by (simp add: readme_matches_def set_occurrences)
  then obtain j where j: "occurs_at u t j" "readme_match (u @ [d]) t path k = match_of (u @ [c]) t path j"
    by (auto simp: set_occurrences)
  have "(of_nat k :: u32) = of_nat j"
    using arg_cong [OF j(2), of offset] by (simp add: readme_match_def match_of_def)
  moreover have "k < 2 ^ 31" "j < 2 ^ 31" using k j(1) assms(2) by (auto simp: occurs_at_def)
  ultimately have "k = j" using small_i32(1) by metis
  then show ?thesis using match_differs [of "u @ [c]" t path k "u @ [d]"] j(2) by simp
qed

text \<open>C19: What a readable file below the limit yields is what the README asks for, every occurrence in
  the file with the characters around it, exactly when the file is not empty and each occurrence
  has at least three characters before it and four behind it.\<close>

theorem small_file_readme_iff:
  assumes "size_of_file e = Some n" and "contents e = Some bytes" and "length bytes = unat n"
    and "Suc (unat n) < 2 ^ 31" and "target \<noteq> []" and "CHR 0x00 \<notin> set target"
  shows "process_small_file e target w = Some (readme_matches bytes target (path_of e), w) \<longleftrightarrow>
    bytes \<noteq> [] \<and> list_all (surrounded bytes target) (occurrences bytes target)"
proof (cases bytes rule: rev_cases)
  case Nil
  then have "n = 0" using assms(3) by (simp add: unat_eq_0)
  then have "process_small_file e target w = None"
    using Nil assms(1,2) by (auto simp: process_small_file_def fill_buffer_def split: bind_splits)
  then show ?thesis using Nil by simp
next
  case b: (snoc u d)
  have pos: "0 < unat n" unfolding assms(3) [symmetric] using b by simp
  let ?b = "u @ [CHR 0x00]" and ?p = "path_of e"
  have len: "Suc (length ?b) < 2 ^ 31" using assms(3,4) b by simp
  have "process_small_file e target w = Some (map (match_of ?b target ?p) (occurrences ?b target), w)"
    using process_small_file_whole [OF assms(1-3) pos] len b by simp
  also have "\<dots> = Some (map (match_of ?b target ?p) (occurrences u target), w)"
    unfolding occurrences_append [OF assms(5,6)] ..
  finally have "process_small_file e target w = Some (readme_matches bytes target ?p, w) \<longleftrightarrow>
      map (match_of ?b target ?p) (occurrences u target) = readme_matches bytes target ?p"
    by simp
  also have "\<dots> \<longleftrightarrow> list_all (surrounded bytes target) (occurrences bytes target)"
  proof
    assume "map (match_of ?b target ?p) (occurrences u target) = readme_matches bytes target ?p"
    then have "surrounded bytes target k" if "occurs_at bytes target k" for k
      unfolding b using readme_matches_surrounded that len b by simp
    then show "list_all (surrounded bytes target) (occurrences bytes target)"
      by (simp add: list_all_iff set_occurrences)
  qed (simp add: b readme_matches_complete)
  finally show ?thesis using b by simp
qed

lemma small_file_readme_iff_witness:
  "process_small_file \<lparr>path_of = ''f'', is_dir = False, access_throws = False, file_size = 9, contents = Some ''xyzab1234''\<rparr>
      ''ab'' fresh_io =
    Some ([\<lparr>filename = ''f'', offset = 3, m_prefix = ''xyz'', m_suffix = ''123''\<rparr>], fresh_io) \<and>
   process_small_file \<lparr>path_of = ''f'', is_dir = False, access_throws = False, file_size = 8, contents = Some ''xyzab123''\<rparr>
      ''ab'' fresh_io \<noteq>
    Some ([\<lparr>filename = ''f'', offset = 3, m_prefix = ''xyz'', m_suffix = ''123''\<rparr>], fresh_io)"
  using small_file_readme_iff [of "\<lparr>path_of = ''f'', is_dir = False, access_throws = False, file_size = 9, contents = Some ''xyzab1234''\<rparr>"
      9 "''xyzab1234''" "''ab''" fresh_io]
    small_file_readme_iff [of "\<lparr>path_of = ''f'', is_dir = False, access_throws = False, file_size = 8, contents = Some ''xyzab123''\<rparr>"
      8 "''xyzab123''" "''ab''" fresh_io]
  by (simp add: readme_matches_def readme_match_def surrounded_def occurrences_def occurs_at_def upt_rec)

section \<open>Chunks of a large file\<close>

text \<open>What stands in a part of the file, in terms of the whole.\<close>

lemma occurs_at_window:
  assumes "a + m \<le> length s"
  shows "occurs_at (take m (drop a s)) t j \<longleftrightarrow> occurs_at s t (j + a) \<and> j + length t \<le> m"
  using assms by (auto simp: occurs_at_def drop_take add.commute add.left_commute min_def)

lemma occurrences_window:
  assumes "a + m \<le> length s"
  shows "occurrences (take m (drop a s)) t =
    map (\<lambda>k. k - a) (filter (\<lambda>k. a \<le> k \<and> k + length t \<le> a + m) (occurrences s t))"
proof -
  let ?P = "\<lambda>k. (a \<le> k \<and> k + length t \<le> a + m) \<and> occurs_at s t k"
  have "Suc (length s) = a + Suc m + (length s - (a + m))" using assms by simp
  then have "[0..<Suc (length s)] = ([0..<a] @ [a..<a + Suc m]) @ [a + Suc m..<Suc (length s)]"
    by (metis le_add1 upt_add_eq_append zero_le)
  moreover have "filter ?P [0..<a] = []" "filter ?P [a + Suc m..<Suc (length s)] = []"
    by (auto simp: filter_empty_conv simp del: upt_Suc)
  ultimately have "filter ?P [0..<Suc (length s)] = filter ?P [a..<a + Suc m]" by (simp del: upt_Suc)
  also have "[a..<a + Suc m] = map (\<lambda>j. j + a) [0..<Suc m]"
    by (simp only: map_add_upt add.commute)
  finally have "map (\<lambda>k. k - a) (filter ?P [0..<Suc (length s)]) = filter (\<lambda>j. ?P (j + a)) [0..<Suc m]"
    by (simp add: filter_map comp_def del: upt_Suc)
  moreover have "occurs_at (take m (drop a s)) t = (\<lambda>j. ?P (j + a))"
    using occurs_at_window [OF assms] by (intro ext) auto
  moreover have "length (take m (drop a s)) = m" using assms by simp
  ultimately show ?thesis by (simp add: occurrences_def conj_commute del: upt_Suc)
qed

lemma fill_chunk:
  assumes "Suc i * 16384 \<le> length bytes"
  shows "fill_buffer CHUNK_SIZE (take 16384 (drop (i * 16384) bytes)) =
    Some (take 16383 (drop (i * 16384) bytes) @ [CHR 0x00])"
proof -
  have "length (take 16384 (drop (i * 16384) bytes)) = unat CHUNK_SIZE"
    using assms by (simp add: CHUNK_SIZE_value)
  from fill_buffer_whole [OF this chunk_range(1)] show ?thesis
    using assms by (simp add: butlast_take)
qed

text \<open>C23: The thread of the \<open>i\<close>-th chunk of a large file moves the stream on by one chunk and prints exactly
  the occurrences of the file that begin in its chunk and end before the last byte of it, in order,
  each under its distance from the start of the chunk. \<open>readsome\<close> is taken to find all that is left
  of the file.\<close>

theorem read_chunk_reports:
  assumes "Suc i * 16384 \<le> length bytes" and "target \<noteq> []" and "CHR 0x00 \<notin> set target"
  shows "\<exists>chunk ms.
    read_chunk length target path (Starting CHUNK_SIZE) (drop (i * 16384) bytes, w) =
      Some (Holding chunk, drop (Suc i * 16384) bytes, w) \<and>
    read_chunk length target path (Holding chunk) (rest, w') =
      Some (Ended, rest, format_output ms target w') \<and>
    map offset ms = map (\<lambda>k. of_nat (k - i * 16384))
      (filter (\<lambda>k. i * 16384 \<le> k \<and> k + length target < Suc i * 16384) (occurrences bytes target))"
proof (intro exI conjI)
  let ?u = "take 16383 (drop (i * 16384) bytes)"
  let ?c = "?u @ [CHR 0x00]"
  let ?ms = "map (match_of ?c target path) (occurrences ?c target)"
  have "readsome length CHUNK_SIZE (drop (i * 16384) bytes) =
      (take 16384 (drop (i * 16384) bytes), drop (Suc i * 16384) bytes)"
    using assms(1) by (simp add: readsome_def Let_def CHUNK_SIZE_value min_def)
  moreover have "\<not> CHUNK_SIZE <s 0" by (simp add: CHUNK_SIZE_def word_sless_alt)
  ultimately show "read_chunk length target path (Starting CHUNK_SIZE) (drop (i * 16384) bytes, w) =
      Some (Holding ?c, drop (Suc i * 16384) bytes, w)"
    by (simp only: read_chunk.simps if_False prod.case Let_def fill_chunk [OF assms(1)] bind.bind_lunit)
  have "length ?c = 16384" using assms(1) by simp
  then show "read_chunk length target path (Holding ?c) (rest, w') =
      Some (Ended, rest, format_output ?ms target w')"
    using process_chunk_spec [of ?c target path] by simp
  have "occurrences ?c target = occurrences ?u target" by (rule occurrences_append [OF assms(2,3)])
  also have "\<dots> = map (\<lambda>k. k - i * 16384)
      (filter (\<lambda>k. i * 16384 \<le> k \<and> k + length target \<le> i * 16384 + 16383) (occurrences bytes target))"
    using assms(1) by (intro occurrences_window) simp
  also have "(\<lambda>k. i * 16384 \<le> k \<and> k + length target \<le> i * 16384 + 16383) =
      (\<lambda>k. i * 16384 \<le> k \<and> k + length target < Suc i * 16384)"
    by (intro ext) auto
  finally show "map offset ?ms = map (\<lambda>k. of_nat (k - i * 16384))
      (filter (\<lambda>k. i * 16384 \<le> k \<and> k + length target < Suc i * 16384) (occurrences bytes target))"
    by (simp add: match_of_def comp_def)
qed

definition chunk_sample :: string where
  "chunk_sample = ''ab'' @ replicate 16382 (CHR ''x'')"

lemma occurrences_sample: "occurrences chunk_sample ''ab'' = [0]"
proof -
  have "\<not> occurs_at chunk_sample ''ab'' k" if "1 \<le> k" for k
  proof
    assume k: "occurs_at chunk_sample ''ab'' k"
    then have len: "k < length chunk_sample" by (simp add: occurs_at_def)
    have "chunk_sample ! k = CHR ''b'' \<or> chunk_sample ! k = CHR ''x''"
      using that len by (cases "k = 1") (auto simp: chunk_sample_def nth_append)
    moreover have "hd (take (length ''ab'') (drop k chunk_sample)) = CHR ''a''"
      using k by (simp only: occurs_at_def list.sel)
    then have "chunk_sample ! k = CHR ''a''" using len by (simp add: hd_drop_conv_nth)
    ultimately show False by auto
  qed
  then have "filter (occurs_at chunk_sample ''ab'') [1..<Suc (length chunk_sample)] = []"
    by (auto simp: filter_empty_conv simp del: upt_Suc)
  moreover have "occurs_at chunk_sample ''ab'' 0" by (simp add: occurs_at_def chunk_sample_def)
  moreover have "[0..<Suc (length chunk_sample)] = 0 # [1..<Suc (length chunk_sample)]"
    by (simp add: upt_conv_Cons del: upt_Suc)
  ultimately show ?thesis by (simp only: occurrences_def filter.simps if_True)
qed

lemma read_chunk_reports_witness:
  "\<exists>chunk ms.
    read_chunk length ''ab'' ''f'' (Starting CHUNK_SIZE) (chunk_sample, fresh_io) =
      Some (Holding chunk, [], fresh_io) \<and>
    read_chunk length ''ab'' ''f'' (Holding chunk) ([], fresh_io) =
      Some (Ended, [], format_output ms ''ab'' fresh_io) \<and> map offset ms = [0]"
proof -
  have len: "length chunk_sample = 16384" by (simp add: chunk_sample_def)
  have end_of: "drop (Suc 0 * 16384) chunk_sample = []" "Suc 0 * 16384 \<le> length chunk_sample"
      "drop (0 * 16384) chunk_sample = chunk_sample"
    using len by simp_all
  have "map (\<lambda>k. of_nat (k - 0 * 16384)) (filter (\<lambda>k. 0 * 16384 \<le> k \<and> k + length ''ab'' < Suc 0 * 16384)
      (occurrences chunk_sample ''ab'')) = [0 :: u32]"
    unfolding occurrences_sample by simp
  then show ?thesis
    using read_chunk_reports [OF end_of(2), of "''ab''" "''f''" fresh_io "[]" fresh_io]
    unfolding end_of by simp
qed

end
