(* ===== verification/Spec2Isabelle.thy ===== *)
theory Spec2Isabelle
  imports Kmalloc_Theorems Kmalloc_Limits Kmalloc_Main Kmalloc_Stats Kmalloc_Rust_Global
    Fixalloc_Theorems Goruntime_Theorems Atomic_Linear Atomic_Abi Runtime_Theorems Layout_Theorems
    Layout_Tables Go_Layout Go_Programs Goruntime_Test Search_Readme
begin

text \<open>
  A verification of the C and C++ programs of this repository, and of one in Rust. They are
  independent of each other: the allocator of \<open>kmalloc/original\<close> and its port to Rust, the port
  of parts of the Go runtime to C in \<open>rgoffi/go/gocruntime\<close> with the Go files and the Rust program
  around it, and the string search of \<open>eset/find_string_in_files\<close>. Every definition that models
  code follows the code statement by statement; every theorem is about these definitions. An
  operation that has undefined behaviour, ends in a fault or does not return has the value
  \<^term>\<open>None\<close> (or a fault of a sum type); C integers are words of their width.

  \<^bold>\<open>Shared ground.\<close> \<open>Prelude\<close>: the integer types and facts about words and lists. \<open>C_Heap\<close>: memory
  as bytes under 64-bit addresses, 64-bit cells and linked lists in it (the locale \<open>word_cells\<close>
  states what the list lemmas need of a cell, and is interpreted for cells of eight bytes), the heap of a
  process with \<open>sbrk\<close>, and \<open>memset\<close> and \<open>bcopy\<close> (which with a length of 0 do nothing, also at
  NULL); \<open>os\<close> gives the page size and says which moves of the break are granted. \<open>Allocator\<close>: what a client may expect of an allocator. The
  locale \<open>allocator\<close> states the laws, on the sizes of the live objects; its lemmas
  show once that every sequence of calls is a run on abstract objects that do not overlap and
  keep their contents; \<open>total_allocator\<close> adds that allocations return, \<open>diverging_allocator\<close> that
  those which return are not NULL, so that none is refused (\<open>granted_run\<close>). \<open>Full_Allocator\<close> extends it
  by resizing and zeroed objects (\<open>full_allocator\<close>): a sequence of requests is a run on abstract
  objects up to the first request for zeroes that fails.

  \<^bold>\<open>kmalloc.c.\<close> \<open>Kmalloc\<close> holds the state (\<open>kstate\<close>: the static variables and the heap) and one
  definition for each function, and for each loop and larger part of one: \<open>kmalloc_setup\<close>,
  \<open>size_loop\<close>, \<open>kmalloc_bucket\<close>, \<open>morecore\<close>, \<open>carve\<close>, \<open>kmalloc_take\<close>, \<open>kmalloc\<close>, \<open>kcalloc\<close>,
  \<open>kfree\<close>, \<open>kmalloc_usable_size\<close>, \<open>findbucket\<close>, \<open>krealloc_lookup\<close>, \<open>krealloc_onb\<close>,
  \<open>krealloc_low\<close>, \<open>krealloc\<close>. \<open>Kmalloc_Size\<close> relates the word arithmetic to block sizes
  (\<open>extent\<close>) and capacities. \<open>Kmalloc_Inv\<close> has the invariant \<open>kwf\<close>: a ghost map from addresses to the
  buckets of the blocks carved so far, which are aligned, apart and within the heap; the free
  lists are exactly the free blocks, and blocks in use carry the magic number and their bucket.
  \<open>Kmalloc_Alloc\<close>, \<open>Kmalloc_Free\<close>, \<open>Kmalloc_Boot\<close>, \<open>Kmalloc_Realloc\<close>, \<open>Kmalloc_Freed\<close> and
  \<open>Kmalloc_Calloc\<close> show what each operation does under it. \<open>Kmalloc_Client\<close> interprets
  \<open>total_allocator\<close> and \<open>Kmalloc_Program\<close> \<open>full_allocator\<close>, so that programs which mix all four
  operations are covered: the one way they fail is a \<open>kcalloc\<close> that clears NULL. What is shown from
  program start assumes \<open>boots\<close>, that the system grants the first move of the break, which aligns
  it: after a refusal the state is spoiled, as \<open>kmalloc_after_refusal\<close> shows. \<open>Kmalloc_Demo\<close>
  has the concrete states of the witnesses, \<open>Kmalloc_Theorems\<close> and
  \<open>Kmalloc_Limits\<close> the properties: the invariant and functional behaviour of all operations, and
  where they fall short of what their names promise (a failing \<open>krealloc\<close> frees the block,
  \<open>kcalloc\<close> writes through NULL, a freed block that is not found makes \<open>krealloc\<close> undefined, a
  refused first call spoils the state). The bounds are those of the code: 30 buckets, of which
  number 28 is never filled, because \<open>1 << 31\<close> is negative, and number 29 never asked for; user
  addresses are below
  \<open>2 ^ 47\<close>. No fuel is used: \<open>size_loop\<close> and \<open>carve\<close> terminate by a measure, \<open>page_loop\<close> and
  \<open>findbucket_walk\<close> are partial functions whose return is proved.

  \<open>Kmalloc_Main\<close> has the test program \<open>original/tests/main.c\<close> and what it prints,
  \<open>Kmalloc_Stats\<close> the configuration \<open>MSTATS\<close>: the counters, the four operations that keep them, that
  they count the blocks in use (\<open>ms_run\<close>: the states a program reaches with the four operations and
  its own stores; \<open>ms_inv\<close>: its invariant), and \<open>mstats\<close>.

  \<^bold>\<open>kmalloc.rs.\<close> \<open>Kmalloc_Rust\<close> models the port to Rust on the same state and heap, function by
  function, with the arithmetic of Rust: each operation takes the build profile \<open>chk\<close>, and overflow
  panics or wraps. \<open>Kmalloc_Rust_Arith\<close> shows that what it computes with 32-bit signed integers is
  what the original computes with 64 bits, for requests up to \<open>rs_limit\<close>, \<open>2 ^ 30 + 4088\<close> bytes;
  \<open>Kmalloc_Rust_Heap\<close> that
  on heaps below 2 GB the operations agree with the original, and interprets \<open>total_allocator\<close>;
  \<open>Kmalloc_Rust_Program\<close> does the same for \<open>realloc\<close> of live blocks and \<open>kcalloc\<close>, and interprets
  \<open>full_allocator\<close>. \<open>Kmalloc_Rust_Theorems\<close> states this, and how the port fails on other heaps, on
  larger requests and on blocks that are already free. \<open>Kmalloc_Rust_Global\<close> interprets
  \<open>diverging_allocator\<close> for the global allocator of \<open>lib.rs\<close>, which ends the program instead of
  returning NULL.

  \<^bold>\<open>fixalloc.c.\<close> \<open>Fixalloc\<close> models \<open>init\<close>, \<open>alloc\<close>, \<open>dealloc\<close> and \<open>test\<close>, and the \<open>alloc\<close> of
  the Go original \<open>fixalloc.go\<close> beside them. The persistent allocator of the Go runtime is a
  parameter \<open>pa\<close>: what its \<open>i\<close>-th call returns, or that it throws. \<open>chunks_ok\<close> states what it
  promises: chunks apart from each other below \<open>2 ^ 47\<close>. \<open>Fixalloc_Inv\<close> has the invariant,
  \<open>Fixalloc_Client\<close> interprets \<open>diverging_allocator\<close> for the Go version, which throws when it has no
  memory, \<open>Fixalloc_Theorems\<close> shows that the
  C version returns carved blocks one block too far.

  \<^bold>\<open>Atomic operations.\<close> \<open>Machine\<close> is as much of an x86-64 as \<open>atomic_amd64.s\<close> uses, one
  instruction per step. \<open>Atomics\<close> has the routines as instruction lists and all functions of
  \<open>atomic.c\<close> and \<open>atomic_amd64.c\<close> on them. \<open>Atomic_Register\<close> states the contract of \<open>atomic.h\<close> as a
  register with atomic operations (locale \<open>atomic_register\<close>), interpreted for \<open>uint32\<close> and
  \<open>uint64\<close>; it is about calls made one after the other. \<open>Atomic_Linear\<close> is about threads: a routine
  runs instruction by instruction (\<open>con_move\<close>), the atomic object takes each operation in one step
  between call and return (\<open>atom_move\<close>), and the locale \<open>single_access\<close>, interpreted for both
  families, shows once that routines which meet the specification alone and touch memory in one
  instruction only are linearizable and wait-free. \<open>Goruntime\<close> models \<open>goruntime.c\<close> but for its test with two threads: threads interleave
  instruction by instruction (\<open>sched\<close>), and \<open>owes\<close> says what a thread will still add.
  \<open>Goruntime_Theorems\<close> has the histories, the sum any number of threads leaves, and the operations
  that break the contract. \<open>Goruntime_Test\<close> models \<open>test_atomicity\<close> in full: the statements of the
  main thread (\<open>stmts\<close>), allocation and release through \<open>main.go\<close>, thread creation that may fail,
  messages and instructions of the threads in any order (\<open>proc_step\<close>); \<open>phase\<close> is its invariant, and
  every run has at most 187 steps. \<open>Atomic_Abi\<close> holds the routines against the prototypes of
  \<open>atomic_amd64.h\<close>: a routine conforms when result and memory are determined by the arguments at
  their declared widths and nothing but the cell is accessed.

  \<^bold>\<open>Strings and enumerations.\<close> \<open>Gostring\<close> models \<open>string.c\<close>, under the reading its text gives since
  the file does not compile; \<open>Runtime_Enums\<close> the enumerations of \<open>lockrank.h\<close>, \<open>runtime2.h\<close> and
  \<open>type.h\<close> and \<open>lockrank_off.c\<close>; \<open>Runtime_Theorems\<close> their theorems.
  \<open>Runtime_Layout\<close> has the structs of \<open>runtime2.h\<close>, \<open>type.h\<close>, \<open>string.h\<close> and \<open>fixalloc\<close> as lists of
  fields and places them as a C compiler does, for targets given by their word size and the
  alignments of integers of eight bytes in C and in Go; \<open>Layout_Theorems\<close> shows that all are laid
  out soundly and where the fields are whose place matters: those accessed atomically and those the
  linker knows; \<open>Layout_Tables\<close> has the offset of every field, as \<open>offsetof\<close> gives it.

  \<^bold>\<open>Go, C and Rust together.\<close> \<open>Go_Layout\<close> has the types of the headers that cgo generates, the
  structs that Go and C both declare, and the functions that cross the border; it shows which
  layouts agree on every target, when that of the sample node does (not on 32-bit ARM, where Go
  aligns \<open>int64\<close> to 4 and C to 8), and that the type descriptor never does. \<open>Go_Programs\<close>
  models \<open>main.go\<close>, \<open>supply.go\<close>, \<open>init\<close> and \<open>free\<close> of \<open>fixalloc.go\<close> and \<open>rgoffi/src/lib.rs\<close>; the
  system allocator of the Go runtime is a parameter. Its theorems say what the programs print and
  that the Go helpers and the allocator sample do what their C counterparts do.

  \<^bold>\<open>String search.\<close> \<open>Search\<close> models matches in a buffer, their printed form and small files,
  \<open>Search_Threads\<close> the threads of large files, \<open>process\<close> and \<open>main\<close>. A thread makes two steps, each
  under one mutex; any thread of a batch may make the next. \<open>Search_Matches\<close> shows that the
  loop over \<open>find\<close> returns all occurrences, \<open>Search_Runs\<close> has the invariant of a batch, and
  \<open>Search_Theorems\<close> the properties, among them when \<open>main\<close> returns at all (\<open>file_ends\<close>): an exception
  of \<open>file_size()\<close>, which nobody catches, is a missing result. \<open>Search_Readme\<close> compares what is
  reported with a reference definition of what the README promises (\<open>readme_match\<close>), for small
  files and for the chunks of large ones. Buffers are below 2 GB, which the limits of the program
  ensure. What is on the file system, and how many characters \<open>readsome\<close> finds available, are
  parameters; \<open>large_file_output\<close> and \<open>read_chunk_reports\<close> take all that is left of the file to be
  available, as it is in the standard library of GCC on Linux.

  \<^bold>\<open>Not modelled.\<close> The blocks of \<open>kmalloc.c\<close> under \<open>RCHECK\<close> and \<open>DEBUG\<close>, which do not compile: the
  file name of their \<open>#include\<close> is in a comment. The blocks of \<open>kmalloc.rs\<close> under \<open>RCHECK\<close> and
  \<open>MSTATS\<close>, which the builds do not define. A \<open>std::thread\<close> of the search whose constructor throws.
  Weaker orders of memory accesses than one instruction after the other: the routines store with
  locked instructions only, and their loads are of one aligned cell. The functions of the Go runtime behind
  \<open>go:linkname\<close>, which are not in the repository; empty files and build files.
\<close>

end
